(* ===== verification/Go_Prelude.thy ===== *)
theory Go_Prelude
  imports Main "HOL-Library.Code_Target_Nat" "HOL-Library.AList" "HOL-Library.List_Lexorder" "HOL-Library.Char_ord"
    "HOL-Library.Sublist"
begin

text \<open>
  Shared vocabulary of the development: the collections of simplification rules, the generic
  facts on association lists, sorted lists and filters that the component theories use, and the
  names of the basic types.  A Go \<open>string\<close> or \<open>[]byte\<close> is an Isabelle \<open>string\<close>: a
  list of \<open>char\<close>, each of which is one byte.
\<close>

named_theorems path_simps \<open>equations on cleaned paths and joined names\<close>
named_theorems fs_simps \<open>effect of one system call on the file table\<close>
named_theorems frame_simps \<open>what an operation leaves unchanged\<close>
named_theorems inv_intros \<open>preservation of invariants\<close>

type_synonym bytes = string

subsection \<open>Lists\<close>

lemma takeWhile_append_stop:
  "\<forall>x\<in>set xs. P x \<Longrightarrow> \<not> P y \<Longrightarrow> takeWhile P (xs @ y # ys) = xs"
  by (induction xs) auto

lemma dropWhile_append_stop:
  "\<forall>x\<in>set xs. P x \<Longrightarrow> \<not> P y \<Longrightarrow> dropWhile P (xs @ y # ys) = y # ys"
  by (induction xs) auto

lemma filter_tl_not_mem: "distinct (x # xs) \<Longrightarrow> filter (\<lambda>y. y \<noteq> x) (x # xs) = xs"
  by (auto simp: filter_id_conv)

lemma sorted_remdups_filter:
  fixes xs :: "'a::linorder list"
  shows "sort (remdups xs) = sorted_list_of_set (set xs)"
  by (simp add: sorted_list_of_set_sort_remdups)

lemma filter_sorted_list_of_set:
  assumes "finite A"
  shows "filter P (sorted_list_of_set A) = sorted_list_of_set {x \<in> A. P x}"
proof (rule sorted_distinct_set_unique)
  show "sorted (filter P (sorted_list_of_set A))"
    using sorted_list_of_set(2) by (rule sorted_wrt_filter)
  show "distinct (filter P (sorted_list_of_set A))" by simp
  show "sorted (sorted_list_of_set {x \<in> A. P x})" by simp
  show "distinct (sorted_list_of_set {x \<in> A. P x})" by simp
  show "set (filter P (sorted_list_of_set A)) = set (sorted_list_of_set {x \<in> A. P x})"
    using assms by simp
qed

lemma sorted_list_of_set_remove_least:
  fixes A :: "'a::linorder set"
  assumes "finite A" and "sorted_list_of_set A = x # xs"
  shows "sorted_list_of_set (A - {x}) = xs"
proof -
  have "distinct (x # xs)" and "set (x # xs) = A"
    using assms by (metis distinct_sorted_list_of_set, metis set_sorted_list_of_set)
  moreover have "sorted (x # xs)" using assms by (metis sorted_sorted_list_of_set)
  ultimately show ?thesis
    by (intro sorted_distinct_set_unique) (use assms in auto)
qed

subsection \<open>Association lists as finite tables\<close>

lemma map_of_delete: "map_of (AList.delete k al) = (map_of al)(k := None)"
  by (simp add: delete_conv')

lemma map_of_update: "map_of (AList.update k v al) = (map_of al)(k \<mapsto> v)"
  by (simp add: update_conv')

lemma length_delete_less: "k \<in> fst ` set al \<Longrightarrow> length (AList.delete k al) < length al"
  by (induction al) (auto simp: AList.delete_eq le_imp_less_Suc)

lemma map_of_Some_key: "map_of al k = Some v \<Longrightarrow> k \<in> fst ` set al"
  by (metis domI dom_map_of_conv_image_fst)

lemma keys_iff_map_of: "k \<in> fst ` set al \<longleftrightarrow> map_of al k \<noteq> None"
  by (metis domIff dom_map_of_conv_image_fst)

subsection \<open>Sums as fallible results\<close>

text \<open>A Go function returning \<open>(T, error)\<close> returns \<open>Inl\<close> the error or \<open>Inr\<close> the value.\<close>

fun is_ok :: "'e + 'a \<Rightarrow> bool" where
  "is_ok (Inl _) = False"
| "is_ok (Inr _) = True"

lemma is_ok_iff: "is_ok r \<longleftrightarrow> (\<exists>a. r = Inr a)"
  by (cases r) auto

end
