(* ===== verification/Go_Utf8.thy ===== *)
theory Go_Utf8
  imports Go_Prelude
begin

text \<open>
  UTF-8 as package \<open>unicode/utf8\<close> sees it: the length of the well-formed sequence a byte string
  starts with (overlong forms, surrogates and code points above U+10FFFF are malformed), validity
  of a whole string, the encoding of a code point, and the replacement of malformed bytes by
  U+FFFD that \<open>encoding/json\<close> applies in both directions.
\<close>

abbreviation byte :: "char \<Rightarrow> nat" where
  "byte c \<equiv> of_char c"

definition cont :: "char \<Rightarrow> bool" where
  "cont c \<longleftrightarrow> 128 \<le> byte c \<and> byte c < 192"

text \<open>Second byte allowed after a lead byte of a three- or four-byte sequence.\<close>

definition second_ok :: "nat \<Rightarrow> nat \<Rightarrow> bool" where
  "second_ok b0 b1 \<longleftrightarrow>
     (if b0 = 224 then 160 \<le> b1 \<and> b1 < 192
      else if b0 = 237 then 128 \<le> b1 \<and> b1 < 160
      else if b0 = 240 then 144 \<le> b1 \<and> b1 < 192
      else if b0 = 244 then 128 \<le> b1 \<and> b1 < 144
      else 128 \<le> b1 \<and> b1 < 192)"

definition ascii :: "char \<Rightarrow> bool" where
  "ascii c \<longleftrightarrow> byte c < 128"

definition seq2 :: "char \<Rightarrow> char \<Rightarrow> bool" where
  "seq2 c0 c1 \<longleftrightarrow> 194 \<le> byte c0 \<and> byte c0 < 224 \<and> cont c1"

definition seq3 :: "char \<Rightarrow> char \<Rightarrow> char \<Rightarrow> bool" where
  "seq3 c0 c1 c2 \<longleftrightarrow> 224 \<le> byte c0 \<and> byte c0 < 240 \<and> second_ok (byte c0) (byte c1) \<and> cont c2"

definition seq4 :: "char \<Rightarrow> char \<Rightarrow> char \<Rightarrow> char \<Rightarrow> bool" where
  "seq4 c0 c1 c2 c3 \<longleftrightarrow>
     240 \<le> byte c0 \<and> byte c0 < 245 \<and> second_ok (byte c0) (byte c1) \<and> cont c2 \<and> cont c3"

text \<open>Length of the well-formed sequence at the front, 0 when there is none.\<close>

fun rune_len :: "string \<Rightarrow> nat" where
  "rune_len [] = 0"
| "rune_len [c0] = (if ascii c0 then 1 else 0)"
| "rune_len [c0, c1] = (if ascii c0 then 1 else if seq2 c0 c1 then 2 else 0)"
| "rune_len [c0, c1, c2] =
     (if ascii c0 then 1 else if seq2 c0 c1 then 2 else if seq3 c0 c1 c2 then 3 else 0)"
| "rune_len (c0 # c1 # c2 # c3 # s) =
     (if ascii c0 then 1 else if seq2 c0 c1 then 2 else if seq3 c0 c1 c2 then 3
      else if seq4 c0 c1 c2 c3 then 4 else 0)"

lemma seq_high:
  "seq2 c0 c1 \<Longrightarrow> \<not> ascii c0 \<and> \<not> ascii c1"
  "seq3 c0 c1 c2 \<Longrightarrow> \<not> ascii c0 \<and> \<not> ascii c1 \<and> \<not> ascii c2"
  "seq4 c0 c1 c2 c3 \<Longrightarrow> \<not> ascii c0 \<and> \<not> ascii c1 \<and> \<not> ascii c2 \<and> \<not> ascii c3"
  by (auto simp: ascii_def seq2_def seq3_def seq4_def cont_def second_ok_def split: if_splits)

lemma rune_len_cases [consumes 1, case_names ascii seq2 seq3 seq4]:
  assumes "0 < rune_len s"
  obtains c t where "s = c # t" "ascii c" "rune_len s = 1"
    | c0 c1 t where "s = c0 # c1 # t" "\<not> ascii c0" "seq2 c0 c1" "rune_len s = 2"
    | c0 c1 c2 t where "s = c0 # c1 # c2 # t" "\<not> ascii c0" "\<not> seq2 c0 c1" "seq3 c0 c1 c2" "rune_len s = 3"
    | c0 c1 c2 c3 t where "s = c0 # c1 # c2 # c3 # t" "\<not> ascii c0" "\<not> seq2 c0 c1" "\<not> seq3 c0 c1 c2"
        "seq4 c0 c1 c2 c3" "rune_len s = 4"
  using assms by (cases s rule: rune_len.cases) (auto split: if_splits)

lemma rune_len_ascii: "ascii c \<Longrightarrow> rune_len (c # s) = 1"
  by (cases "c # s" rule: rune_len.cases) auto

lemma rune_len_seq2: "\<not> ascii c0 \<Longrightarrow> seq2 c0 c1 \<Longrightarrow> rune_len (c0 # c1 # s) = 2"
  by (cases "c0 # c1 # s" rule: rune_len.cases) auto

lemma rune_len_seq3: "\<not> ascii c0 \<Longrightarrow> \<not> seq2 c0 c1 \<Longrightarrow> seq3 c0 c1 c2 \<Longrightarrow> rune_len (c0 # c1 # c2 # s) = 3"
  by (cases "c0 # c1 # c2 # s" rule: rune_len.cases) auto

lemma rune_len_le: "rune_len s \<le> length s"
  by (cases s rule: rune_len.cases) auto

lemma rune_len_append: "0 < rune_len s \<Longrightarrow> rune_len (s @ t) = rune_len s"
  by (erule rune_len_cases) (simp_all add: rune_len_ascii rune_len_seq2 rune_len_seq3)

lemma rune_len_take: "0 < rune_len s \<Longrightarrow> rune_len (take (rune_len s) s @ t) = rune_len s"
  by (erule rune_len_cases) (simp_all add: rune_len_ascii rune_len_seq2 rune_len_seq3 numeral_eq_Suc)

text \<open>A multi-byte sequence has no ASCII byte in it.\<close>

lemma rune_len_high:
  assumes "1 < rune_len s"
  shows "\<forall>c\<in>set (take (rune_len s) s). \<not> ascii c"
proof -
  have "0 < rune_len s" using assms by simp
  then show ?thesis
  proof (cases s rule: rune_len_cases)
    case (ascii c t)
    with assms show ?thesis by simp
  next
    case (seq2 c0 c1 t)
    then show ?thesis using seq_high(1) by (simp add: numeral_eq_Suc)
  next
    case (seq3 c0 c1 c2 t)
    then show ?thesis using seq_high(2) by (simp add: numeral_eq_Suc)
  next
    case (seq4 c0 c1 c2 c3 t)
    then show ?thesis using seq_high(3) by (simp add: numeral_eq_Suc)
  qed
qed

inductive valid_utf8 :: "string \<Rightarrow> bool" where
  valid_Nil: "valid_utf8 []"
| valid_rune: "0 < n \<Longrightarrow> rune_len s = n \<Longrightarrow> length s = n \<Longrightarrow> valid_utf8 t \<Longrightarrow> valid_utf8 (s @ t)"

function utf8_ok :: "string \<Rightarrow> bool" where
  "utf8_ok s = (if s = [] then True else if rune_len s = 0 then False else utf8_ok (drop (rune_len s) s))"
  by pat_completeness auto
termination
  by (relation "measure length") auto

declare utf8_ok.simps [simp del]

lemma valid_utf8_ok: "valid_utf8 s \<longleftrightarrow> utf8_ok s"
proof
  assume "valid_utf8 s"
  then show "utf8_ok s"
  proof induction
    case valid_Nil
    show ?case by (simp add: utf8_ok.simps)
  next
    case (valid_rune n s t)
    then show ?case by (subst utf8_ok.simps) (simp add: rune_len_append)
  qed
next
  assume "utf8_ok s"
  then show "valid_utf8 s"
  proof (induction s rule: utf8_ok.induct)
    case (1 s)
    show ?case
    proof (cases "s = []")
      case False
      define n where "n = rune_len s"
      have n: "0 < n" "valid_utf8 (drop n s)"
        using "1.IH" "1.prems" False by (auto simp: n_def utf8_ok.simps [of s] split: if_splits)
      have "rune_len (take n s) = n" using rune_len_take [of s "[]"] n by (simp add: n_def)
      moreover have "length (take n s) = n" using rune_len_le [of s] by (simp add: n_def)
      ultimately have "valid_utf8 (take n s @ drop n s)" using n by (intro valid_rune)
      then show ?thesis by simp
    qed (simp add: valid_Nil)
  qed
qed

lemma valid_utf8_append: "valid_utf8 a \<Longrightarrow> valid_utf8 b \<Longrightarrow> valid_utf8 (a @ b)"
  by (induction rule: valid_utf8.induct) (auto intro: valid_utf8.intros)

lemma valid_utf8_ascii: "\<forall>c\<in>set s. ascii c \<Longrightarrow> valid_utf8 s"
proof (induction s)
  case (Cons c s)
  then have "valid_utf8 ([c] @ s)"
    by (intro valid_rune [of 1]) (simp_all add: rune_len_ascii)
  then show ?case by simp
qed (rule valid_Nil)

subsection \<open>Code points\<close>

text \<open>
  \<open>utf8.AppendRune\<close> on a code point below 0x110000 that is no surrogate; anything else becomes
  U+FFFD.
\<close>

definition replacement :: string where
  "replacement = map char_of [239, 191, 189 :: nat]"

definition encode_rune :: "nat \<Rightarrow> string" where
  "encode_rune r =
     (if r < 128 then [char_of r]
      else if r < 2048 then [char_of (192 + r div 64), char_of (128 + r mod 64)]
      else if 55296 \<le> r \<and> r < 57344 \<or> 1114112 \<le> r then replacement
      else if r < 65536 then
        [char_of (224 + r div 4096), char_of (128 + r div 64 mod 64), char_of (128 + r mod 64)]
      else [char_of (240 + r div 262144), char_of (128 + r div 4096 mod 64),
            char_of (128 + r div 64 mod 64), char_of (128 + r mod 64)])"

lemma byte_char_of: "n < 256 \<Longrightarrow> byte (char_of n) = n"
  by simp

lemma rune_len_encode: "0 < rune_len (encode_rune r) \<and> rune_len (encode_rune r) = length (encode_rune r)"
proof -
  consider "r < 128" | "128 \<le> r" "r < 2048"
    | "2048 \<le> r" "55296 \<le> r \<and> r < 57344 \<or> 1114112 \<le> r"
    | "2048 \<le> r" "r < 65536" "\<not> (55296 \<le> r \<and> r < 57344)"
    | "65536 \<le> r" "r < 1114112"
    by linarith
  then show ?thesis
  proof cases
    case 1
    then show ?thesis by (simp add: encode_rune_def ascii_def)
  next
    case 2
    then have "2 \<le> r div 64" "r div 64 < 32" by auto
    then show ?thesis using 2 by (simp add: encode_rune_def ascii_def seq2_def cont_def)
  next
    case 3
    then have "encode_rune r = replacement" by (auto simp: encode_rune_def)
    then show ?thesis
      by (simp add: replacement_def ascii_def seq2_def seq3_def cont_def second_ok_def)
  next
    case 4
    define a b where "a = r div 4096" and "b = r div 64 mod 64"
    have ab: "r div 64 = a * 64 + b"
      using div_mult_mod_eq [of "r div 64" 64] by (simp add: a_def b_def div_mult2_eq [symmetric])
    have lim: "a < 16" "b < 64" using 4 by (auto simp: a_def b_def)
    moreover have "a = 0 \<Longrightarrow> 32 \<le> b" using 4 ab by auto
    moreover have "a = 13 \<Longrightarrow> b < 32" using 4 ab lim by (cases "r < 55296") auto
    moreover have "encode_rune r = [char_of (224 + a), char_of (128 + b), char_of (128 + r mod 64)]"
      using 4 by (auto simp: encode_rune_def a_def b_def)
    ultimately show ?thesis
      by (simp add: ascii_def seq2_def seq3_def cont_def second_ok_def)
  next
    case 5
    define a b where "a = r div 262144" and "b = r div 4096 mod 64"
    have ab: "r div 4096 = a * 64 + b"
      using div_mult_mod_eq [of "r div 4096" 64] by (simp add: a_def b_def div_mult2_eq [symmetric])
    have "a < 5" "b < 64" using 5 by (auto simp: a_def b_def)
    moreover have "a = 0 \<Longrightarrow> 16 \<le> b" using 5 ab by auto
    moreover have "a = 4 \<Longrightarrow> b < 16" using 5 ab by auto
    ultimately show ?thesis using 5
      by (simp add: encode_rune_def ascii_def seq2_def seq3_def seq4_def cont_def second_ok_def
          a_def [symmetric] b_def [symmetric])
  qed
qed

lemma valid_encode_rune: "valid_utf8 (encode_rune r)"
  using valid_rune [of "length (encode_rune r)" "encode_rune r" "[]"] rune_len_encode [of r] valid_Nil
  by (metis append_Nil2)

lemma valid_replacement: "valid_utf8 replacement"
  using valid_encode_rune [of 55296] by (simp add: encode_rune_def)

end
