(* ===== verification/Go_Strings.thy ===== *)
theory Go_Strings
  imports Go_Prelude
begin

text \<open>
  The parts of Go's \<open>strings\<close>, \<open>strconv\<close>, \<open>bufio\<close> and \<open>fmt\<close> the agent uses, on byte strings:
  prefixes and suffixes, \<open>TrimSpace\<close>, \<open>TrimRight\<close>, \<open>Cut\<close>, \<open>Split\<close>, decimal printing
  (\<open>%d\<close>, \<open>%020d\<close>) and \<open>ParseInt\<close>, with the order and injectivity facts on decimal numerals
  that give the queue's file names their FIFO order.
\<close>

subsection \<open>Prefixes, suffixes, cutting\<close>

definition has_prefix :: "string \<Rightarrow> string \<Rightarrow> bool" where
  "has_prefix s p \<longleftrightarrow> take (length p) s = p"

definition has_suffix :: "string \<Rightarrow> string \<Rightarrow> bool" where
  "has_suffix s p \<longleftrightarrow> length p \<le> length s \<and> drop (length s - length p) s = p"

lemma has_prefix_iff: "has_prefix s p \<longleftrightarrow> (\<exists>t. s = p @ t)"
  by (auto simp: has_prefix_def) (metis append_take_drop_id)

lemma has_suffix_iff: "has_suffix s p \<longleftrightarrow> (\<exists>t. s = t @ p)"
  by (auto simp: has_suffix_def) (metis append_take_drop_id)

lemma has_suffix_append [simp]: "has_suffix (t @ p) p"
  by (auto simp: has_suffix_iff)

text \<open>\<open>strings.Split(s, sep)\<close> for a one-byte separator: never empty.\<close>

fun split_on :: "char \<Rightarrow> string \<Rightarrow> string list" where
  "split_on c [] = [[]]"
| "split_on c (x # xs) =
     (if x = c then [] # split_on c xs
      else (case split_on c xs of [] \<Rightarrow> [[x]] | p # ps \<Rightarrow> (x # p) # ps))"

lemma split_on_nonempty [simp]: "split_on c s \<noteq> []"
  by (induction s) (auto split: list.splits)

lemma split_on_no_sep: "c \<notin> set s \<Longrightarrow> split_on c s = [s]"
  by (induction s) auto

lemma split_on_append: "split_on c (a @ c # b) = split_on c a @ split_on c b"
proof (induction a)
  case (Cons x a)
  then show ?case by (cases "split_on c a") auto
qed simp

lemma split_on_parts: "p \<in> set (split_on c s) \<Longrightarrow> c \<notin> set p"
  by (induction s arbitrary: p) (auto split: if_splits list.splits)

text \<open>\<open>strings.Cut(s, "=")\<close>: the parts around the first separator, if there is one.\<close>

definition cut :: "char \<Rightarrow> string \<Rightarrow> (string \<times> string) option" where
  "cut c s = (if c \<in> set s then Some (takeWhile (\<lambda>x. x \<noteq> c) s, tl (dropWhile (\<lambda>x. x \<noteq> c) s))
              else None)"

lemma cut_append:
  assumes "c \<notin> set k"
  shows "cut c (k @ c # v) = Some (k, v)"
proof -
  have "\<forall>x\<in>set k. x \<noteq> c" using assms by auto
  then have "takeWhile (\<lambda>x. x \<noteq> c) (k @ c # v) = k" "dropWhile (\<lambda>x. x \<noteq> c) (k @ c # v) = c # v"
    by (simp_all add: takeWhile_append_stop dropWhile_append_stop)
  then show ?thesis by (simp add: cut_def)
qed

text \<open>\<open>strings.Join\<close>.\<close>

fun join_with :: "string \<Rightarrow> string list \<Rightarrow> string" where
  "join_with sep [] = []"
| "join_with sep [x] = x"
| "join_with sep (x # y # ys) = x @ sep @ join_with sep (y # ys)"

lemma join_with_snoc: "xs \<noteq> [] \<Longrightarrow> join_with sep (xs @ [x]) = join_with sep xs @ sep @ x"
  by (induction sep xs rule: join_with.induct) auto

lemma join_with_hd: "cs \<noteq> [] \<Longrightarrow> hd cs \<noteq> [] \<Longrightarrow> join_with sep cs \<noteq> [] \<and> hd (join_with sep cs) = hd (hd cs)"
  by (induction sep cs rule: join_with.induct) auto

lemma split_on_join: "ps \<noteq> [] \<Longrightarrow> \<forall>p\<in>set ps. c \<notin> set p \<Longrightarrow> split_on c (join_with [c] ps) = ps"
  by (induction "[c]" ps rule: join_with.induct) (auto simp: split_on_no_sep split_on_append)

text \<open>\<open>strings.TrimRight(s, cutset)\<close> for a one-byte cutset.\<close>

definition trim_right_char :: "char \<Rightarrow> string \<Rightarrow> string" where
  "trim_right_char c s = rev (dropWhile (\<lambda>x. x = c) (rev s))"

lemma trim_right_char_idem [simp]: "trim_right_char c (trim_right_char c s) = trim_right_char c s"
  by (simp add: trim_right_char_def)

lemma trim_right_char_snoc [simp]: "trim_right_char c (s @ [c]) = trim_right_char c s"
  by (simp add: trim_right_char_def)

lemma trim_right_char_id: "s = [] \<or> last s \<noteq> c \<Longrightarrow> trim_right_char c s = s"
  by (cases s rule: rev_cases) (auto simp: trim_right_char_def)

lemma trim_right_char_not_last: "trim_right_char c s \<noteq> [] \<Longrightarrow> last (trim_right_char c s) \<noteq> c"
  using hd_dropWhile [of "\<lambda>x. x = c" "rev s"]
  by (simp add: trim_right_char_def last_rev)

subsection \<open>White space\<close>

text \<open>
  \<open>unicode.IsSpace\<close> as UTF-8: the six ASCII spaces, U+0085, U+00A0, U+1680, U+2000 to U+200A,
  U+2028, U+2029, U+202F, U+205F and U+3000.
\<close>

definition space_runes :: "string list" where
  "space_runes =
     map (\<lambda>b. [char_of (b::nat)]) [9, 10, 11, 12, 13, 32]
     @ map (map (char_of :: nat \<Rightarrow> char)) ([[194, 133], [194, 160], [225, 154, 128]]
        @ map (\<lambda>i. [226, 128, 128 + i]) [0..<11]
        @ [[226, 128, 168], [226, 128, 169], [226, 128, 175], [226, 129, 159], [227, 128, 128]])"

function trim_runes :: "string list \<Rightarrow> string \<Rightarrow> string" where
  "trim_runes rs s =
     (case find (\<lambda>r. r \<noteq> [] \<and> has_prefix s r) rs of
        None \<Rightarrow> s
      | Some r \<Rightarrow> trim_runes rs (drop (length r) s))"
  by pat_completeness auto
termination
  by (relation "measure (\<lambda>(rs, s). length s)")
    (auto simp: find_Some_iff has_prefix_iff)

declare trim_runes.simps [simp del]

text \<open>\<open>strings.TrimSpace\<close> and \<open>bytes.TrimSpace\<close>.\<close>

definition trim_space :: "string \<Rightarrow> string" where
  "trim_space s = rev (trim_runes (map rev space_runes) (rev (trim_runes space_runes s)))"

definition no_outer_space :: "string \<Rightarrow> bool" where
  "no_outer_space s \<longleftrightarrow> \<not> (\<exists>r\<in>set space_runes. has_prefix s r) \<and> \<not> (\<exists>r\<in>set space_runes. has_suffix s r)"

lemma trim_runes_id: "\<not> (\<exists>r\<in>set rs. has_prefix s r) \<Longrightarrow> trim_runes rs s = s"
  by (subst trim_runes.simps) (auto simp: find_None_iff split: option.splits dest!: find_Some_iff [THEN iffD1])

lemma has_prefix_rev: "has_prefix (rev s) (rev r) \<longleftrightarrow> has_suffix s r"
  by (auto simp: has_prefix_iff has_suffix_iff) (metis rev_append rev_rev_ident)+

lemma trim_space_id: "no_outer_space s \<Longrightarrow> trim_space s = s"
  by (simp add: trim_space_def no_outer_space_def trim_runes_id has_prefix_rev)

lemma trim_runes_no_prefix: "r \<in> set rs \<Longrightarrow> r \<noteq> [] \<Longrightarrow> \<not> has_prefix (trim_runes rs s) r"
proof (induction rs s rule: trim_runes.induct)
  case (1 rs s)
  show ?case
  proof (cases "find (\<lambda>r. r \<noteq> [] \<and> has_prefix s r) rs")
    case None
    then have "trim_runes rs s = s" by (subst trim_runes.simps) simp
    with None "1.prems" show ?thesis by (auto simp: find_None_iff)
  next
    case (Some a)
    with "1.IH" "1.prems" show ?thesis by (subst trim_runes.simps) simp
  qed
qed

subsection \<open>Reading with a limit\<close>

text \<open>\<open>io.LimitReader\<close>.  For evaluation, the limit is compared once.\<close>

definition read_limited :: "nat \<Rightarrow> bytes \<Rightarrow> bytes" where
  [simp]: "read_limited n b = take n b"

lemma read_limited_code [code]: "read_limited n b = (if length b \<le> n then b else take n b)"
  by simp

subsection \<open>Decimal numerals\<close>

definition digit_char :: "nat \<Rightarrow> char" where
  "digit_char d = char_of (48 + d)"

definition is_digit :: "char \<Rightarrow> bool" where
  "is_digit c \<longleftrightarrow> 48 \<le> (of_char c :: nat) \<and> (of_char c :: nat) \<le> 57"

definition digit_val :: "char \<Rightarrow> nat" where
  "digit_val c = of_char c - 48"

lemma digit_val_char [simp]: "d < 10 \<Longrightarrow> digit_val (digit_char d) = d"
  by (simp add: digit_val_def digit_char_def)

lemma is_digit_char [simp]: "d < 10 \<Longrightarrow> is_digit (digit_char d)"
  by (simp add: is_digit_def digit_char_def)

text \<open>\<open>strconv.Itoa\<close> on a natural number.\<close>

fun itoa :: "nat \<Rightarrow> string" where
  "itoa n = (if n < 10 then [digit_char n] else itoa (n div 10) @ [digit_char (n mod 10)])"

declare itoa.simps [simp del]

text \<open>For evaluation: the same on integers, whose numerals are values.\<close>

function itoa_int :: "int \<Rightarrow> string" where
  "itoa_int z = (if z < 10 then [char_of (48 + z)] else itoa_int (z div 10) @ [char_of (48 + z mod 10)])"
  by pat_completeness auto
termination
  by (relation "measure nat") auto

declare itoa_int.simps [simp del]

lemma itoa_code [code]: "itoa n = itoa_int (int n)"
proof (induction n rule: itoa.induct)
  case (1 n)
  have c: "char_of (48 + int k) = digit_char k" for k
    using char_of_nat [of "48 + k", where 'a = int] by (simp add: digit_char_def)
  have d: "int n div 10 = int (n div 10)" "int n mod 10 = int (n mod 10)" by (simp_all add: zdiv_int zmod_int)
  show ?case
  proof (cases "n < 10")
    case True
    then show ?thesis using c [of n] by (simp add: itoa.simps [of n] itoa_int.simps [of "int n"])
  next
    case False
    then have "itoa_int (int n) = itoa_int (int (n div 10)) @ [digit_char (n mod 10)]"
      using c [of "n mod 10"] d by (simp add: itoa_int.simps [of "int n"])
    then show ?thesis using 1 False by (simp add: itoa.simps [of n])
  qed
qed

definition dval :: "string \<Rightarrow> nat" where
  "dval s = foldl (\<lambda>a c. 10 * a + digit_val c) 0 s"

lemma dval_code [code]: "dval s = nat (foldl (\<lambda>a c. 10 * a + int (digit_val c)) 0 s)"
proof -
  have "foldl (\<lambda>a c. 10 * a + int (digit_val c)) (int n) s = int (foldl (\<lambda>a c. 10 * a + digit_val c) n s)" for n
  proof (induction s arbitrary: n)
    case (Cons c s)
    then show ?case using Cons [of "10 * n + digit_val c"] by simp
  qed simp
  from this [of 0] show ?thesis by (simp add: dval_def)
qed

lemma dval_Nil [simp]: "dval [] = 0" by (simp add: dval_def)
lemma dval_snoc [simp]: "dval (s @ [c]) = 10 * dval s + digit_val c" by (simp add: dval_def)

lemma itoa_nonempty [simp]: "itoa n \<noteq> []"
  by (subst itoa.simps) simp

lemma itoa_digits: "c \<in> set (itoa n) \<Longrightarrow> is_digit c"
proof (induction n rule: itoa.induct)
  case (1 n)
  show ?case
  proof (cases "n < 10")
    case True
    with "1.prems" show ?thesis by (simp add: itoa.simps [of n])
  next
    case False
    with 1 show ?thesis by (auto simp: itoa.simps [of n])
  qed
qed

lemma dval_itoa [simp]: "dval (itoa n) = n"
proof (induction n rule: itoa.induct)
  case (1 n)
  show ?case
  proof (cases "n < 10")
    case True
    then show ?thesis using dval_snoc [of "[]"] by (simp add: itoa.simps [of n])
  next
    case False
    with 1 show ?thesis by (simp add: itoa.simps [of n])
  qed
qed

lemma length_itoa_le: "n < 10 ^ k \<Longrightarrow> 0 < k \<Longrightarrow> length (itoa n) \<le> k"
proof (induction k arbitrary: n)
  case (Suc k)
  show ?case
  proof (cases "n < 10")
    case True
    then show ?thesis by (simp add: itoa.simps [of n])
  next
    case False
    then have "0 < k" using Suc.prems by (cases k) auto
    moreover have "n div 10 < 10 ^ k" using Suc.prems by (simp add: less_mult_imp_div_less mult.commute)
    ultimately have "length (itoa (n div 10)) \<le> k" using Suc.IH by blast
    with False show ?thesis by (simp add: itoa.simps [of n])
  qed
qed simp

text \<open>\<open>%0<w>d\<close>: zeros on the left up to width \<open>w\<close>, a minus sign counting as one column.\<close>

definition pad_zero :: "nat \<Rightarrow> nat \<Rightarrow> string" where
  "pad_zero w n = replicate (w - length (itoa n)) (digit_char 0) @ itoa n"

lemma pad_zero_code [code]: "pad_zero w n = (let s = itoa n in replicate (w - length s) (digit_char 0) @ s)"
  by (simp add: pad_zero_def Let_def)

definition fmt_0d :: "nat \<Rightarrow> int \<Rightarrow> string" where
  "fmt_0d w i = (if i < 0 then CHR ''-'' # pad_zero (w - 1) (nat (- i)) else pad_zero w (nat i))"

lemma dval_zeros: "dval (replicate k (digit_char 0) @ s) = dval s"
proof (induction s rule: rev_induct)
  case Nil
  show ?case
  proof (induction k)
    case (Suc k)
    then have "dval (replicate k (digit_char 0) @ [digit_char 0]) = 0"
      by (simp only: dval_snoc append_Nil2) simp
    then show ?case by (simp add: replicate_append_same)
  qed simp
next
  case (snoc c s)
  then show ?case by (simp only: append_assoc [symmetric] dval_snoc)
qed

lemma dval_pad_zero [simp]: "dval (pad_zero w n) = n"
  by (simp add: pad_zero_def dval_zeros)

lemma length_pad_zero: "n < 10 ^ w \<Longrightarrow> 0 < w \<Longrightarrow> length (pad_zero w n) = w"
  using length_itoa_le [of n w] by (simp add: pad_zero_def)

lemma pad_zero_digits: "c \<in> set (pad_zero w n) \<Longrightarrow> is_digit c"
  by (auto simp: pad_zero_def itoa_digits)

lemma of_char_digit: "is_digit c \<Longrightarrow> (of_char c :: nat) = 48 + digit_val c"
  by (simp add: is_digit_def digit_val_def)

lemma digit_less_iff: "is_digit c \<Longrightarrow> is_digit d \<Longrightarrow> c < d \<longleftrightarrow> digit_val c < digit_val d"
  by (simp add: less_char_def of_char_digit)

lemma dval_Cons: "dval (c # s) = digit_val c * 10 ^ length s + dval s"
proof (induction s rule: rev_induct)
  case Nil
  then show ?case by (simp add: dval_def)
next
  case (snoc d s)
  then show ?case by (simp only: append_Cons [symmetric] dval_snoc) (simp add: algebra_simps)
qed

lemma dval_less: "\<forall>c\<in>set s. is_digit c \<Longrightarrow> dval s < 10 ^ length s"
proof (induction s)
  case (Cons c s)
  have "digit_val c \<le> 9" using Cons.prems by (auto simp: is_digit_def digit_val_def)
  then have "digit_val c * 10 ^ length s \<le> 9 * 10 ^ length s" by simp
  moreover have "dval s < 10 ^ length s" using Cons by simp
  ultimately have "digit_val c * 10 ^ length s + dval s < 10 * 10 ^ length s" by linarith
  then show ?case by (simp add: dval_Cons)
qed simp

text \<open>Equally long digit strings compare lexicographically as the numbers they denote.\<close>

lemma digits_lex_less:
  assumes "length a = length b" and "\<forall>c\<in>set a. is_digit c" and "\<forall>c\<in>set b. is_digit c"
  shows "a < b \<longleftrightarrow> dval a < dval b"
  using assms
proof (induction a b rule: list_induct2)
  case (Cons x xs y ys)
  have bounds: "dval xs < 10 ^ length xs" "dval ys < 10 ^ length ys"
    using Cons.prems by (auto intro: dval_less)
  have step: "digit_val u < digit_val v \<Longrightarrow>
      digit_val u * 10 ^ length xs + a < digit_val v * 10 ^ length xs + b" if "a < 10 ^ length xs"
    for u v a b
  proof -
    assume "digit_val u < digit_val v"
    then have "(Suc (digit_val u)) * 10 ^ length xs \<le> digit_val v * 10 ^ length xs"
      by (intro mult_le_mono1) simp
    with that show ?thesis by simp
  qed
  have xy: "digit_val x = digit_val y \<longleftrightarrow> x = y"
    using Cons.prems of_char_digit by (metis list.set_intros(1) of_char_eq_iff)
  show ?case
  proof (cases "digit_val x" "digit_val y" rule: linorder_cases)
    case less
    then have "x < y" using Cons.prems by (simp add: digit_less_iff)
    moreover have "dval (x # xs) < dval (y # ys)"
      using step [OF bounds(1) less] Cons.hyps by (simp add: dval_Cons)
    ultimately show ?thesis by simp
  next
    case equal
    then show ?thesis using Cons xy by (simp add: dval_Cons)
  next
    case greater
    then have "y < x" using Cons.prems by (simp add: digit_less_iff)
    moreover have "dval (y # ys) < dval (x # xs)"
      using step [OF _ greater, of "dval ys" "dval xs"] bounds(2) Cons.hyps by (simp add: dval_Cons)
    ultimately show ?thesis by (simp add: less_le_not_le)
  qed
qed simp

lemma pad_zero_less_iff:
  assumes "m < 10 ^ w" "n < 10 ^ w" "0 < w"
  shows "pad_zero w m < pad_zero w n \<longleftrightarrow> m < n"
  using digits_lex_less [of "pad_zero w m" "pad_zero w n"] assms
  by (auto simp: length_pad_zero pad_zero_digits)

lemma lex_less_append_same_length:
  fixes a b x y :: "'a::linorder list"
  assumes "length a = length b"
  shows "a @ x < b @ y \<longleftrightarrow> a < b \<or> a = b \<and> x < y"
  using assms by (induction a b rule: list_induct2) auto

subsection \<open>Parsing integers\<close>

text \<open>\<open>strconv.ParseInt(s, 10, 64)\<close>: an optional sign, at least one digit, the 64-bit range.\<close>

definition parse_int64 :: "string \<Rightarrow> int option" where
  "parse_int64 s =
     (let neg = (s \<noteq> [] \<and> hd s = CHR ''-'');
          ds = (if s \<noteq> [] \<and> (hd s = CHR ''-'' \<or> hd s = CHR ''+'') then tl s else s);
          v = (if neg then - int (dval ds) else int (dval ds))
      in if ds = [] \<or> \<not> list_all is_digit ds then None
         else if - (2 ^ 63) \<le> v \<and> v < 2 ^ 63 then Some v else None)"

lemma parse_int64_range: "parse_int64 s = Some v \<Longrightarrow> - (2 ^ 63) \<le> v \<and> v < 2 ^ 63"
  by (auto simp: parse_int64_def Let_def split: if_splits)

lemma parse_int64_itoa:
  assumes "int n < 2 ^ 63"
  shows "parse_int64 (itoa n) = Some (int n)"
proof -
  have dig: "list_all is_digit (itoa n)" by (simp add: list_all_iff itoa_digits)
  then have "is_digit (hd (itoa n))" by (simp add: list_all_iff)
  then have "hd (itoa n) \<noteq> CHR ''-''" "hd (itoa n) \<noteq> CHR ''+''"
    by (auto simp: is_digit_def)
  with dig assms show ?thesis by (simp add: parse_int64_def Let_def)
qed

end
