(* ===== verification/Go_Json.thy ===== *)
theory Go_Json
  imports Go_Utf8 Go_Strings "HOL-Library.Monad_Syntax"
begin

text \<open>
  Package \<open>encoding/json\<close> as the agent uses it: the compact printer with its HTML-safe escapes
  and its replacement of malformed UTF-8, and the reader for RFC 8259 texts.  A text is read into
  a tree that keeps the members of an object in source order, duplicates included; what a Go map
  or struct makes of them is \<open>go_map\<close> here and the decoders of the component theories.

  Numbers keep their literal (Go turns them into \<open>float64\<close>; no code modelled here looks into a
  number), the nesting limit of 10000 is not modelled, and struct keys match case-insensitively on
  ASCII letters.
\<close>

datatype json =
  JNull
| JBool bool
| JNum string
| JStr string
| JArr "json list"
| JObj "(string \<times> json) list"

abbreviation dquote :: char where "dquote \<equiv> CHR 0x22"
abbreviation backslash :: char where "backslash \<equiv> CHR 0x5C"

subsection \<open>Printing\<close>

definition hex_digit :: "nat \<Rightarrow> char" where
  "hex_digit d = (if d < 10 then char_of (48 + d) else char_of (87 + d))"

definition esc_u :: "nat \<Rightarrow> string" where
  "esc_u n = [backslash, CHR ''u'', hex_digit (n div 4096 mod 16), hex_digit (n div 256 mod 16),
     hex_digit (n div 16 mod 16), hex_digit (n mod 16)]"

definition esc_char :: "char \<Rightarrow> string" where
  "esc_char c =
     (let b = byte c in
      if b = 34 \<or> b = 92 then [backslash, c]
      else if b = 8 then [backslash, CHR ''b'']
      else if b = 12 then [backslash, CHR ''f'']
      else if b = 10 then [backslash, CHR ''n'']
      else if b = 13 then [backslash, CHR ''r'']
      else if b = 9 then [backslash, CHR ''t'']
      else if b < 32 \<or> b = 60 \<or> b = 62 \<or> b = 38 then esc_u b
      else [c])"

definition esc_seq :: "string \<Rightarrow> string" where
  "esc_seq s = (if s = encode_rune 8232 then esc_u 8232 else if s = encode_rune 8233 then esc_u 8233 else s)"

function quote_body :: "string \<Rightarrow> string" where
  "quote_body s =
     (if s = [] then []
      else if rune_len s = 0 then esc_u 65533 @ quote_body (tl s)
      else if rune_len s = 1 then esc_char (hd s) @ quote_body (tl s)
      else esc_seq (take (rune_len s) s) @ quote_body (drop (rune_len s) s))"
  by pat_completeness auto
termination
  by (relation "measure length") auto

declare quote_body.simps [simp del]

definition quote :: "string \<Rightarrow> string" where
  "quote s = dquote # quote_body s @ [dquote]"

definition print_member :: "string \<times> string \<Rightarrow> string" where
  "print_member kv = quote (fst kv) @ '':'' @ snd kv"

primrec print_json :: "json \<Rightarrow> string" where
  "print_json JNull = ''null''"
| "print_json (JBool b) = (if b then ''true'' else ''false'')"
| "print_json (JNum t) = t"
| "print_json (JStr s) = quote s"
| "print_json (JArr js) = ''['' @ join_with '','' (map print_json js) @ '']''"
| "print_json (JObj ms) = ''{'' @ join_with '','' (map print_member (map (map_prod id print_json) ms)) @ ''}''"

subsection \<open>Reading\<close>

definition is_ws :: "char \<Rightarrow> bool" where
  "is_ws c \<longleftrightarrow> byte c \<in> {32, 9, 10, 13}"

definition skip_ws :: "string \<Rightarrow> string" where
  "skip_ws s = dropWhile is_ws s"

definition hex_val :: "char \<Rightarrow> nat option" where
  "hex_val c =
     (let b = byte c in
      if 48 \<le> b \<and> b \<le> 57 then Some (b - 48)
      else if 97 \<le> b \<and> b \<le> 102 then Some (b - 87)
      else if 65 \<le> b \<and> b \<le> 70 then Some (b - 55) else None)"

definition hex4 :: "string \<Rightarrow> (nat \<times> string) option" where
  "hex4 s =
     (case s of
        a # b # c # d # r \<Rightarrow> do {
          a \<leftarrow> hex_val a; b \<leftarrow> hex_val b; c \<leftarrow> hex_val c; d \<leftarrow> hex_val d;
          Some (a * 4096 + b * 256 + c * 16 + d, r) }
      | _ \<Rightarrow> None)"

text \<open>A \<open>\u\<close> escape; a surrogate pair is one code point, a lone surrogate U+FFFD.\<close>

definition low_half :: "string \<Rightarrow> (nat \<times> string) option" where
  "low_half s =
     (case s of
        b # u # r \<Rightarrow>
          if b = backslash \<and> u = CHR ''u'' then
            (case hex4 r of Some (v, r') \<Rightarrow> if 56320 \<le> v \<and> v < 57344 then Some (v, r') else None | None \<Rightarrow> None)
          else None
      | _ \<Rightarrow> None)"

definition unescape_u :: "nat \<Rightarrow> string \<Rightarrow> string \<times> string" where
  "unescape_u v r =
     (if 55296 \<le> v \<and> v < 56320 then
        (case low_half r of
           Some (l, r') \<Rightarrow> (encode_rune (65536 + (v - 55296) * 1024 + (l - 56320)), r')
         | None \<Rightarrow> (replacement, r))
      else (encode_rune v, r))"

definition unescape :: "char \<Rightarrow> nat option" where
  "unescape e =
     (let b = byte e in
      if b = 34 \<or> b = 92 \<or> b = 47 then Some b
      else if b = 98 then Some 8 else if b = 102 then Some 12 else if b = 110 then Some 10
      else if b = 114 then Some 13 else if b = 116 then Some 9 else None)"

text \<open>One decoded piece of a string literal and the rest of the text.\<close>

definition str_step :: "string \<Rightarrow> (string \<times> string) option" where
  "str_step s =
     (case s of
        [] \<Rightarrow> None
      | c # r \<Rightarrow>
          if c = backslash then
            (case r of
               [] \<Rightarrow> None
             | e # r' \<Rightarrow>
                 if e = CHR ''u'' then map_option (\<lambda>(v, r''). unescape_u v r'') (hex4 r')
                 else map_option (\<lambda>b. ([char_of b], r')) (unescape e))
          else if byte c < 32 then None
          else if rune_len s = 0 then Some (replacement, r)
          else Some (take (rune_len s) s, drop (rune_len s) s))"

lemma hex4_length: "hex4 s = Some (v, r) \<Longrightarrow> length r < length s"
  by (auto simp: hex4_def split: list.splits bind_splits)

lemma low_half_length: "low_half s = Some (v, r) \<Longrightarrow> length r < length s"
  by (auto simp: low_half_def split: list.splits if_splits option.splits dest!: hex4_length)

lemma unescape_u_length: "unescape_u v r = (p, r') \<Longrightarrow> length r' \<le> length r"
  by (auto simp: unescape_u_def split: if_splits option.splits dest!: low_half_length)

lemma str_step_length: "str_step s = Some (p, r) \<Longrightarrow> length r < length s"
  by (auto simp: str_step_def split: list.splits if_splits dest!: hex4_length unescape_u_length)

function parse_str :: "string \<Rightarrow> (string \<times> string) option" where
  "parse_str s =
     (if s \<noteq> [] \<and> hd s = dquote then Some ([], tl s)
      else case str_step s of
          None \<Rightarrow> None
        | Some (p, r) \<Rightarrow> map_option (\<lambda>(q, r'). (p @ q, r')) (parse_str r))"
  by pat_completeness auto
termination
  by (relation "measure length") (auto dest: str_step_length)

declare parse_str.simps [simp del]

definition parse_digits :: "string \<Rightarrow> (string \<times> string) option" where
  "parse_digits s = (if takeWhile is_digit s = [] then None else Some (takeWhile is_digit s, dropWhile is_digit s))"

definition parse_int_part :: "string \<Rightarrow> (string \<times> string) option" where
  "parse_int_part s =
     (case s of c # r \<Rightarrow> if c = CHR ''0'' then Some ([c], r) else parse_digits s | [] \<Rightarrow> None)"

definition parse_frac_part :: "string \<Rightarrow> (string \<times> string) option" where
  "parse_frac_part s =
     (case s of
        c # r \<Rightarrow> if c = CHR ''.'' then map_option (\<lambda>(d, r'). (c # d, r')) (parse_digits r) else Some ([], s)
      | [] \<Rightarrow> Some ([], s))"

definition parse_exp_part :: "string \<Rightarrow> (string \<times> string) option" where
  "parse_exp_part s =
     (case s of
        c # r \<Rightarrow>
          if c = CHR ''e'' \<or> c = CHR ''E'' then
            (let sg = takeWhile (\<lambda>x. x = CHR ''+'' \<or> x = CHR ''-'') (take 1 r)
             in map_option (\<lambda>(d, r'). (c # sg @ d, r')) (parse_digits (drop (length sg) r)))
          else Some ([], s)
      | [] \<Rightarrow> Some ([], s))"

definition parse_num :: "string \<Rightarrow> (string \<times> string) option" where
  "parse_num s =
     (let sg = takeWhile (\<lambda>x. x = CHR ''-'') (take 1 s) in do {
        (i, r) \<leftarrow> parse_int_part (drop (length sg) s);
        (f, r) \<leftarrow> parse_frac_part r;
        (e, r) \<leftarrow> parse_exp_part r;
        Some (sg @ i @ f @ e, r) })"

definition literal :: "string \<Rightarrow> json \<Rightarrow> string \<Rightarrow> (json \<times> string) option" where
  "literal w j s = (if has_prefix s w then Some (j, drop (length w) s) else None)"

fun parse_value :: "nat \<Rightarrow> string \<Rightarrow> (json \<times> string) option"
  and parse_elems :: "nat \<Rightarrow> string \<Rightarrow> (json list \<times> string) option"
  and parse_members :: "nat \<Rightarrow> string \<Rightarrow> ((string \<times> json) list \<times> string) option"
where
  "parse_value 0 s = None"
| "parse_value (Suc n) s =
     (case skip_ws s of
        [] \<Rightarrow> None
      | c # r \<Rightarrow>
          if c = CHR ''{'' then
            (if skip_ws r \<noteq> [] \<and> hd (skip_ws r) = CHR ''}'' then Some (JObj [], tl (skip_ws r))
             else map_option (\<lambda>(ms, r'). (JObj ms, r')) (parse_members n r))
          else if c = CHR ''['' then
            (if skip_ws r \<noteq> [] \<and> hd (skip_ws r) = CHR '']'' then Some (JArr [], tl (skip_ws r))
             else map_option (\<lambda>(js, r'). (JArr js, r')) (parse_elems n r))
          else if c = dquote then map_option (\<lambda>(t, r'). (JStr t, r')) (parse_str r)
          else if c = CHR ''n'' then literal ''null'' JNull (c # r)
          else if c = CHR ''t'' then literal ''true'' (JBool True) (c # r)
          else if c = CHR ''f'' then literal ''false'' (JBool False) (c # r)
          else map_option (\<lambda>(t, r'). (JNum t, r')) (parse_num (c # r)))"
| "parse_elems 0 s = None"
| "parse_elems (Suc n) s =
     (case parse_value n s of
        None \<Rightarrow> None
      | Some (j, r) \<Rightarrow>
          (case skip_ws r of
             [] \<Rightarrow> None
           | c # r' \<Rightarrow>
               if c = CHR '']'' then Some ([j], r')
               else if c = CHR '','' then map_option (\<lambda>(js, r''). (j # js, r'')) (parse_elems n r')
               else None))"
| "parse_members 0 s = None"
| "parse_members (Suc n) s =
     (case skip_ws s of
        [] \<Rightarrow> None
      | q # r \<Rightarrow>
          if q \<noteq> dquote then None
          else case parse_str r of
              None \<Rightarrow> None
            | Some (k, r) \<Rightarrow>
                (case skip_ws r of
                   [] \<Rightarrow> None
                 | d # r \<Rightarrow>
                     if d \<noteq> CHR '':'' then None
                     else case parse_value n r of
                         None \<Rightarrow> None
                       | Some (v, r) \<Rightarrow>
                           (case skip_ws r of
                              [] \<Rightarrow> None
                            | c # r' \<Rightarrow>
                                if c = CHR ''}'' then Some ([(k, v)], r')
                                else if c = CHR '','' then
                                  map_option (\<lambda>(ms, r''). ((k, v) # ms, r'')) (parse_members n r')
                                else None)))"

text \<open>
  \<open>json.Unmarshal\<close> reads the whole text; a \<open>json.Decoder\<close> its first value, and after one that is no
  object or array insists on white space or the end of the text.  The fuel is enough for every text:
  \<open>parse_fuel_enough\<close>.  (Go gives up on values nested more than 10000 deep; the model does not.)
\<close>

definition self_delimiting :: "json \<Rightarrow> bool" where
  "self_delimiting j = (case j of JObj _ \<Rightarrow> True | JArr _ \<Rightarrow> True | _ \<Rightarrow> False)"

definition json_first :: "string \<Rightarrow> json option" where
  "json_first s =
     (case parse_value (2 * length s + 1) s of
        None \<Rightarrow> None
      | Some (j, r) \<Rightarrow> if self_delimiting j \<or> r = [] \<or> is_ws (hd r) then Some j else None)"

lemma json_first_value:
  "parse_value (2 * length s + 1) s = Some (JObj ms, r) \<Longrightarrow> json_first s = Some (JObj ms)"
  by (simp add: json_first_def self_delimiting_def)

definition json_parse :: "string \<Rightarrow> json option" where
  "json_parse s =
     (case parse_value (2 * length s + 1) s of
        None \<Rightarrow> None
      | Some (j, r) \<Rightarrow> if skip_ws r = [] then Some j else None)"

text \<open>For evaluation: the fuel as a numeral.\<close>

lemma json_code [code]:
  "json_first s =
     (case parse_value (nat (2 * int (length s) + 1)) s of
        None \<Rightarrow> None
      | Some (j, r) \<Rightarrow> if self_delimiting j \<or> r = [] \<or> is_ws (hd r) then Some j else None)"
  "json_parse s =
     (case parse_value (nat (2 * int (length s) + 1)) s of
        None \<Rightarrow> None
      | Some (j, r) \<Rightarrow> if skip_ws r = [] then Some j else None)"
proof -
  have "nat (2 * int (length s) + 1) = 2 * length s + 1" by linarith
  then show "json_first s =
     (case parse_value (nat (2 * int (length s) + 1)) s of
        None \<Rightarrow> None
      | Some (j, r) \<Rightarrow> if self_delimiting j \<or> r = [] \<or> is_ws (hd r) then Some j else None)"
  "json_parse s =
     (case parse_value (nat (2 * int (length s) + 1)) s of
        None \<Rightarrow> None
      | Some (j, r) \<Rightarrow> if skip_ws r = [] then Some j else None)"
    by (simp_all only: json_first_def json_parse_def)
qed

subsection \<open>The fuel is enough\<close>

lemma skip_ws_length: "length (skip_ws s) \<le> length s"
  by (simp add: skip_ws_def length_dropWhile_le)

lemma skip_ws_Cons: "skip_ws s = c # r \<Longrightarrow> length r < length s"
  using skip_ws_length [of s] by simp

lemma parse_str_length: "parse_str s = Some (t, r) \<Longrightarrow> length r < length s"
proof (induction s arbitrary: t r rule: parse_str.induct)
  case (1 s)
  show ?case
  proof (cases "s \<noteq> [] \<and> hd s = dquote")
    case True
    with "1.prems" show ?thesis by (auto simp: parse_str.simps [of s])
  next
    case False
    with "1.prems" obtain p r' q where st: "str_step s = Some (p, r')" and rec: "parse_str r' = Some (q, r)"
      by (auto simp: parse_str.simps [of s] split: if_splits option.splits)
    have "length r < length r'" using "1.IH" [OF False st refl rec] .
    with str_step_length [OF st] show ?thesis by simp
  qed
qed

lemma parse_num_length:
  assumes "parse_num s = Some (t, r)"
  shows "length r < length s"
proof -
  have digits: "length b < length a" if "parse_digits a = Some (d, b)" for a b d
  proof -
    have "takeWhile is_digit a \<noteq> []" and b: "b = dropWhile is_digit a"
      using that by (auto simp: parse_digits_def split: if_splits)
    moreover have "length (takeWhile is_digit a) + length (dropWhile is_digit a) = length a"
      by (metis length_append takeWhile_dropWhile_id)
    ultimately show ?thesis by (cases "takeWhile is_digit a") auto
  qed
  have ip: "length b < length a" if "parse_int_part a = Some (d, b)" for a b d
    using that by (auto simp: parse_int_part_def split: list.splits if_splits dest!: digits)
  have fp: "length b \<le> length a" if "parse_frac_part a = Some (d, b)" for a b d
    using that by (auto simp: parse_frac_part_def split: list.splits if_splits dest!: digits)
  have ep: "length b \<le> length a" if "parse_exp_part a = Some (d, b)" for a b d
    using that by (auto simp: parse_exp_part_def Let_def split: list.splits if_splits dest!: digits)
  show ?thesis
    using assms by (auto simp: parse_num_def Let_def split: bind_splits dest!: ip fp ep) linarith
qed

lemma literal_length: "literal w j s = Some (j', r) \<Longrightarrow> w \<noteq> [] \<Longrightarrow> length r < length s"
  by (auto simp: literal_def has_prefix_iff split: if_splits)

lemma parse_length:
  "parse_value n s = Some (j, r) \<Longrightarrow> length r < length s"
  "parse_elems n s = Some (js, r) \<Longrightarrow> length r < length s"
  "parse_members n s = Some (ms, r) \<Longrightarrow> length r < length s"
proof (induction n s and n s and n s arbitrary: j r and js r and ms r
    rule: parse_value_parse_elems_parse_members.induct)
  case (2 n s)
  then obtain c t where t: "skip_ws s = c # t" by (auto split: list.splits)
  have "length (skip_ws t) \<le> length t" by (rule skip_ws_length)
  with 2 t skip_ws_Cons [OF t] show ?case
    by (fastforce split: if_splits dest!: parse_str_length parse_num_length literal_length)
next
  case (4 n s)
  then show ?case
    by (fastforce split: option.splits list.splits if_splits prod.splits dest!: skip_ws_Cons)
next
  case (6 n s)
  then show ?case
    by (fastforce split: option.splits list.splits if_splits prod.splits
        dest!: skip_ws_Cons parse_str_length)
qed simp_all

lemma parse_fuel_enough:
  "2 * length s < n \<Longrightarrow> 2 * length s < m \<Longrightarrow> parse_value n s = parse_value m s"
  "2 * length s + 1 < n \<Longrightarrow> 2 * length s + 1 < m \<Longrightarrow> parse_elems n s = parse_elems m s"
  "2 * length s + 1 < n \<Longrightarrow> 2 * length s + 1 < m \<Longrightarrow> parse_members n s = parse_members m s"
proof (induction n s and n s and n s arbitrary: m and m and m
    rule: parse_value_parse_elems_parse_members.induct)
  case (2 n s)
  from "2.prems" obtain k where m: "m = Suc k" by (cases m) auto
  show ?case
  proof (cases "skip_ws s")
    case (Cons c r)
    then have "length r < length s" by (rule skip_ws_Cons)
    then have len: "2 * length r + 1 < n" "2 * length r + 1 < k" using "2.prems" m by auto
    have "parse_members n r = parse_members k r"
      if "c = CHR ''{''" "\<not> (skip_ws r \<noteq> [] \<and> hd (skip_ws r) = CHR ''}'')"
      using "2.IH"(1) [OF Cons that len] .
    moreover have "parse_elems n r = parse_elems k r"
      if "c \<noteq> CHR ''{''" "c = CHR ''[''" "\<not> (skip_ws r \<noteq> [] \<and> hd (skip_ws r) = CHR '']'')"
      using "2.IH"(2) [OF Cons that len] .
    ultimately show ?thesis by (simp add: m Cons)
  qed (simp add: m)
next
  case (4 n s)
  from "4.prems" obtain k where m: "m = Suc k" by (cases m) auto
  have v: "parse_value n s = parse_value k s" by (rule "4.IH"(1)) (use "4.prems" m in simp_all)
  show ?case
  proof (cases "parse_value n s")
    case (Some jr)
    obtain j r where jr: "jr = (j, r)" by force
    have len: "length r < length s" using parse_length(1) Some jr by blast
    show ?thesis
    proof (cases "skip_ws r")
      case (Cons c r')
      then have "length r' < length r" by (rule skip_ws_Cons)
      then have len2: "2 * length r' + 1 < n" "2 * length r' + 1 < k" using "4.prems" len m by auto
      have "parse_elems n r' = parse_elems k r'" if "c \<noteq> CHR '']''" "c = CHR '',''"
        using "4.IH"(2) [OF Some jr [symmetric] Cons that len2] .
      with Some jr Cons m v show ?thesis by simp
    qed (use Some jr m v in simp)
  qed (use m v in simp)
next
  case (6 n s)
  from "6.prems" obtain k where m: "m = Suc k" by (cases m) auto
  show ?case
  proof (cases "skip_ws s")
    case (Cons q r)
    note l0 = skip_ws_Cons [OF Cons]
    show ?thesis
    proof (cases "q = dquote")
      case q: True
      show ?thesis
      proof (cases "parse_str r")
        case (Some kr)
        obtain key r1 where kr: "kr = (key, r1)" by force
        have l1: "length r1 < length r" using parse_str_length Some kr by blast
        show ?thesis
        proof (cases "skip_ws r1")
          case c1: (Cons d r2)
          note l2 = skip_ws_Cons [OF c1]
          show ?thesis
          proof (cases "d = CHR '':''")
            case d: True
            have "2 * length r2 < n" "2 * length r2 < k" using "6.prems" l0 l1 l2 m by auto
            then have v: "parse_value n r2 = parse_value k r2"
              by (intro "6.IH"(1) [OF Cons _ Some kr [symmetric] c1]) (simp_all add: q d)
            show ?thesis
            proof (cases "parse_value n r2")
              case s2: (Some vr)
              obtain x r3 where vr: "vr = (x, r3)" by force
              have l3: "length r3 < length r2" using parse_length(1) s2 vr by blast
              show ?thesis
              proof (cases "skip_ws r3")
                case c3: (Cons c r4)
                note l4 = skip_ws_Cons [OF c3]
                have "2 * length r4 + 1 < n" "2 * length r4 + 1 < k"
                  using "6.prems" l0 l1 l2 l3 l4 m by auto
                then have "c \<noteq> CHR ''}'' \<Longrightarrow> c = CHR '','' \<Longrightarrow> parse_members n r4 = parse_members k r4"
                  by (intro "6.IH"(2) [OF Cons _ Some kr [symmetric] c1 _ s2 vr [symmetric] c3])
                    (simp_all add: q d)
                with Cons q Some kr c1 d s2 vr c3 v [symmetric] m show ?thesis by simp
              qed (use Cons q Some kr c1 d s2 vr v [symmetric] m in simp)
            qed (use Cons q Some kr c1 d v [symmetric] m in simp)
          qed (use Cons q Some kr c1 m in simp_all)
        qed (use Cons q Some kr m in simp)
      qed (use Cons q m in simp)
    qed (use Cons m in simp)
  qed (use m in simp)
qed simp_all

end
