(* ===== verification/Go_Json_Roundtrip.thy ===== *)
theory Go_Json_Roundtrip
  imports Go_Json
begin

text \<open>
  The two directions of \<open>encoding/json\<close> agree: every string the reader returns is well-formed
  UTF-8, and a well-formed tree (well-formed strings, integer literals) that is printed reads back
  as the same tree, whatever follows it.
\<close>

subsection \<open>Strings\<close>

lemma hex_val_digit: "d < 16 \<Longrightarrow> hex_val (hex_digit d) = Some d"
  by (auto simp: hex_val_def hex_digit_def Let_def)

lemma hex4_esc:
  assumes "n < 65536"
  shows "hex4 (hex_digit (n div 4096 mod 16) # hex_digit (n div 256 mod 16) # hex_digit (n div 16 mod 16)
     # hex_digit (n mod 16) # r) = Some (n, r)"
proof -
  have "n div 4096 mod 16 = n div 4096" using assms by (intro mod_less) (simp add: less_mult_imp_div_less)
  moreover have "n div 256 = n div 4096 * 16 + n div 256 mod 16"
    using div_mult_mod_eq [of "n div 256" 16] by (simp add: div_mult2_eq [symmetric])
  moreover have "n div 16 = n div 256 * 16 + n div 16 mod 16"
    using div_mult_mod_eq [of "n div 16" 16] by (simp add: div_mult2_eq [symmetric])
  moreover have "n = n div 16 * 16 + n mod 16" by simp
  ultimately have "n div 4096 mod 16 * 4096 + n div 256 mod 16 * 256 + n div 16 mod 16 * 16 + n mod 16 = n"
    by linarith
  moreover define a b c d where "a = n div 4096 mod 16" and "b = n div 256 mod 16"
    and "c = n div 16 mod 16" and "d = n mod 16"
  ultimately have "a * 4096 + b * 256 + c * 16 + d = n" by simp
  moreover have "a < 16" "b < 16" "c < 16" "d < 16" by (simp_all add: a_def b_def c_def d_def)
  ultimately show ?thesis
    unfolding a_def [symmetric] b_def [symmetric] c_def [symmetric] d_def [symmetric]
    by (simp add: hex4_def hex_val_digit)
qed

lemma backslash_neq [simp]: "backslash \<noteq> CHR ''u''" "dquote \<noteq> backslash" "backslash \<noteq> dquote"
  by simp_all

lemma str_step_esc_u:
  assumes "n < 55296"
  shows "str_step (esc_u n @ r) = Some (encode_rune n, r)"
proof -
  have "hex4 (hex_digit (n div 4096 mod 16) # hex_digit (n div 256 mod 16) # hex_digit (n div 16 mod 16)
     # hex_digit (n mod 16) # r) = Some (n, r)" using assms by (intro hex4_esc) simp
  then show ?thesis using assms by (simp add: str_step_def esc_u_def unescape_u_def)
qed

lemma char_of_byte: "byte c = n \<Longrightarrow> c = char_of n"
  by (metis char_of_char)

lemma str_step_plain:
  assumes "c \<noteq> backslash" and "32 \<le> byte c" and "ascii c"
  shows "str_step (c # r) = Some ([c], r)"
  using assms by (simp add: str_step_def rune_len_ascii [unfolded One_nat_def])

lemma str_step_short:
  assumes "unescape e = Some b" and "e \<noteq> CHR ''u''"
  shows "str_step (backslash # e # r) = Some ([char_of b], r)"
  using assms by (simp add: str_step_def)

lemma str_step_esc_char:
  assumes "ascii c"
  shows "str_step (esc_char c @ r) = Some ([c], r)"
proof -
  define b where "b = byte c"
  have c: "c = char_of b" by (simp add: b_def)
  have lt: "b < 128" using assms by (simp add: ascii_def b_def)
  consider "b = 34 \<or> b = 92" | "b = 8" | "b = 12" | "b = 10" | "b = 13" | "b = 9"
    | "b \<notin> {34, 92, 8, 12, 10, 13, 9}" "b < 32 \<or> b = 60 \<or> b = 62 \<or> b = 38"
    | "b \<noteq> 92" "b \<noteq> 34" "32 \<le> b" "\<not> (b = 60 \<or> b = 62 \<or> b = 38)"
    by fastforce
  then show ?thesis
  proof cases
    case 1
    then have e: "esc_char c = [backslash, c]" by (simp add: esc_char_def Let_def b_def)
    have "unescape c = Some b" "c \<noteq> CHR ''u''"
      using 1 by (auto simp: unescape_def Let_def b_def)
    then show ?thesis using e c by (simp add: str_step_short)
  next
    case 7
    then have "esc_char c = esc_u b" by (auto simp: esc_char_def Let_def b_def)
    then show ?thesis using lt c by (simp add: str_step_esc_u encode_rune_def)
  next
    case 8
    then have "esc_char c = [c]" by (auto simp: esc_char_def Let_def b_def)
    moreover have "c \<noteq> backslash" using 8 lt by (auto simp: b_def)
    ultimately show ?thesis using 8 assms by (simp add: str_step_plain b_def)
  qed (simp_all add: esc_char_def Let_def b_def [symmetric] c str_step_short unescape_def)
qed

lemma str_step_seq:
  assumes "1 < rune_len s"
  shows "str_step (take (rune_len s) s @ r) = Some (take (rune_len s) s, r)"
proof -
  let ?n = "rune_len s"
  have len: "length (take ?n s) = ?n" using rune_len_le [of s] by simp
  obtain c t where ct: "take ?n s = c # t" using assms len by (cases "take ?n s") auto
  have "\<not> ascii c" using rune_len_high [OF assms] ct by auto
  then have "c \<noteq> backslash" "32 \<le> byte c" by (auto simp: ascii_def)
  moreover have "rune_len (take ?n s @ r) = ?n" using assms by (simp add: rune_len_take)
  moreover have n: "?n = Suc (length t)" using len ct by simp
  ultimately have "str_step ((c # t) @ r) = Some (c # t, r)" using ct by (simp add: str_step_def)
  then show ?thesis by (simp only: ct)
qed

lemma str_step_esc_seq:
  assumes "1 < rune_len s"
  shows "str_step (esc_seq (take (rune_len s) s) @ r) = Some (take (rune_len s) s, r)"
  using str_step_seq [OF assms] by (simp add: esc_seq_def str_step_esc_u)

lemma parse_str_step:
  assumes "str_step (p @ s) = Some (q, s)" and "p \<noteq> []" "hd p \<noteq> dquote"
  shows "parse_str (p @ s) = map_option (\<lambda>(t, r). (q @ t, r)) (parse_str s)"
  using assms by (simp add: parse_str.simps [of "p @ s"])

lemma esc_u_head: "esc_u n \<noteq> [] \<and> hd (esc_u n) = backslash"
  by (simp add: esc_u_def)

lemma esc_char_head: "esc_char c \<noteq> [] \<and> hd (esc_char c) \<noteq> dquote"
proof (cases "c = dquote")
  case True
  then show ?thesis by (simp add: esc_char_def)
next
  case False
  moreover have "esc_char c = [c] \<or> hd (esc_char c) = backslash \<and> esc_char c \<noteq> []"
    unfolding esc_char_def Let_def using esc_u_head by (simp split: if_split)
  ultimately show ?thesis by auto
qed

lemma esc_seq_head: "1 < rune_len s \<Longrightarrow> esc_seq (take (rune_len s) s) \<noteq> [] \<and> hd (esc_seq (take (rune_len s) s)) \<noteq> dquote"
proof -
  assume a: "1 < rune_len s"
  have len: "length (take (rune_len s) s) = rune_len s" using rune_len_le [of s] by simp
  obtain c t where ct: "take (rune_len s) s = c # t" using a len by (cases "take (rune_len s) s") auto
  have "\<not> ascii c" using rune_len_high [OF a] ct by auto
  then have "c \<noteq> dquote" by (auto simp: ascii_def)
  then show ?thesis using ct by (auto simp: esc_seq_def esc_u_def)
qed

lemma parse_str_quote_body:
  "utf8_ok s \<Longrightarrow> parse_str (quote_body s @ dquote # r) = Some (s, r)"
proof (induction s rule: quote_body.induct)
  case (1 s)
  show ?case
  proof (cases "s = []")
    case True
    then show ?thesis by (simp add: quote_body.simps parse_str.simps)
  next
    case ne: False
    then have n: "rune_len s \<noteq> 0" and rest: "utf8_ok (drop (rune_len s) s)"
      using "1.prems" by (auto simp: utf8_ok.simps [of s] split: if_splits)
    show ?thesis
    proof (cases "rune_len s = 1")
      case True
      then have "ascii (hd s)" and s: "hd s # tl s = s"
        using ne by (cases s rule: rune_len.cases; auto split: if_splits)+
      then have st: "str_step (esc_char (hd s) @ quote_body (tl s) @ dquote # r) = Some ([hd s], quote_body (tl s) @ dquote # r)"
        by (simp add: str_step_esc_char)
      have "utf8_ok (tl s)" using rest True by (simp add: drop_Suc)
      with "1.IH"(2) ne n True have "parse_str (quote_body (tl s) @ dquote # r) = Some (tl s, r)" by simp
      then show ?thesis
        using parse_str_step [OF st] esc_char_head [of "hd s"] ne n True s by (simp add: quote_body.simps [of s])
    next
      case False
      with n have gt: "1 < rune_len s" by simp
      let ?x = "take (rune_len s) s" and ?d = "drop (rune_len s) s"
      have st: "str_step (esc_seq ?x @ quote_body ?d @ dquote # r) = Some (?x, quote_body ?d @ dquote # r)"
        by (rule str_step_esc_seq [OF gt])
      have "parse_str (quote_body ?d @ dquote # r) = Some (?d, r)"
        using "1.IH"(3) ne n False rest by simp
      then show ?thesis
        using parse_str_step [OF st] esc_seq_head [OF gt] ne n False by (simp add: quote_body.simps [of s])
    qed
  qed
qed

subsection \<open>What is read is well-formed\<close>

primrec json_utf8 :: "json \<Rightarrow> bool" where
  "json_utf8 JNull = True"
| "json_utf8 (JBool b) = True"
| "json_utf8 (JNum t) = True"
| "json_utf8 (JStr s) = utf8_ok s"
| "json_utf8 (JArr js) = list_all id (map json_utf8 js)"
| "json_utf8 (JObj ms) = list_all (\<lambda>(k, b). utf8_ok k \<and> b) (map (map_prod id json_utf8) ms)"

lemma utf8_ok_append: "utf8_ok a \<Longrightarrow> utf8_ok b \<Longrightarrow> utf8_ok (a @ b)"
  using valid_utf8_append by (simp add: valid_utf8_ok)

lemma utf8_ok_encode_rune [simp]: "utf8_ok (encode_rune r)" "utf8_ok replacement"
  using valid_encode_rune valid_replacement by (simp_all add: valid_utf8_ok)

lemma utf8_ok_take_rune: "0 < rune_len s \<Longrightarrow> utf8_ok (take (rune_len s) s)"
proof -
  assume a: "0 < rune_len s"
  have "valid_utf8 (take (rune_len s) s @ [])"
    using a rune_len_take [of s "[]"] rune_len_le [of s] by (intro valid_rune) (simp_all add: valid_Nil)
  then show ?thesis by (simp add: valid_utf8_ok)
qed

lemma utf8_ok_ascii: "\<forall>c\<in>set s. ascii c \<Longrightarrow> utf8_ok s"
  using valid_utf8_ascii by (simp add: valid_utf8_ok)

lemma str_step_utf8: "str_step s = Some (p, r) \<Longrightarrow> utf8_ok p"
  by (auto simp: str_step_def unescape_u_def unescape_def Let_def ascii_def
      intro: utf8_ok_take_rune utf8_ok_ascii split: list.splits if_splits option.splits)

lemma parse_str_utf8: "parse_str s = Some (t, r) \<Longrightarrow> utf8_ok t"
proof (induction s arbitrary: t r rule: parse_str.induct)
  case (1 s)
  show ?case
  proof (cases "s \<noteq> [] \<and> hd s = dquote")
    case True
    with "1.prems" show ?thesis by (auto simp: parse_str.simps [of s] utf8_ok.simps)
  next
    case False
    with "1.prems" obtain p r' q where st: "str_step s = Some (p, r')" and rec: "parse_str r' = Some (q, r)"
      and t: "t = p @ q"
      by (auto simp: parse_str.simps [of s] split: if_splits option.splits)
    have "utf8_ok q" using "1.IH" [OF False st refl rec] .
    with str_step_utf8 [OF st] t show ?thesis by (simp add: utf8_ok_append)
  qed
qed

lemma literal_utf8: "literal w j s = Some (j', r) \<Longrightarrow> j' = j"
  by (auto simp: literal_def split: if_splits)

lemma parse_utf8:
  "parse_value n s = Some (j, r) \<Longrightarrow> json_utf8 j"
  "parse_elems n s = Some (js, r) \<Longrightarrow> list_all json_utf8 js"
  "parse_members n s = Some (ms, r) \<Longrightarrow> list_all (\<lambda>(k, v). utf8_ok k \<and> json_utf8 v) ms"
proof (induction n s and n s and n s arbitrary: j r and js r and ms r
    rule: parse_value_parse_elems_parse_members.induct)
  case (2 n s)
  from "2.prems" obtain c t where t: "skip_ws s = c # t" by (auto split: list.splits)
  consider ms where "parse_members n t = Some (ms, r)" "j = JObj ms" "c = CHR ''{''"
      "\<not> (skip_ws t \<noteq> [] \<and> hd (skip_ws t) = CHR ''}'')"
    | js where "parse_elems n t = Some (js, r)" "j = JArr js" "c \<noteq> CHR ''{''" "c = CHR ''[''"
      "\<not> (skip_ws t \<noteq> [] \<and> hd (skip_ws t) = CHR '']'')"
    | u where "parse_str t = Some (u, r)" "j = JStr u"
    | "j \<in> {JNull, JBool True, JBool False, JObj [], JArr []}" | u where "j = JNum u"
    using "2.prems" t by (auto split: if_splits dest!: literal_utf8)
  then show ?case
  proof cases
    case 1
    then show ?thesis using "2.IH"(1) [OF t 1(3,4) 1(1)] by (simp add: list_all_iff split_beta)
  next
    case 2
    then show ?thesis using "2.IH"(2) [OF t 2(3,4,5) 2(1)] by (simp add: list_all_iff)
  qed (auto dest: parse_str_utf8)
next
  case (4 n s)
  then show ?case by (fastforce split: option.splits list.splits if_splits prod.splits)
next
  case (6 n s)
  from "6.prems" obtain r0 k r1 r2 v r3 c r4 where
    p: "skip_ws s = dquote # r0" "parse_str r0 = Some (k, r1)" "skip_ws r1 = CHR '':'' # r2"
      "parse_value n r2 = Some (v, r3)" "skip_ws r3 = c # r4"
    and ms: "c = CHR ''}'' \<and> ms = [(k, v)] \<or>
      c \<noteq> CHR ''}'' \<and> c = CHR '','' \<and> (\<exists>ms'. parse_members n r4 = Some (ms', r) \<and> ms = (k, v) # ms')"
    by (simp split: option.splits list.splits if_splits prod.splits) blast+
  have "utf8_ok k" using p(2) by (rule parse_str_utf8)
  moreover have "json_utf8 v"
    using "6.IH"(1) [OF p(1) _ p(2) refl p(3) _ p(4)] by simp
  moreover have "list_all (\<lambda>(k, v). utf8_ok k \<and> json_utf8 v) ms'"
    if "parse_members n r4 = Some (ms', r)" "c \<noteq> CHR ''}''" "c = CHR '',''" for ms'
    using "6.IH"(2) [OF p(1) _ p(2) refl p(3) _ p(4) refl p(5) that(2,3,1)] by simp
  ultimately show ?case using ms by auto
qed simp_all

subsection \<open>Trees\<close>

definition int_literal :: "string \<Rightarrow> bool" where
  "int_literal t \<longleftrightarrow>
     (let ds = (if t \<noteq> [] \<and> hd t = CHR ''-'' then tl t else t)
      in ds \<noteq> [] \<and> list_all is_digit ds \<and> (hd ds = CHR ''0'' \<longrightarrow> tl ds = []))"

primrec json_ok :: "json \<Rightarrow> bool" where
  "json_ok JNull = True"
| "json_ok (JBool b) = True"
| "json_ok (JNum t) = int_literal t"
| "json_ok (JStr s) = utf8_ok s"
| "json_ok (JArr js) = list_all id (map json_ok js)"
| "json_ok (JObj ms) = list_all (\<lambda>(k, b). utf8_ok k \<and> b) (map (map_prod id json_ok) ms)"

text \<open>What may follow a number without prolonging it.\<close>

definition stops :: "string \<Rightarrow> bool" where
  "stops r \<longleftrightarrow> r = [] \<or> (\<not> is_digit (hd r) \<and> hd r \<notin> {CHR ''.'', CHR ''e'', CHR ''E''})"

lemma takeWhile_digits_stop:
  assumes "list_all is_digit ds" "stops r"
  shows "takeWhile is_digit (ds @ r) = ds \<and> dropWhile is_digit (ds @ r) = r"
  using assms takeWhile_append_stop [of ds is_digit "hd r" "tl r"] dropWhile_append_stop [of ds is_digit "hd r" "tl r"]
  by (cases r) (auto simp: stops_def list_all_iff takeWhile_eq_all_conv)

lemma parse_int_literal:
  assumes "int_literal t" and "stops r"
  shows "parse_num (t @ r) = Some (t, r)"
proof -
  define ds where "ds = (if t \<noteq> [] \<and> hd t = CHR ''-'' then tl t else t)"
  define sg where "sg = (if t \<noteq> [] \<and> hd t = CHR ''-'' then ''-'' else [])"
  have ds: "ds \<noteq> []" "list_all is_digit ds" "hd ds = CHR ''0'' \<longrightarrow> tl ds = []"
    using assms(1) by (auto simp: int_literal_def Let_def ds_def)
  have t: "t = sg @ ds" by (cases t) (auto simp: sg_def ds_def)
  have "is_digit (hd ds)" using ds by (cases ds) auto
  then have "hd ds \<noteq> CHR ''-''" by (auto simp: is_digit_def)
  then have "takeWhile (\<lambda>x. x = CHR ''-'') (take 1 (ds @ r)) = []"
    using ds(1) by (cases ds) simp_all
  moreover have "sg = [] \<or> sg = ''-''" by (simp add: sg_def)
  ultimately have sg: "takeWhile (\<lambda>x. x = CHR ''-'') (take 1 (t @ r)) = sg"
    unfolding t by auto
  have ip: "parse_int_part (ds @ r) = Some (ds, r)"
    using ds takeWhile_digits_stop [OF ds(2) assms(2)]
    by (cases ds) (auto simp: parse_int_part_def parse_digits_def)
  have fp: "parse_frac_part r = Some ([], r)" "parse_exp_part r = Some ([], r)"
    using assms(2) by (auto simp: parse_frac_part_def parse_exp_part_def stops_def split: list.splits)
  have "drop (length sg) (t @ r) = ds @ r" by (simp add: t)
  with sg ip fp show ?thesis by (simp add: parse_num_def t)
qed

lemma int_literal_head: "int_literal t \<Longrightarrow> t \<noteq> [] \<and> (is_digit (hd t) \<or> hd t = CHR ''-'')"
  by (cases t) (auto simp: int_literal_def Let_def split: if_splits)

definition head_ok :: "string \<Rightarrow> bool" where
  "head_ok s \<longleftrightarrow> s \<noteq> [] \<and> \<not> is_ws (hd s) \<and> hd s \<noteq> CHR '']'' \<and> hd s \<noteq> CHR ''}''"

lemma digit_not_special:
  "is_digit c \<or> c = CHR ''-'' \<Longrightarrow> \<not> is_ws c \<and> c \<notin> {CHR '']'', CHR ''}'', CHR ''{'', CHR ''['', dquote, CHR ''n'', CHR ''t'', CHR ''f''}"
  by (auto simp: is_digit_def is_ws_def)

lemma print_json_head: "json_ok j \<Longrightarrow> head_ok (print_json j)"
  using int_literal_head digit_not_special
  by (cases j) (auto simp: head_ok_def quote_def is_ws_def)

lemma skip_ws_head: "head_ok s \<Longrightarrow> skip_ws (s @ r) = s @ r"
  by (cases s) (auto simp: head_ok_def skip_ws_def)

lemma skip_ws_non [simp]: "\<not> is_ws c \<Longrightarrow> skip_ws (c # r) = c # r"
  by (simp add: skip_ws_def)

text \<open>The statement proved by induction: any fuel above the bound reads the printed tree back.\<close>

definition reads_back :: "json \<Rightarrow> bool" where
  "reads_back j \<longleftrightarrow>
     (\<forall>n r. stops r \<longrightarrow> 2 * length (print_json j @ r) < n \<longrightarrow> parse_value n (print_json j @ r) = Some (j, r))"

lemma reads_backD:
  "reads_back j \<Longrightarrow> stops r \<Longrightarrow> 2 * length (print_json j @ r) < n \<Longrightarrow> parse_value n (print_json j @ r) = Some (j, r)"
  by (simp add: reads_back_def)

lemma reads_back_SucI:
  "(\<And>m r. parse_value (Suc m) (print_json j @ r) = Some (j, r)) \<Longrightarrow> reads_back j"
  unfolding reads_back_def by (metis less_nat_zero_code not0_implies_Suc)

lemma stops_special [simp]:
  "stops (CHR '','' # r)" "stops (CHR '']'' # r)" "stops (CHR ''}'' # r)"
  by (simp_all add: stops_def is_digit_def)

lemma not_ws_special [simp]:
  "\<not> is_ws (CHR '','')" "\<not> is_ws (CHR '']'')" "\<not> is_ws (CHR ''}'')" "\<not> is_ws (CHR '':'')" "\<not> is_ws dquote"
  "\<not> is_ws (CHR ''{'')" "\<not> is_ws (CHR ''['')"
  by (simp_all add: is_ws_def)

lemma parse_elems_print:
  assumes "js \<noteq> []" and "\<forall>j\<in>set js. reads_back j"
    and "2 * length (join_with '','' (map print_json js) @ CHR '']'' # r) + 1 < n"
  shows "parse_elems n (join_with '','' (map print_json js) @ CHR '']'' # r) = Some (js, r)"
  using assms
proof (induction js arbitrary: n)
  case (Cons j js)
  from Cons.prems(3) obtain m where n: "n = Suc m" by (cases n) auto
  have rb: "reads_back j" using Cons.prems(2) by simp
  show ?case
  proof (cases js)
    case Nil
    then have "parse_value m (print_json j @ CHR '']'' # r) = Some (j, CHR '']'' # r)"
      using Cons.prems(3) n by (intro reads_backD [OF rb]) simp_all
    then show ?thesis by (simp add: Nil n)
  next
    case (Cons k ks)
    let ?rest = "join_with '','' (map print_json js) @ CHR '']'' # r"
    have shape: "join_with '','' (map print_json (j # js)) @ CHR '']'' # r = print_json j @ CHR '','' # ?rest"
      using Cons by simp
    have len: "2 * length ?rest + 1 < m" "2 * length (print_json j @ CHR '','' # ?rest) < m"
      using Cons.prems(3) n unfolding shape by simp_all
    have "parse_value m (print_json j @ CHR '','' # ?rest) = Some (j, CHR '','' # ?rest)"
      using len(2) by (intro reads_backD [OF rb]) simp_all
    moreover have "parse_elems m ?rest = Some (js, r)"
      using Cons.IH len(1) Cons.prems(2) Cons by simp
    ultimately show ?thesis unfolding shape n by simp
  qed
qed simp

lemma print_member_pair:
  "print_member (map_prod id print_json (k, v)) = dquote # quote_body k @ dquote # CHR '':'' # print_json v"
  by (simp add: print_member_def quote_def)

lemma parse_members_print:
  assumes "ms \<noteq> []" and "\<forall>(k, v)\<in>set ms. utf8_ok k \<and> reads_back v"
    and "2 * length (join_with '','' (map print_member (map (map_prod id print_json) ms)) @ CHR ''}'' # r) + 1 < n"
  shows "parse_members n (join_with '','' (map print_member (map (map_prod id print_json) ms)) @ CHR ''}'' # r)
    = Some (ms, r)"
  using assms
proof (induction ms arbitrary: n)
  case (Cons kv ms)
  obtain k v where kv: "kv = (k, v)" by force
  from Cons.prems(3) obtain m where n: "n = Suc m" by (cases n) auto
  have rb: "reads_back v" and k: "utf8_ok k" using Cons.prems(2) kv by auto
  let ?tail = "if ms = [] then CHR ''}'' # r
    else CHR '','' # join_with '','' (map print_member (map (map_prod id print_json) ms)) @ CHR ''}'' # r"
  have shape: "join_with '','' (map print_member (map (map_prod id print_json) (kv # ms))) @ CHR ''}'' # r
    = dquote # quote_body k @ dquote # CHR '':'' # print_json v @ ?tail"
    by (cases ms) (simp_all add: kv print_member_pair del: map_prod_simp)
  have key: "parse_str (quote_body k @ dquote # CHR '':'' # print_json v @ ?tail) = Some (k, CHR '':'' # print_json v @ ?tail)"
    by (rule parse_str_quote_body [OF k])
  have len: "2 * length (print_json v @ ?tail) < m"
    using Cons.prems(3) n unfolding shape by simp
  have val: "parse_value m (print_json v @ ?tail) = Some (v, ?tail)"
    by (rule reads_backD [OF rb _ len]) simp
  show ?case
  proof (cases "ms = []")
    case True
    then show ?thesis unfolding shape n using key val by (simp add: kv)
  next
    case False
    have "parse_members m (join_with '','' (map print_member (map (map_prod id print_json) ms)) @ CHR ''}'' # r)
        = Some (ms, r)"
    proof (rule Cons.IH [OF False])
      show "\<forall>(k, v)\<in>set ms. utf8_ok k \<and> reads_back v" using Cons.prems(2) by simp
      show "2 * length (join_with '','' (map print_member (map (map_prod id print_json) ms)) @ CHR ''}'' # r) + 1 < m"
        using False len by simp
    qed
    with False show ?thesis unfolding shape n using key val by (simp add: kv)
  qed
qed simp

lemma join_head:
  assumes "xs \<noteq> []" and "head_ok (hd xs)"
  shows "head_ok (join_with sep xs @ r)"
  using assms join_with_hd [of xs sep] by (cases "join_with sep xs") (auto simp: head_ok_def)

lemma head_ok_append: "head_ok s \<Longrightarrow> head_ok (s @ r)"
  by (cases s) (auto simp: head_ok_def)

lemma head_ok_skip: "head_ok s \<Longrightarrow> skip_ws s = s"
  using skip_ws_head [of s "[]"] by simp

theorem json_reads_back: "json_ok j \<Longrightarrow> reads_back j"
proof (induction j)
  case (JNum t)
  show ?case unfolding reads_back_def
  proof (intro allI impI)
    fix n r assume r: "stops r" and len: "2 * length (print_json (JNum t) @ r) < n"
    then obtain m where n: "n = Suc m" by (cases n) auto
    have lit: "int_literal t" using JNum by simp
    obtain c u where t: "t = c # u" using int_literal_head [OF lit] by (cases t) auto
    have c: "\<not> is_ws c" "c \<notin> {CHR '']'', CHR ''}'', CHR ''{'', CHR ''['', dquote, CHR ''n'', CHR ''t'', CHR ''f''}"
      using int_literal_head [OF lit] digit_not_special [of c] t by auto
    show "parse_value n (print_json (JNum t) @ r) = Some (JNum t, r)"
      using parse_int_literal [OF lit r] c t by (simp add: n)
  qed
next
  case (JStr s)
  then have "parse_str (quote_body s @ dquote # r) = Some (s, r)" for r
    by (intro parse_str_quote_body) simp
  then have "parse_value (Suc m) (print_json (JStr s) @ r) = Some (JStr s, r)" for m r
    by (simp add: quote_def)
  then show ?case by (rule reads_back_SucI)
next
  case (JArr js)
  have ok: "\<forall>j\<in>set js. json_ok j" using JArr.prems by (simp add: list_all_iff)
  then have rb: "\<forall>j\<in>set js. reads_back j" using JArr.IH by blast
  show ?case unfolding reads_back_def
  proof (intro allI impI)
    fix n r assume len: "2 * length (print_json (JArr js) @ r) < n"
    then obtain m where n: "n = Suc m" by (cases n) auto
    show "parse_value n (print_json (JArr js) @ r) = Some (JArr js, r)"
    proof (cases "js = []")
      case False
      let ?t = "join_with '','' (map print_json js) @ CHR '']'' # r"
      have "head_ok (print_json (hd js))" using False ok print_json_head by simp
      then have h: "head_ok ?t" using False by (intro join_head) (simp_all add: hd_map)
      have "parse_elems m ?t = Some (js, r)"
        using False rb len n by (intro parse_elems_print) simp_all
      then show ?thesis using h head_ok_skip [OF h] by (simp add: n head_ok_def)
    qed (simp add: n)
  qed
next
  case (JObj ms)
  have ok: "\<forall>(k, v)\<in>set ms. utf8_ok k \<and> json_ok v" using JObj.prems by (auto simp: list_all_iff)
  then have rb: "\<forall>(k, v)\<in>set ms. utf8_ok k \<and> reads_back v" using JObj.IH by fastforce
  show ?case unfolding reads_back_def
  proof (intro allI impI)
    fix n r assume len: "2 * length (print_json (JObj ms) @ r) < n"
    then obtain m where n: "n = Suc m" by (cases n) auto
    show "parse_value n (print_json (JObj ms) @ r) = Some (JObj ms, r)"
    proof (cases "ms = []")
      case False
      let ?t = "join_with '','' (map print_member (map (map_prod id print_json) ms)) @ CHR ''}'' # r"
      have "head_ok (print_member (map_prod id print_json (hd ms)))"
        by (simp add: print_member_def quote_def head_ok_def)
      then have h: "head_ok ?t" using False by (intro join_head) (simp_all add: hd_map)
      have "parse_members m ?t = Some (ms, r)"
        using False rb len n by (intro parse_members_print) simp_all
      then show ?thesis using h head_ok_skip [OF h] by (simp add: n head_ok_def)
    qed (simp add: n)
  qed
next
  case (JBool b)
  have "parse_value (Suc m) (print_json (JBool b) @ r) = Some (JBool b, r)" for m r
    by (simp add: literal_def has_prefix_def is_ws_def)
  then show ?case by (rule reads_back_SucI)
next
  case JNull
  have "parse_value (Suc m) (print_json JNull @ r) = Some (JNull, r)" for m r
    by (simp add: literal_def has_prefix_def is_ws_def)
  then show ?case by (rule reads_back_SucI)
qed

declare parse_value.simps [simp del] parse_elems.simps [simp del] parse_members.simps [simp del]

lemma parse_value_print:
  assumes "json_ok j"
  shows "parse_value (2 * length (print_json j) + 1) (print_json j) = Some (j, [])"
  using reads_backD [OF json_reads_back [OF assms], of "[]" "2 * length (print_json j) + 1"]
  by (simp add: stops_def)

lemma json_parse_print: "json_ok j \<Longrightarrow> json_parse (print_json j) = Some j"
  by (simp add: json_parse_def parse_value_print [simplified] skip_ws_def)

lemma json_first_print: "json_ok j \<Longrightarrow> json_first (print_json j) = Some j"
  by (simp add: json_first_def parse_value_print [simplified])

text \<open>A \<open>json.Encoder\<close> ends its value with a newline.\<close>

lemma json_parse_print_line:
  assumes "json_ok j"
  shows "json_parse (print_json j @ [CHR 0x0A]) = Some j"
proof -
  have "parse_value (2 * length (print_json j @ [CHR 0x0A]) + 1) (print_json j @ [CHR 0x0A]) = Some (j, [CHR 0x0A])"
    by (rule reads_backD [OF json_reads_back [OF assms]]) (simp_all add: stops_def is_digit_def)
  then show ?thesis by (simp add: json_parse_def skip_ws_def is_ws_def)
qed

lemma json_parse_utf8: "json_parse s = Some j \<Longrightarrow> json_utf8 j"
  by (auto simp: json_parse_def split: option.splits if_splits dest: parse_utf8(1))

end
