(* ===== verification/Go_Time.thy ===== *)
theory Go_Time
  imports Go_Strings "HOL-Library.Monad_Syntax"
begin

text \<open>
  Go's \<open>time.Time\<close> as the agent uses it: an instant in UTC, counted in nanoseconds from the Unix
  epoch.  \<open>UnixNano\<close> is the 64-bit wrap of that count; \<open>MarshalJSON\<close> writes RFC 3339 with the
  fraction's trailing zeros dropped and fails outside the years 0 to 9999; \<open>UnmarshalJSON\<close> reads
  RFC 3339 with any fraction and zone offset.  The main fact is the round trip of the two.
\<close>

type_synonym time = int

definition wrap64 :: "int \<Rightarrow> int" where
  "wrap64 i = (i + 2 ^ 63) mod 2 ^ 64 - 2 ^ 63"

lemma wrap64_range: "- (2 ^ 63) \<le> wrap64 i \<and> wrap64 i < 2 ^ 63"
  using pos_mod_bound [of "2 ^ 64 :: int" "i + 2 ^ 63"] pos_mod_sign [of "2 ^ 64 :: int" "i + 2 ^ 63"]
  by (simp add: wrap64_def)

lemma wrap64_id: "- (2 ^ 63) \<le> i \<Longrightarrow> i < 2 ^ 63 \<Longrightarrow> wrap64 i = i"
  by (simp add: wrap64_def mod_pos_pos_trivial)

definition unix_nano :: "time \<Rightarrow> int" where
  "unix_nano t = wrap64 t"

definition unix_micro_time :: "int \<Rightarrow> time" where
  "unix_micro_time us = us * 1000"

subsection \<open>The civil calendar\<close>

definition leap :: "nat \<Rightarrow> bool" where
  "leap y \<longleftrightarrow> y mod 4 = 0 \<and> (y mod 100 \<noteq> 0 \<or> y mod 400 = 0)"

text \<open>Days from 0000-01-01 to the first day of year \<open>y\<close>.\<close>

definition year_start :: "nat \<Rightarrow> nat" where
  "year_start y = 365 * y + (y + 3) div 4 + (y + 399) div 400 - (y + 99) div 100"

definition month_start :: "bool \<Rightarrow> nat \<Rightarrow> nat" where
  "month_start lp m =
     [0, 31, 59, 90, 120, 151, 181, 212, 243, 273, 304, 334] ! (m - 1) + (if lp \<and> 2 < m then 1 else 0)"

definition month_length :: "bool \<Rightarrow> nat \<Rightarrow> nat" where
  "month_length lp m =
     (if m = 2 then (if lp then 29 else 28) else [31, 28, 31, 30, 31, 30, 31, 31, 30, 31, 30, 31] ! (m - 1))"

lemma div_shift_Suc:
  assumes "0 < n"
  shows "(Suc y + (n - 1)) div n = (y + (n - 1)) div n + (if y mod n = 0 then 1 else 0)"
proof -
  have "Suc (y + (n - 1)) = y + n" using assms by simp
  then have "Suc (y + (n - 1)) mod n = y mod n" by simp
  then show ?thesis by (simp add: div_Suc)
qed

lemma year_start_step: "year_start (Suc y) = year_start y + (if leap y then 366 else 365)"
proof -
  have a: "(Suc y + 3) div 4 = (y + 3) div 4 + (if y mod 4 = 0 then 1 else 0)"
    and b: "(Suc y + 99) div 100 = (y + 99) div 100 + (if y mod 100 = 0 then 1 else 0)"
    and c: "(Suc y + 399) div 400 = (y + 399) div 400 + (if y mod 400 = 0 then 1 else 0)"
    using div_shift_Suc [of 4 y] div_shift_Suc [of 100 y] div_shift_Suc [of 400 y] by simp_all
  have d: "(y + 99) div 100 \<le> 365 * y" by (cases y) (auto simp: less_mult_imp_div_less le_simps(2))
  have "100 dvd y" if "400 dvd y" using that by (rule dvd_trans [rotated]) simp
  moreover have "4 dvd y" if "100 dvd y" using that by (rule dvd_trans [rotated]) simp
  ultimately have e: "y mod 400 = 0 \<Longrightarrow> y mod 100 = 0" "y mod 100 = 0 \<Longrightarrow> y mod 4 = 0"
    by (simp_all add: dvd_eq_mod_eq_0)
  show ?thesis
    unfolding year_start_def leap_def a b c using d e
    by (auto simp: ac_simps split: if_splits)
qed

lemma year_start_Suc: "year_start y + 365 \<le> year_start (Suc y)"
  by (simp add: year_start_step)

function year_search :: "nat \<Rightarrow> nat \<Rightarrow> nat" where
  "year_search d y = (if year_start (Suc y) \<le> d then year_search d (Suc y) else y)"
  by pat_completeness auto
termination
proof (relation "measure (\<lambda>(d, y). d - year_start y)")
  fix d y assume "year_start (Suc y) \<le> d"
  then show "((d, Suc y), (d, y)) \<in> measure (\<lambda>(d, y). d - year_start y)"
    using year_start_Suc [of y] by simp
qed simp

declare year_search.simps [simp del]

text \<open>For evaluation: \<open>nat (int n)\<close> makes a numeral of a natural number that is used more than once.\<close>

lemma year_search_code [code]:
  "year_search d y = (if year_start (Suc y) \<le> d then year_search d (nat (int (Suc y))) else y)"
  unfolding nat_int by (rule year_search.simps)

definition year_of_day :: "nat \<Rightarrow> nat" where
  "year_of_day d = year_search d (d * 400 div 146097 - 1)"

definition month_of :: "bool \<Rightarrow> nat \<Rightarrow> nat" where
  "month_of lp k =
     (let l = (if lp then 1 else 0) in
      if k < 31 then 1 else if k < 59 + l then 2 else if k < 90 + l then 3 else if k < 120 + l then 4
      else if k < 151 + l then 5 else if k < 181 + l then 6 else if k < 212 + l then 7
      else if k < 243 + l then 8 else if k < 273 + l then 9 else if k < 304 + l then 10
      else if k < 334 + l then 11 else 12)"

lemma year_search_bounds:
  "year_start y \<le> d \<Longrightarrow> year_start (year_search d y) \<le> d \<and> d < year_start (Suc (year_search d y))"
proof (induction d y rule: year_search.induct)
  case (1 d y)
  show ?case
  proof (cases "year_start (Suc y) \<le> d")
    case True
    with 1 show ?thesis by (simp add: year_search.simps [of d y])
  next
    case False
    with "1.prems" show ?thesis by (simp add: year_search.simps [of d y])
  qed
qed

lemma year_guess: "year_start (d * 400 div 146097 - 1) \<le> d"
proof (cases "d * 400 div 146097 \<le> 1")
  case True
  then show ?thesis by (simp add: year_start_def)
next
  case False
  define y where "y = d * 400 div 146097 - 1"
  have y: "(y + 1) * 146097 \<le> d * 400"
    using False div_times_less_eq_dividend [of "d * 400" 146097] by (simp add: y_def)
  have "400 * ((y + 3) div 4) \<le> 100 * y + 300"
    using div_times_less_eq_dividend [of "y + 3" 4] by linarith
  moreover have "400 * ((y + 399) div 400) \<le> y + 399"
    using div_times_less_eq_dividend [of "y + 399" 400] by linarith
  moreover have "4 * y \<le> 400 * ((y + 99) div 100)"
    using div_mult_mod_eq [of "y + 99" 100] mod_less_divisor [of 100 "y + 99"] by linarith
  moreover have "365 * y + a + b \<le> d + c"
    if "400 * a \<le> 100 * y + 300" "400 * b \<le> y + 399" "4 * y \<le> 400 * c" for a b c
  proof -
    have "146097 * y + 146097 \<le> 400 * d" using y by simp
    with that have "400 * (365 * y + a + b) \<le> 400 * (d + c)" unfolding distrib_left by linarith
    then show ?thesis by simp
  qed
  ultimately have "365 * y + (y + 3) div 4 + (y + 399) div 400 \<le> d + (y + 99) div 100" by blast
  then have "year_start y \<le> d" unfolding year_start_def by (simp only: le_diff_conv)
  then show ?thesis by (simp only: y_def)
qed

lemma year_of_day_bounds:
  "year_start (year_of_day d) \<le> d" "d < year_start (Suc (year_of_day d))"
  using year_search_bounds [OF year_guess, of d] by (auto simp: year_of_day_def)

lemma month_of_bounds:
  assumes "k < (if lp then 366 else 365)"
  shows "1 \<le> month_of lp k \<and> month_of lp k \<le> 12 \<and> month_start lp (month_of lp k) \<le> k
    \<and> k < month_start lp (month_of lp k) + month_length lp (month_of lp k)"
proof -
  define m where "m = month_of lp k"
  define l :: nat where "l = (if lp then 1 else 0)"
  have k: "k < 365 + l" using assms by (cases lp) (simp_all add: l_def)
  have "k < 31 \<and> m = 1 \<or> 31 \<le> k \<and> k < 59 + l \<and> m = 2 \<or> 59 + l \<le> k \<and> k < 90 + l \<and> m = 3
      \<or> 90 + l \<le> k \<and> k < 120 + l \<and> m = 4 \<or> 120 + l \<le> k \<and> k < 151 + l \<and> m = 5 \<or> 151 + l \<le> k \<and> k < 181 + l \<and> m = 6
      \<or> 181 + l \<le> k \<and> k < 212 + l \<and> m = 7 \<or> 212 + l \<le> k \<and> k < 243 + l \<and> m = 8 \<or> 243 + l \<le> k \<and> k < 273 + l \<and> m = 9
      \<or> 273 + l \<le> k \<and> k < 304 + l \<and> m = 10 \<or> 304 + l \<le> k \<and> k < 334 + l \<and> m = 11 \<or> 334 + l \<le> k \<and> m = 12"
    unfolding m_def month_of_def Let_def l_def [symmetric] by (simp add: not_less)
  then show ?thesis unfolding m_def [symmetric] using k
    by (elim disjE conjE; cases lp; simp add: month_start_def month_length_def l_def)
qed

subsection \<open>RFC 3339\<close>

definition ns_per_s :: int where "ns_per_s = 10 ^ 9"

definition epoch_days :: int where "epoch_days = 719528"

definition fmt_frac :: "nat \<Rightarrow> string" where
  "fmt_frac ns = (if ns = 0 then [] else CHR ''.'' # trim_right_char (digit_char 0) (pad_zero 9 ns))"

definition fmt_clock :: "nat \<Rightarrow> string" where
  "fmt_clock sod = pad_zero 2 (sod div 3600) @ '':'' @ pad_zero 2 (sod div 60 mod 60) @ '':'' @ pad_zero 2 (sod mod 60)"

definition fmt_date :: "nat \<Rightarrow> string" where
  "fmt_date day =
     (let y = year_of_day day; lp = leap y; k = day - year_start y; m = month_of lp k
      in pad_zero 4 y @ ''-'' @ pad_zero 2 m @ ''-'' @ pad_zero 2 (Suc (k - month_start lp m)))"

lemma fmt_date_code [code]:
  "fmt_date day =
     (let d = nat (int day); y = nat (int (year_of_day d)); lp = leap y; k = nat (int (d - year_start y)); m = nat (int (month_of lp k))
      in pad_zero 4 y @ ''-'' @ pad_zero 2 m @ ''-'' @ pad_zero 2 (Suc (k - month_start lp m)))"
  by (simp add: fmt_date_def)

text \<open>\<open>Time.MarshalJSON\<close> without the quotes; an error outside the years 0 to 9999.\<close>

definition format_time :: "time \<Rightarrow> string option" where
  "format_time t =
     (let secs = t div ns_per_s + epoch_days * 86400
      in if secs < 0 \<or> 9999 < year_of_day (nat (secs div 86400)) then None
         else Some (fmt_date (nat (secs div 86400)) @ ''T'' @ fmt_clock (nat (secs mod 86400))
                @ fmt_frac (nat (t mod ns_per_s)) @ ''Z''))"

definition take_num :: "nat \<Rightarrow> string \<Rightarrow> (nat \<times> string) option" where
  "take_num n s =
     (if n \<le> length s \<and> list_all is_digit (take n s) then Some (dval (take n s), drop n s) else None)"

definition expect :: "char \<Rightarrow> string \<Rightarrow> string option" where
  "expect c s = (case s of [] \<Rightarrow> None | x # r \<Rightarrow> if x = c then Some r else None)"

definition parse_frac :: "string \<Rightarrow> (nat \<times> string) option" where
  "parse_frac s =
     (case expect (CHR ''.'') s of
        None \<Rightarrow> Some (0, s)
      | Some r \<Rightarrow>
          let ds = takeWhile is_digit r
          in if ds = [] then None
             else Some (dval (take 9 (ds @ replicate 9 (digit_char 0))), dropWhile is_digit r))"

definition parse_zone :: "string \<Rightarrow> int option" where
  "parse_zone s =
     (if s = ''Z'' then Some 0
      else case s of
          [] \<Rightarrow> None
        | sign # r \<Rightarrow> do {
            (h, r1) \<leftarrow> take_num 2 r;
            r2 \<leftarrow> expect (CHR '':'') r1;
            (m, r3) \<leftarrow> take_num 2 r2;
            if r3 = [] \<and> h \<le> 23 \<and> m \<le> 59 \<and> (sign = CHR ''+'' \<or> sign = CHR ''-'')
            then Some (if sign = CHR ''-'' then - int (h * 3600 + m * 60) else int (h * 3600 + m * 60))
            else None })"

definition parse_date :: "string \<Rightarrow> (nat \<times> string) option" where
  "parse_date s = do {
     (y, s) \<leftarrow> take_num 4 s; s \<leftarrow> expect (CHR ''-'') s;
     (m, s) \<leftarrow> take_num 2 s; s \<leftarrow> expect (CHR ''-'') s;
     (d, s) \<leftarrow> take_num 2 s;
     if 1 \<le> m \<and> m \<le> 12 \<and> 1 \<le> d \<and> d \<le> month_length (leap y) m
     then Some (year_start y + month_start (leap y) m + (d - 1), s) else None }"

definition parse_clock :: "string \<Rightarrow> (nat \<times> string) option" where
  "parse_clock s = do {
     (h, s) \<leftarrow> take_num 2 s; s \<leftarrow> expect (CHR '':'') s;
     (m, s) \<leftarrow> take_num 2 s; s \<leftarrow> expect (CHR '':'') s;
     (c, s) \<leftarrow> take_num 2 s;
     if h \<le> 23 \<and> m \<le> 59 \<and> c \<le> 59 then Some (h * 3600 + m * 60 + c, s) else None }"

text \<open>\<open>Time.UnmarshalJSON\<close> on the text between the quotes.\<close>

definition parse_time :: "string \<Rightarrow> time option" where
  "parse_time s = do {
     (day, s) \<leftarrow> parse_date s; s \<leftarrow> expect (CHR ''T'') s;
     (sod, s) \<leftarrow> parse_clock s;
     (ns, s) \<leftarrow> parse_frac s;
     off \<leftarrow> parse_zone s;
     Some ((int day * 86400 + int sod - off - epoch_days * 86400) * ns_per_s + int ns) }"

lemma take_num_pad:
  assumes "v < 10 ^ n" "0 < n"
  shows "take_num n (pad_zero n v @ r) = Some (v, r)"
  using assms by (simp add: take_num_def length_pad_zero list_all_iff pad_zero_digits)

lemma expect_Cons [simp]: "expect c (c # r) = Some r"
  by (simp add: expect_def)

lemma trim_right_char_restore: "s = trim_right_char c s @ replicate (length s - length (trim_right_char c s)) c"
proof -
  let ?t = "takeWhile (\<lambda>x. x = c) (rev s)"
  have "rev s = ?t @ dropWhile (\<lambda>x. x = c) (rev s)" by simp
  then have s: "s = trim_right_char c s @ rev ?t"
    by (metis rev_append rev_rev_ident trim_right_char_def)
  moreover have "?t = replicate (length ?t) c"
    by (induction s rule: rev_induct) auto
  then have "rev ?t = replicate (length ?t) c" by (metis rev_replicate)
  moreover have "length ?t = length s - length (trim_right_char c s)"
    using s by (metis add_diff_cancel_left' length_append length_rev)
  ultimately show ?thesis by metis
qed

lemma parse_frac_fmt:
  assumes "ns < 10 ^ 9"
  shows "parse_frac (fmt_frac ns @ ''Z'') = Some (ns, ''Z'')"
proof (cases "ns = 0")
  case True
  then show ?thesis by (simp add: fmt_frac_def parse_frac_def expect_def)
next
  case False
  let ?p = "pad_zero 9 ns" and ?z = "digit_char 0"
  let ?d = "trim_right_char ?z ?p"
  have len: "length ?p = 9" using assms by (simp add: length_pad_zero)
  have p: "?p = ?d @ replicate (9 - length ?d) ?z"
    using trim_right_char_restore [of ?p ?z] len by simp
  have dig: "\<forall>c\<in>set ?d. is_digit c"
    using pad_zero_digits p by (metis Un_iff set_append)
  have nz: "?d \<noteq> []"
  proof
    assume "?d = []"
    then have "dval ?p = 0" using p dval_zeros [of 9 "[]"] by simp
    with False show False by simp
  qed
  have "length ?d \<le> 9" using p len by (metis le_add1 length_append)
  then have "take 9 (?d @ replicate 9 ?z) = ?p" using p by (simp add: min_def)
  moreover have "\<not> is_digit (CHR ''Z'')" by (simp add: is_digit_def)
  ultimately show ?thesis
    using dig nz False
    by (simp add: fmt_frac_def parse_frac_def Let_def takeWhile_append_stop dropWhile_append_stop)
qed

lemma parse_clock_fmt: "sod < 86400 \<Longrightarrow> parse_clock (fmt_clock sod @ r) = Some (sod, r)"
proof -
  assume a: "sod < 86400"
  then have "sod div 3600 < 100" "sod div 3600 \<le> 23" "sod div 60 mod 60 \<le> 59" "sod mod 60 \<le> 59" by auto
  moreover have "sod div 3600 * 3600 + sod div 60 mod 60 * 60 + sod mod 60 = sod"
  proof -
    have "sod div 3600 = sod div 60 div 60" using div_mult2_eq [of sod 60 60] by simp
    moreover have "a * 3600 + b * 60 + c = sod" if "q * 60 + c = sod" "a * 60 + b = q" for a b c q
      using that by (simp add: algebra_simps)
    note this [of "sod div 60" "sod mod 60" "sod div 60 div 60" "sod div 60 mod 60"]
    ultimately show ?thesis by simp
  qed
  ultimately show ?thesis
    by (simp add: parse_clock_def fmt_clock_def take_num_pad)
qed

lemma year_length: "k < year_start (Suc y) - year_start y \<longleftrightarrow> k < (if leap y then 366 else 365)"
  by (simp add: year_start_step)

lemma parse_date_fmt:
  assumes "year_of_day day \<le> 9999"
  shows "parse_date (fmt_date day @ r) = Some (day, r)"
proof -
  define y where "y = year_of_day day"
  define k where "k = day - year_start y"
  define m where "m = month_of (leap y) k"
  have y: "year_start y \<le> day" "day < year_start (Suc y)"
    using year_of_day_bounds [of day] by (simp_all add: y_def)
  then have "k < (if leap y then 366 else 365)" by (simp add: k_def year_start_step)
  note mb = month_of_bounds [OF this, folded m_def]
  have ml: "month_length (leap y) m \<le> 31"
  proof -
    have "m - 1 < 12" using mb by linarith
    moreover have "\<forall>j<12. [31, 28, 31, 30, 31, 30, 31, 31, 30, 31, 30, 31] ! j \<le> (31::nat)"
      by (simp add: All_less_Suc numeral_eq_Suc)
    ultimately show ?thesis by (simp add: month_length_def)
  qed
  have day: "Suc (k - month_start (leap y) m) \<le> month_length (leap y) m" using mb by linarith
  define dd where "dd = Suc (k - month_start (leap y) m)"
  have fmt: "fmt_date day = pad_zero 4 y @ ''-'' @ pad_zero 2 m @ ''-'' @ pad_zero 2 dd"
    by (simp only: fmt_date_def Let_def y_def k_def m_def dd_def)
  have "year_start y + month_start (leap y) m + (dd - 1) = day"
    using mb y(1) unfolding dd_def k_def by linarith
  moreover have "take_num 4 (pad_zero 4 y @ q) = Some (y, q)" for q
    using assms by (intro take_num_pad) (simp_all add: y_def)
  moreover have "take_num 2 (pad_zero 2 m @ q) = Some (m, q)" for q
    using mb by (intro take_num_pad) simp_all
  moreover have "take_num 2 (pad_zero 2 dd @ q) = Some (dd, q)" for q
    using day ml by (intro take_num_pad) (simp_all add: dd_def)
  moreover have "1 \<le> dd" "dd \<le> month_length (leap y) m" using day by (simp_all add: dd_def)
  ultimately show ?thesis
    using mb by (simp add: parse_date_def fmt)
qed

text \<open>What \<open>MarshalJSON\<close> writes, \<open>UnmarshalJSON\<close> reads back as the same instant.\<close>

lemma parse_format_time:
  assumes "format_time t = Some s"
  shows "parse_time s = Some t"
proof -
  define secs where "secs = t div ns_per_s + epoch_days * 86400"
  define day where "day = nat (secs div 86400)"
  define sod where "sod = nat (secs mod 86400)"
  define ns where "ns = nat (t mod ns_per_s)"
  have pos: "0 \<le> secs" and yr: "year_of_day day \<le> 9999"
    and s: "s = fmt_date day @ ''T'' @ fmt_clock sod @ fmt_frac ns @ ''Z''"
    using assms by (auto simp: format_time_def Let_def secs_def day_def sod_def ns_def split: if_splits)
  have sod: "sod < 86400" by (simp add: sod_def nat_less_iff)
  have ns: "ns < 10 ^ 9" by (simp add: ns_def nat_less_iff ns_per_s_def)
  have "0 \<le> secs div 86400" using pos by (simp add: pos_imp_zdiv_nonneg_iff)
  then have "int day * 86400 + int sod = secs" by (simp add: day_def sod_def)
  moreover have "int ns = t mod ns_per_s" by (simp add: ns_def ns_per_s_def)
  ultimately have "(int day * 86400 + int sod - 0 - epoch_days * 86400) * ns_per_s + int ns = t"
    by (simp add: secs_def)
  moreover have "parse_zone ''Z'' = Some 0" by (simp add: parse_zone_def)
  ultimately show ?thesis
    unfolding s parse_time_def
    by (simp add: parse_date_fmt [OF yr] parse_clock_fmt [OF sod] parse_frac_fmt [OF ns])
qed

lemma trim_pad_digits: "d \<in> set (trim_right_char z (pad_zero n v)) \<Longrightarrow> is_digit d"
  using trim_right_char_restore [of "pad_zero n v" z] pad_zero_digits by (metis Un_iff set_append)

lemma format_time_chars:
  assumes "format_time t = Some s"
  shows "\<forall>c\<in>set s. is_digit c \<or> c \<in> set ''-:T.Z''"
proof -
  have "\<forall>c\<in>set (fmt_date d). is_digit c \<or> c \<in> set ''-:T.Z''" for d
    by (auto simp: fmt_date_def Let_def dest: pad_zero_digits)
  moreover have "\<forall>c\<in>set (fmt_clock d). is_digit c \<or> c \<in> set ''-:T.Z''" for d
    by (auto simp: fmt_clock_def dest: pad_zero_digits)
  moreover have "\<forall>c\<in>set (fmt_frac d). is_digit c \<or> c \<in> set ''-:T.Z''" for d
    by (auto simp: fmt_frac_def dest: trim_pad_digits)
  moreover obtain a b d where "s = fmt_date a @ ''T'' @ fmt_clock b @ fmt_frac d @ ''Z''"
    using assms by (auto simp: format_time_def Let_def split: if_splits)
  ultimately show ?thesis by (simp only: set_append ball_Un) simp
qed

end
