(* ===== verification/Collectors.thy ===== *)
theory Collectors
  imports Go_Json_Roundtrip Go_Time "HOL-Library.Word"
begin

unbundle bit_operations_syntax

text \<open>
  \<open>internal/collectors\<close>: the \<open>Event\<close> struct every collector emits, \<open>NewEvent\<close>, the UUID generator
  and the JSON form of an event.  A Go map with string keys is kept as its association list in
  ascending key order without duplicates (\<open>canonical\<close>), which is also the order \<open>json.Marshal\<close>
  prints it in; \<open>None\<close> is the nil map.
\<close>

subsection \<open>Go maps with string keys\<close>

type_synonym 'a gomap = "(string \<times> 'a) list"

fun map_put :: "string \<Rightarrow> 'a \<Rightarrow> 'a gomap \<Rightarrow> 'a gomap" where
  "map_put k v [] = [(k, v)]"
| "map_put k v ((k', v') # m) =
     (if k < k' then (k, v) # (k', v') # m
      else if k = k' then (k, v) # m
      else (k', v') # map_put k v m)"

definition canonical :: "'a gomap \<Rightarrow> bool" where
  "canonical m \<longleftrightarrow> sorted_wrt (<) (map fst m)"

definition put_all :: "'a gomap \<Rightarrow> (string \<times> 'a) list \<Rightarrow> 'a gomap" where
  "put_all m kvs = foldl (\<lambda>m (k, v). map_put k v m) m kvs"

lemma map_of_map_put [simp]: "map_of (map_put k v m) = (map_of m)(k \<mapsto> v)"
  by (induction k v m rule: map_put.induct) auto

lemma set_map_put: "set (map_put k v m) \<subseteq> insert (k, v) (set m)"
  by (induction k v m rule: map_put.induct) auto

lemma keys_map_put: "fst ` set (map_put k v m) = insert k (fst ` set m)"
  by (induction k v m rule: map_put.induct) auto

lemma canonical_map_put: "canonical m \<Longrightarrow> canonical (map_put k v m)"
proof (induction k v m rule: map_put.induct)
  case (2 k v k' v' m)
  then show ?case
    using keys_map_put [of k v m] by (fastforce simp: canonical_def image_iff)
qed (simp add: canonical_def)

lemma canonical_Nil [simp]: "canonical []"
  by (simp add: canonical_def)

lemma canonical_put_all: "canonical m \<Longrightarrow> canonical (put_all m kvs)"
  by (induction kvs arbitrary: m) (auto simp: put_all_def canonical_map_put)

lemma map_put_greatest: "\<forall>k'\<in>fst ` set m. k' < k \<Longrightarrow> map_put k v m = m @ [(k, v)]"
  by (induction k v m rule: map_put.induct) (auto simp: not_less_iff_gr_or_eq)

lemma put_all_append:
  "canonical (m @ kvs) \<Longrightarrow> put_all m kvs = m @ kvs"
proof (induction kvs arbitrary: m)
  case (Cons kv kvs)
  obtain k v where kv: "kv = (k, v)" by force
  have "\<forall>k'\<in>fst ` set m. k' < k"
    using Cons.prems kv by (auto simp: canonical_def sorted_wrt_append)
  then have "map_put k v m = m @ [kv]" using kv by (simp add: map_put_greatest)
  moreover have "put_all (m @ [kv]) kvs = (m @ [kv]) @ kvs" using Cons by simp
  ultimately show ?case by (simp add: put_all_def kv)
qed (simp add: put_all_def)

lemma put_all_canonical: "canonical m \<Longrightarrow> put_all [] m = m"
  using put_all_append [of "[]" m] by simp

text \<open>
  Decoding into \<open>any\<close> turns a number into a \<open>float64\<close>; the model keeps the literal, but rejects, as Go
  does, a number too large for one (one that rounds to at least \<open>2 ^ 1024\<close>).
\<close>

definition parse_exponent :: "string \<Rightarrow> int" where
  "parse_exponent e =
     (case e of [] \<Rightarrow> 0
      | c # ds \<Rightarrow> if c = CHR ''-'' then - int (dval ds) else if c = CHR ''+'' then int (dval ds) else int (dval (c # ds)))"

definition num_in_range :: "string \<Rightarrow> bool" where
  "num_in_range t =
     (let s = (if t \<noteq> [] \<and> hd t = CHR ''-'' then tl t else t);
          m = takeWhile (\<lambda>c. c \<noteq> CHR ''e'' \<and> c \<noteq> CHR ''E'') s;
          e = parse_exponent (drop (length m + 1) s);
          ip = takeWhile (\<lambda>c. c \<noteq> CHR ''.'') m;
          fp = drop (length ip + 1) m;
          d = dval (ip @ fp);
          k = e - int (length fp);
          bound = 2 ^ 1024 - 2 ^ 970
      in if 0 \<le> k then d * 10 ^ nat k < bound else d < bound * 10 ^ nat (- k))"

primrec any_ok :: "json \<Rightarrow> bool" where
  "any_ok JNull = True"
| "any_ok (JBool b) = True"
| "any_ok (JNum t) = num_in_range t"
| "any_ok (JStr s) = True"
| "any_ok (JArr js) = list_all id (map any_ok js)"
| "any_ok (JObj ms) = list_all snd (map (map_prod id any_ok) ms)"

text \<open>The \<open>any\<close> value of a JSON text: every object becomes a map.\<close>

primrec to_any :: "json \<Rightarrow> json" where
  "to_any JNull = JNull"
| "to_any (JBool b) = JBool b"
| "to_any (JNum t) = JNum t"
| "to_any (JStr s) = JStr s"
| "to_any (JArr js) = JArr (map to_any js)"
| "to_any (JObj ms) = JObj (put_all [] (map (map_prod id to_any) ms))"

primrec json_canon :: "json \<Rightarrow> bool" where
  "json_canon JNull = True"
| "json_canon (JBool b) = True"
| "json_canon (JNum t) = True"
| "json_canon (JStr s) = True"
| "json_canon (JArr js) = list_all id (map json_canon js)"
| "json_canon (JObj ms) = (canonical ms \<and> list_all snd (map (map_prod id json_canon) ms))"

lemma to_any_canon: "json_canon j \<Longrightarrow> to_any j = j"
proof (induction j)
  case (JArr js)
  then show ?case by (auto simp: list_all_iff intro: map_idI)
next
  case (JObj ms)
  have "map (map_prod id to_any) ms = ms"
    using JObj by (intro map_idI) (fastforce simp: list_all_iff)
  with JObj.prems show ?case by (simp add: put_all_canonical)
qed simp_all

subsection \<open>Events\<close>

record event =
  ID :: string
  Source :: string
  Timestamp :: time
  CollectedAt :: time
  Host :: string
  Payload :: "json gomap option"

text \<open>\<open>resolveHostname\<close>: the result of \<open>os.Hostname\<close>, an error being \<open>None\<close>.\<close>

definition resolveHostname :: "string option \<Rightarrow> string" where
  "resolveHostname h = (case h of None \<Rightarrow> ''unknown'' | Some s \<Rightarrow> if s = [] then ''unknown'' else s)"

type_synonym octet = "8 word"

definition hex_byte :: "octet \<Rightarrow> string" where
  "hex_byte b = [hex_digit (unat b div 16), hex_digit (unat b mod 16)]"

definition hex_encode :: "octet list \<Rightarrow> string" where
  "hex_encode bs = concat (map hex_byte bs)"

text \<open>
  \<open>newUUID\<close> on the 16 bytes \<open>crypto/rand\<close> delivered; \<open>None\<close> when the generator failed, where the
  code panics.
\<close>

definition stamp_uuid :: "octet list \<Rightarrow> octet list" where
  "stamp_uuid b = b[6 := (b ! 6 AND 0x0f) OR 0x40, 8 := (b ! 8 AND 0x3f) OR 0x80]"

definition newUUID :: "octet list option \<Rightarrow> string option" where
  "newUUID r =
     (case r of
        None \<Rightarrow> None
      | Some b0 \<Rightarrow>
          let b = stamp_uuid b0
          in Some (hex_encode (take 4 b) @ ''-'' @ hex_encode (take 2 (drop 4 b)) @ ''-''
               @ hex_encode (take 2 (drop 6 b)) @ ''-'' @ hex_encode (take 2 (drop 8 b)) @ ''-''
               @ hex_encode (drop 10 b)))"

text \<open>\<open>NewEvent\<close>, given the random bytes, the clock reading and the host name it uses.\<close>

definition NewEvent ::
  "octet list option \<Rightarrow> time \<Rightarrow> string \<Rightarrow> string \<Rightarrow> time \<Rightarrow> json gomap \<Rightarrow> event option" where
  "NewEvent rnd now host src ts pl =
     map_option (\<lambda>u. \<lparr>ID = u, Source = src, Timestamp = ts, CollectedAt = now, Host = host, Payload = Some pl\<rparr>)
       (newUUID rnd)"

subsection \<open>Events as JSON\<close>

definition payload_json :: "json gomap option \<Rightarrow> json" where
  "payload_json p = (case p of None \<Rightarrow> JNull | Some m \<Rightarrow> JObj m)"

definition event_json :: "event \<Rightarrow> json option" where
  "event_json e = do {
     ts \<leftarrow> format_time (Timestamp e);
     ca \<leftarrow> format_time (CollectedAt e);
     Some (JObj [(''id'', JStr (ID e)), (''source'', JStr (Source e)), (''timestamp'', JStr ts),
       (''collected_at'', JStr ca), (''host'', JStr (Host e)), (''payload'', payload_json (Payload e))]) }"

definition marshal_event :: "event \<Rightarrow> bytes option" where
  "marshal_event e = map_option print_json (event_json e)"

definition ascii_lower :: "char \<Rightarrow> char" where
  "ascii_lower c = (if 65 \<le> byte c \<and> byte c \<le> 90 then char_of (byte c + 32) else c)"

text \<open>
  A member name matches a field whatever its case; two further letters fold to ASCII ones, the long s
  (U+017F) and the Kelvin sign (U+212A).
\<close>

fun fold_key :: "string \<Rightarrow> string" where
  "fold_key (a # b # c # s) =
     (if byte a = 0xC5 \<and> byte b = 0xBF then CHR ''s'' # fold_key (c # s)
      else if byte a = 0xE2 \<and> byte b = 0x84 \<and> byte c = 0xAA then CHR ''k'' # fold_key s
      else ascii_lower a # fold_key (b # c # s))"
| "fold_key [a, b] = (if byte a = 0xC5 \<and> byte b = 0xBF then ''s'' else [ascii_lower a, ascii_lower b])"
| "fold_key [a] = [ascii_lower a]"
| "fold_key [] = []"

definition key_is :: "string \<Rightarrow> string \<Rightarrow> bool" where
  "key_is k f \<longleftrightarrow> fold_key k = f"

text \<open>Decoding into a struct field: \<open>null\<close> leaves it alone, a wrong type is an error.\<close>

definition into_string :: "string \<Rightarrow> json \<Rightarrow> string option" where
  "into_string old j = (case j of JStr s \<Rightarrow> Some s | JNull \<Rightarrow> Some old | _ \<Rightarrow> None)"

definition into_time :: "time \<Rightarrow> json \<Rightarrow> time option" where
  "into_time old j = (case j of JStr s \<Rightarrow> parse_time s | JNull \<Rightarrow> Some old | _ \<Rightarrow> None)"

definition into_map :: "json gomap option \<Rightarrow> json \<Rightarrow> json gomap option option" where
  "into_map old j =
     (case j of
        JObj ms \<Rightarrow>
          if \<not> any_ok j then None
          else Some (Some (put_all (case old of None \<Rightarrow> [] | Some m \<Rightarrow> m) (map (map_prod id to_any) ms)))
      | JNull \<Rightarrow> Some None
      | _ \<Rightarrow> None)"

definition decode_member :: "event \<Rightarrow> string \<times> json \<Rightarrow> event option" where
  "decode_member e kv =
     (let k = fst kv; j = snd kv in
      if key_is k ''id'' then map_option (\<lambda>s. e\<lparr>ID := s\<rparr>) (into_string (ID e) j)
      else if key_is k ''source'' then map_option (\<lambda>s. e\<lparr>Source := s\<rparr>) (into_string (Source e) j)
      else if key_is k ''timestamp'' then map_option (\<lambda>t. e\<lparr>Timestamp := t\<rparr>) (into_time (Timestamp e) j)
      else if key_is k ''collected_at'' then map_option (\<lambda>t. e\<lparr>CollectedAt := t\<rparr>) (into_time (CollectedAt e) j)
      else if key_is k ''host'' then map_option (\<lambda>s. e\<lparr>Host := s\<rparr>) (into_string (Host e) j)
      else if key_is k ''payload'' then map_option (\<lambda>p. e\<lparr>Payload := p\<rparr>) (into_map (Payload e) j)
      else Some e)"

fun decode_members :: "event \<Rightarrow> (string \<times> json) list \<Rightarrow> event option" where
  "decode_members e [] = Some e"
| "decode_members e (m # ms) = Option.bind (decode_member e m) (\<lambda>e'. decode_members e' ms)"

text \<open>The zero \<open>Event\<close>; Go's zero time is the first instant of the year 1.\<close>

definition zero_event :: event where
  "zero_event = \<lparr>ID = [], Source = [], Timestamp = - 62135596800 * ns_per_s,
     CollectedAt = - 62135596800 * ns_per_s, Host = [], Payload = None\<rparr>"

definition unmarshal_event :: "bytes \<Rightarrow> event option" where
  "unmarshal_event b =
     (case json_parse b of
        Some (JObj ms) \<Rightarrow> decode_members zero_event ms
      | Some JNull \<Rightarrow> Some zero_event
      | _ \<Rightarrow> None)"

text \<open>What an event must satisfy to survive the trip through JSON unchanged.\<close>

definition payload_ok :: "json gomap option \<Rightarrow> bool" where
  "payload_ok p = (case p of None \<Rightarrow> True | Some m \<Rightarrow> json_ok (JObj m) \<and> json_canon (JObj m) \<and> any_ok (JObj m))"

definition event_ok :: "event \<Rightarrow> bool" where
  "event_ok e \<longleftrightarrow> utf8_ok (ID e) \<and> utf8_ok (Source e) \<and> utf8_ok (Host e) \<and> payload_ok (Payload e)"

lemma ascii_time: "format_time t = Some s \<Longrightarrow> utf8_ok s"
  using format_time_chars [of t s] by (intro utf8_ok_ascii) (auto simp: ascii_def is_digit_def)

lemma keys_ascii [simp]:
  "utf8_ok ''id''" "utf8_ok ''source''" "utf8_ok ''timestamp''" "utf8_ok ''collected_at''"
  "utf8_ok ''host''" "utf8_ok ''payload''"
  by (auto intro!: utf8_ok_ascii simp: ascii_def)

lemma key_is_own [simp]:
  "key_is ''id'' ''id''" "key_is ''source'' ''source''" "key_is ''timestamp'' ''timestamp''"
  "key_is ''collected_at'' ''collected_at''" "key_is ''host'' ''host''" "key_is ''payload'' ''payload''"
  by (simp_all add: key_is_def ascii_lower_def)

lemma into_map_payload: "payload_ok p \<Longrightarrow> into_map None (payload_json p) = Some p"
proof (cases p)
  case (Some m)
  assume "payload_ok p"
  then have c: "json_canon (JObj m)" "any_ok (JObj m)" using Some by (simp_all add: payload_ok_def)
  from c(1) have "to_any (JObj m) = JObj m" by (rule to_any_canon)
  then show ?thesis using Some c(2) by (simp add: into_map_def payload_json_def)
qed (simp add: into_map_def payload_json_def)

lemma json_ok_payload: "payload_ok p \<Longrightarrow> json_ok (payload_json p)"
  by (auto simp: payload_ok_def payload_json_def split: option.splits)

lemma unmarshal_marshal_event:
  assumes "event_ok e" and "marshal_event e = Some b"
  shows "unmarshal_event b = Some e"
proof -
  from assms(2) obtain ts ca where ts: "format_time (Timestamp e) = Some ts"
    and ca: "format_time (CollectedAt e) = Some ca"
    and b: "b = print_json (JObj [(''id'', JStr (ID e)), (''source'', JStr (Source e)), (''timestamp'', JStr ts),
       (''collected_at'', JStr ca), (''host'', JStr (Host e)), (''payload'', payload_json (Payload e))])"
      (is "_ = print_json ?j")
    by (auto simp: marshal_event_def event_json_def split: bind_splits)
  have ok: "utf8_ok (ID e)" "utf8_ok (Source e)" "utf8_ok (Host e)" "payload_ok (Payload e)"
    using assms(1) by (simp_all add: event_ok_def)
  have "json_ok ?j" using ok ascii_time [OF ts] ascii_time [OF ca] by (simp add: json_ok_payload)
  then have "json_parse b = Some ?j" unfolding b by (rule json_parse_print)
  then show ?thesis
    using parse_format_time [OF ts] parse_format_time [OF ca] into_map_payload [OF ok(4)]
    by (simp add: unmarshal_event_def decode_member_def Let_def key_is_def ascii_lower_def
        into_string_def into_time_def zero_event_def)
qed

end
