(* ===== verification/Go_Path.thy ===== *)
theory Go_Path
  imports Go_Strings
begin

text \<open>
  Go's \<open>path/filepath\<close> on Unix: \<open>Clean\<close>, \<open>Join\<close>, \<open>Base\<close> and \<open>Dir\<close>, lexically as the
  package does it, and the facts the components need: joining a cleaned directory and a plain
  name is injective in the name, and \<open>Base\<close> and \<open>Dir\<close> take the two apart again.
\<close>

abbreviation slash :: char where "slash \<equiv> CHR ''/''"

text \<open>One path element pushed on the (reversed) stack of kept elements.\<close>

definition push_elem :: "bool \<Rightarrow> string list \<Rightarrow> string \<Rightarrow> string list" where
  "push_elem rooted st c =
     (if c = [] \<or> c = ''.'' then st
      else if c = ''..'' then
        (case st of [] \<Rightarrow> (if rooted then [] else [''..''])
         | t # rest \<Rightarrow> if t = ''..'' then ''..'' # st else rest)
      else c # st)"

definition render_path :: "bool \<Rightarrow> string list \<Rightarrow> string" where
  "render_path rooted cs =
     (if rooted then slash # join_with [slash] cs else if cs = [] then ''.'' else join_with [slash] cs)"

definition clean :: "string \<Rightarrow> string" where
  "clean p =
     (if p = [] then ''.''
      else let rooted = (hd p = slash)
           in render_path rooted (rev (foldl (push_elem rooted) [] (split_on slash p))))"

fun join_path :: "string list \<Rightarrow> string" where
  "join_path [] = []"
| "join_path (e # es) = (if e = [] then join_path es else clean (join_with [slash] (e # es)))"

declare join_path.simps [simp del]

definition base_name :: "string \<Rightarrow> string" where
  "base_name p =
     (if p = [] then ''.''
      else let q = trim_right_char slash p
           in if q = [] then [slash] else last (split_on slash q))"

definition dir_name :: "string \<Rightarrow> string" where
  "dir_name p = clean (rev (dropWhile (\<lambda>c. c \<noteq> slash) (rev p)))"

subsection \<open>Normal stacks\<close>

definition plain_elem :: "string \<Rightarrow> bool" where
  "plain_elem c \<longleftrightarrow> c \<noteq> [] \<and> c \<noteq> ''.'' \<and> slash \<notin> set c"

text \<open>A name that can be an entry of a directory.\<close>

definition valid_name :: "string \<Rightarrow> bool" where
  "valid_name n \<longleftrightarrow> plain_elem n \<and> n \<noteq> ''..''"

fun normal_stack :: "bool \<Rightarrow> string list \<Rightarrow> bool" where
  "normal_stack rooted [] = True"
| "normal_stack rooted (c # st) =
     (plain_elem c \<and> normal_stack rooted st \<and> (c = ''..'' \<longrightarrow> \<not> rooted \<and> list_all (\<lambda>d. d = ''..'') st))"

lemma normal_push: "normal_stack rooted st \<Longrightarrow> slash \<notin> set c \<Longrightarrow> normal_stack rooted (push_elem rooted st c)"
  by (cases st) (auto simp: push_elem_def plain_elem_def)

lemma normal_foldl:
  "normal_stack rooted st \<Longrightarrow> \<forall>c\<in>set cs. slash \<notin> set c \<Longrightarrow> normal_stack rooted (foldl (push_elem rooted) st cs)"
  by (induction cs arbitrary: st) (auto simp: normal_push)

lemma push_normal: "normal_stack rooted (c # st) \<Longrightarrow> push_elem rooted st c = c # st"
  by (cases st) (auto simp: push_elem_def plain_elem_def)

lemma foldl_push_normal: "normal_stack rooted (rev cs) \<Longrightarrow> foldl (push_elem rooted) [] cs = rev cs"
proof (induction cs rule: rev_induct)
  case (snoc c cs)
  then have "normal_stack rooted (c # rev cs)" and "foldl (push_elem rooted) [] cs = rev cs" by simp_all
  then show ?case by (simp add: push_normal del: normal_stack.simps)
qed simp

lemma normal_plain: "normal_stack rooted st \<Longrightarrow> c \<in> set st \<Longrightarrow> plain_elem c"
  by (induction st) auto

lemma normal_join_split:
  assumes "normal_stack rooted (rev cs)" and "cs \<noteq> []"
  shows "split_on slash (join_with [slash] cs) = cs"
  by (rule split_on_join) (use assms normal_plain in \<open>auto simp: plain_elem_def\<close>)

lemma normal_join_head:
  assumes "normal_stack rooted (rev cs)" and "cs \<noteq> []"
  shows "join_with [slash] cs \<noteq> [] \<and> hd (join_with [slash] cs) \<noteq> slash"
proof -
  have "plain_elem (hd cs)" using assms normal_plain [of rooted "rev cs" "hd cs"] by simp
  then have "hd cs \<noteq> []" "hd (hd cs) \<noteq> slash" by (auto simp: plain_elem_def) (metis hd_in_set)
  with join_with_hd [OF assms(2), of "[slash]"] show ?thesis by simp
qed

lemma clean_render:
  assumes "normal_stack rooted (rev cs)"
  shows "clean (render_path rooted cs) = render_path rooted cs"
proof (cases "cs = []")
  case True
  then show ?thesis by (auto simp: clean_def render_path_def push_elem_def Let_def)
next
  case False
  note sp = normal_join_split [OF assms False] and hd = normal_join_head [OF assms False]
  show ?thesis
  proof (cases rooted)
    case True
    then show ?thesis
      using assms sp
      by (auto simp: clean_def render_path_def Let_def push_elem_def foldl_push_normal)
  next
    case nr: False
    then show ?thesis
      using False assms sp hd by (auto simp: clean_def render_path_def Let_def foldl_push_normal)
  qed
qed

definition is_clean :: "string \<Rightarrow> bool" where
  "is_clean d \<longleftrightarrow> d \<noteq> [] \<and> clean d = d"

lemma clean_form: "\<exists>rooted cs. clean p = render_path rooted cs \<and> normal_stack rooted (rev cs)"
proof (cases "p = []")
  case True
  then have "clean p = render_path False []" by (simp add: clean_def render_path_def)
  then show ?thesis by fastforce
next
  case False
  let ?r = "hd p = slash" and ?st = "foldl (push_elem (hd p = slash)) [] (split_on slash p)"
  have "normal_stack ?r ?st" by (rule normal_foldl) (auto dest: split_on_parts)
  then show ?thesis using False
    by (intro exI [of _ ?r] exI [of _ "rev ?st"]) (simp add: clean_def Let_def)
qed

lemma render_nonempty: "normal_stack rooted (rev cs) \<Longrightarrow> render_path rooted cs \<noteq> []"
  using normal_join_head [of rooted cs] by (auto simp: render_path_def)

lemma is_clean_clean [simp]: "is_clean (clean p)"
proof -
  obtain rooted cs where "clean p = render_path rooted cs" "normal_stack rooted (rev cs)"
    using clean_form by blast
  then show ?thesis by (simp add: is_clean_def clean_render render_nonempty)
qed

lemma is_clean_form: "is_clean d \<Longrightarrow> \<exists>rooted cs. d = render_path rooted cs \<and> normal_stack rooted (rev cs)"
  using clean_form [of d] by (auto simp: is_clean_def)

subsection \<open>A cleaned directory and a name\<close>

definition dir_prefix :: "string \<Rightarrow> string" where
  "dir_prefix d = (if d = ''.'' then [] else if d = [slash] then [slash] else d @ [slash])"

lemma render_snoc:
  assumes "normal_stack rooted (rev cs)" and "plain_elem n"
  shows "render_path rooted (cs @ [n]) = dir_prefix (render_path rooted cs) @ n"
proof (cases "cs = []")
  case True
  then show ?thesis by (auto simp: render_path_def dir_prefix_def)
next
  case False
  note hd = normal_join_head [OF assms(1) False] and sp = normal_join_split [OF assms(1) False]
  have "join_with [slash] cs \<noteq> ''.''"
  proof
    assume "join_with [slash] cs = ''.''"
    with sp have "cs = [''.'']" by simp
    with assms(1) show False by (simp add: plain_elem_def)
  qed
  with False hd show ?thesis
    by (auto simp: render_path_def dir_prefix_def join_with_snoc)
qed

lemma normal_stack_snoc:
  "normal_stack rooted (rev cs) \<Longrightarrow> valid_name n \<Longrightarrow> normal_stack rooted (rev (cs @ [n]))"
  by (simp add: valid_name_def)

lemma clean_slash_name:
  assumes "normal_stack rooted (rev cs)" and "valid_name n"
  shows "clean (render_path rooted cs @ slash # n) = render_path rooted (cs @ [n])"
proof -
  let ?d = "render_path rooted cs"
  have n: "slash \<notin> set n" using assms(2) by (simp add: valid_name_def plain_elem_def)
  have ne: "?d \<noteq> []" by (rule render_nonempty [OF assms(1)])
  have hd: "hd (?d @ slash # n) = slash \<longleftrightarrow> rooted"
    using ne normal_join_head [OF assms(1)] by (cases "cs = []") (auto simp: render_path_def)
  have f: "foldl (push_elem rooted) [] (split_on slash ?d) = rev cs"
    using assms(1) normal_join_split [OF assms(1)]
    by (cases "cs = []") (auto simp: render_path_def push_elem_def foldl_push_normal)
  have "foldl (push_elem rooted) [] (split_on slash (?d @ slash # n)) = n # rev cs"
    using f n assms(2)
    by (simp add: split_on_append split_on_no_sep push_elem_def valid_name_def plain_elem_def)
  with hd show ?thesis by (simp add: clean_def Let_def)
qed

lemma join_path_name [path_simps]:
  assumes "is_clean d" and "valid_name n"
  shows "join_path [d, n] = dir_prefix d @ n"
proof -
  obtain rooted cs where d: "d = render_path rooted cs" and ns: "normal_stack rooted (rev cs)"
    using is_clean_form [OF assms(1)] by blast
  have "join_path [d, n] = clean (d @ slash # n)" using assms(1) by (simp add: is_clean_def join_path.simps)
  also have "\<dots> = render_path rooted (cs @ [n])" using clean_slash_name [OF ns assms(2)] d by simp
  also have "\<dots> = dir_prefix d @ n"
    using render_snoc [OF ns] assms(2) d by (simp add: valid_name_def)
  finally show ?thesis .
qed

lemma is_clean_join: "is_clean d \<Longrightarrow> valid_name n \<Longrightarrow> is_clean (join_path [d, n])"
  by (simp add: is_clean_def [of d] join_path.simps)

text \<open>Joining onto a directory cleans it.\<close>

lemma join_path_clean: "valid_name n \<Longrightarrow> join_path [clean d, n] = join_path [d, n]"
proof -
  assume n: "valid_name n"
  then have sl: "slash \<notin> set n" and ne: "n \<noteq> []" by (simp_all add: valid_name_def plain_elem_def)
  show ?thesis
  proof (cases "d = []")
    case True
    have "clean n = n"
      using sl ne n by (cases n)
        (auto simp: clean_def split_on_no_sep push_elem_def render_path_def Let_def valid_name_def plain_elem_def)
    moreover have "join_path [clean [], n] = dir_prefix (clean []) @ n"
      by (rule join_path_name) (simp_all add: n)
    moreover have "dir_prefix (clean []) = []" by (simp add: clean_def dir_prefix_def)
    moreover have "join_path [[], n] = clean n" using ne by (simp add: join_path.simps)
    ultimately show ?thesis using True by simp
  next
    case False
    let ?r = "hd d = slash"
    let ?st = "foldl (push_elem ?r) [] (split_on slash d)"
    have ns: "normal_stack ?r (rev (rev ?st))"
      using normal_foldl [of ?r "[]" "split_on slash d"] by (auto dest: split_on_parts)
    have cd: "clean d = render_path ?r (rev ?st)" using False by (simp add: clean_def Let_def)
    have "join_path [clean d, n] = render_path ?r (rev ?st @ [n])"
    proof -
      have "join_path [clean d, n] = dir_prefix (clean d) @ n" by (rule join_path_name) (simp_all add: n)
      moreover have "plain_elem n" using n by (simp add: valid_name_def)
      ultimately show ?thesis using render_snoc [OF ns] cd by simp
    qed
    moreover have "join_path [d, n] = clean (d @ slash # n)" using False by (simp add: join_path.simps)
    moreover have "clean (d @ slash # n) = render_path ?r (rev ?st @ [n])"
    proof -
      have "push_elem ?r ?st n = n # ?st"
        using n by (simp add: push_elem_def valid_name_def plain_elem_def)
      then show ?thesis
        using False sl by (simp add: clean_def Let_def split_on_append split_on_no_sep)
    qed
    ultimately show ?thesis by simp
  qed
qed

lemma join_path_inj:
  "is_clean d \<Longrightarrow> valid_name m \<Longrightarrow> valid_name n \<Longrightarrow> join_path [d, m] = join_path [d, n] \<longleftrightarrow> m = n"
  by (simp add: join_path_name)

lemma clean_dir_prefix:
  assumes "is_clean d"
  shows "clean (dir_prefix d) = d"
proof -
  obtain rooted cs where d: "d = render_path rooted cs" and ns: "normal_stack rooted (rev cs)"
    using is_clean_form [OF assms] by blast
  show ?thesis
  proof (cases "d = ''.'' \<or> d = [slash]")
    case True
    then show ?thesis by (auto simp: dir_prefix_def clean_def render_path_def push_elem_def Let_def)
  next
    case False
    then have cs: "cs \<noteq> []" using d by (auto simp: render_path_def split: if_splits)
    have hd: "hd (d @ [slash]) = slash \<longleftrightarrow> rooted" "d \<noteq> []"
      using d cs normal_join_head [OF ns cs] by (auto simp: render_path_def)
    have "foldl (push_elem rooted) [] (split_on slash (d @ [slash])) = rev cs"
      using ns d cs normal_join_split [OF ns cs]
      by (auto simp: split_on_append render_path_def push_elem_def foldl_push_normal)
    with hd d False show ?thesis by (simp add: dir_prefix_def clean_def Let_def)
  qed
qed

lemma dir_prefix_last: "dir_prefix d = [] \<or> last (dir_prefix d) = slash"
  by (auto simp: dir_prefix_def)

lemma dropWhile_rev_name:
  assumes "p = [] \<or> last p = slash" and "slash \<notin> set n"
  shows "dropWhile (\<lambda>c. c \<noteq> slash) (rev (p @ n)) = rev p"
proof -
  have n: "\<forall>c\<in>set (rev n). c \<noteq> slash" using assms(2) by auto
  show ?thesis
  proof (cases "p = []")
    case False
    then obtain q where "p = q @ [slash]" using assms(1) by (metis append_butlast_last_id)
    with dropWhile_append_stop [OF n, of slash "rev q"] show ?thesis by simp
  qed (use n in \<open>auto simp: dropWhile_eq_Nil_conv\<close>)
qed

lemma dir_name_join [path_simps]:
  assumes "is_clean d" and "valid_name n"
  shows "dir_name (join_path [d, n]) = d"
proof -
  have "slash \<notin> set n" using assms(2) by (simp add: valid_name_def plain_elem_def)
  then have "dropWhile (\<lambda>c. c \<noteq> slash) (rev (dir_prefix d @ n)) = rev (dir_prefix d)"
    by (rule dropWhile_rev_name [OF dir_prefix_last])
  then show ?thesis
    using assms clean_dir_prefix by (simp add: join_path_name dir_name_def)
qed

lemma base_name_join [path_simps]:
  assumes "is_clean d" and "valid_name n"
  shows "base_name (join_path [d, n]) = n"
proof -
  have n: "n \<noteq> []" "slash \<notin> set n" using assms(2) by (auto simp: valid_name_def plain_elem_def)
  then have "last (dir_prefix d @ n) \<noteq> slash" by (metis last_appendR last_in_set)
  then have "trim_right_char slash (dir_prefix d @ n) = dir_prefix d @ n" by (simp add: trim_right_char_id)
  moreover have "last (split_on slash (dir_prefix d @ n)) = n"
    using n dir_prefix_last [of d]
    by (cases "dir_prefix d" rule: rev_cases) (auto simp: split_on_append split_on_no_sep)
  ultimately show ?thesis using assms n by (simp add: join_path_name base_name_def Let_def)
qed

text \<open>The name under which a path is an entry of a directory, if it is one.\<close>

definition child_name :: "string \<Rightarrow> string \<Rightarrow> string option" where
  "child_name d p =
     (let pre = dir_prefix d; n = drop (length pre) p
      in if has_prefix p pre \<and> valid_name n then Some n else None)"

lemma child_name_iff: "is_clean d \<Longrightarrow> child_name d p = Some n \<longleftrightarrow> valid_name n \<and> p = join_path [d, n]"
  by (auto simp: child_name_def Let_def has_prefix_iff join_path_name)

lemma valid_name_append: "valid_name n \<Longrightarrow> slash \<notin> set s \<Longrightarrow> length (n @ s) > 2 \<Longrightarrow> valid_name (n @ s)"
  by (auto simp: valid_name_def plain_elem_def dest: arg_cong [of _ _ length])

end
