(* ===== verification/Go_World.thy ===== *)
theory Go_World
  imports Go_Path "HOL-Library.Word"
begin

unbundle bit_operations_syntax

text \<open>
  The operating system as the agent sees it: a table of files and directories keyed by cleaned
  path, the calls of package \<open>os\<close> the code makes, the wall clock, and an environment that may make
  any call fail or stop the machine in the middle of it.

  Each system call has a number (\<open>w_tick\<close>).  The environment's decision for call \<open>n\<close> is
  \<open>w_fault w n\<close>: the call goes through, fails with an I/O error (a \<open>WriteFile\<close> may leave part of
  the data), or the process dies in it (again possibly after a partial write); after that no call
  has an effect until the machine is restarted.  Theorems quantify over \<open>w_fault\<close>, so they hold
  for every pattern of failures and for a crash at every point.  One process uses the files;
  interference by others, hard links and symbolic links are outside the model, and paths are the
  cleaned strings the code uses (a file is not reached under two spellings).
\<close>

type_synonym perm = "9 word"

record attr =
  a_perm :: perm
  a_owner :: "int \<times> int"

datatype node = Dir attr | File attr bytes

datatype errno = ENOENT | ENOTDIR | EISDIR | ENOTEMPTY | EIO nat | EHALT

datatype fault = Go | IOErr nat nat | Halt nat

type_synonym ftable = "(string \<times> node) list"

record world =
  w_files :: ftable
  w_umask :: perm
  w_ids :: "int \<times> int"
  w_tick :: nat
  w_fault :: "nat \<Rightarrow> fault"
  w_crashed :: bool
  w_clock :: "nat \<Rightarrow> int"

subsection \<open>Looking things up\<close>

abbreviation lookup :: "world \<Rightarrow> string \<Rightarrow> node option" where
  "lookup w p \<equiv> map_of (w_files w) p"

definition is_dir_in :: "ftable \<Rightarrow> string \<Rightarrow> bool" where
  "is_dir_in t p \<longleftrightarrow> p = [slash] \<or> p = ''.'' \<or> (\<exists>a. map_of t p = Some (Dir a))"

lemma is_dir_in_code [code]:
  "is_dir_in t p \<longleftrightarrow> p = [slash] \<or> p = ''.'' \<or>
     (case map_of t p of Some (Dir a) \<Rightarrow> True | _ \<Rightarrow> False)"
  by (auto simp: is_dir_in_def split: option.splits node.splits)

definition names_in :: "ftable \<Rightarrow> string \<Rightarrow> string list" where
  "names_in t d = sort (remdups (List.map_filter (child_name d) (map fst t)))"

lemma set_map_filter_iff: "y \<in> set (List.map_filter f xs) \<longleftrightarrow> (\<exists>x\<in>set xs. f x = Some y)"
  by (induction xs) (auto simp: map_filter_simps split: option.splits)

lemma mem_names_in:
  assumes "is_clean d"
  shows "n \<in> set (names_in t d) \<longleftrightarrow> valid_name n \<and> map_of t (join_path [d, n]) \<noteq> None"
proof -
  have "n \<in> set (names_in t d) \<longleftrightarrow> (\<exists>p\<in>fst ` set t. child_name d p = Some n)"
    by (simp add: names_in_def set_map_filter_iff)
  also have "\<dots> \<longleftrightarrow> valid_name n \<and> join_path [d, n] \<in> fst ` set t"
    by (metis (no_types) child_name_iff [OF assms])
  finally show ?thesis by (simp only: keys_iff_map_of)
qed

lemma sorted_names_in [simp]: "sorted (names_in t d)"
  by (simp add: names_in_def)

lemma distinct_names_in [simp]: "distinct (names_in t d)"
  by (simp add: names_in_def)

subsection \<open>System calls\<close>

definition sys ::
  "(world \<Rightarrow> errno + 'a) \<Rightarrow> (world \<Rightarrow> ftable) \<Rightarrow> (nat \<Rightarrow> world \<Rightarrow> ftable) \<Rightarrow> world \<Rightarrow> (errno + 'a) \<times> world"
where
  "sys act eff part w =
     (let w1 = w\<lparr>w_tick := Suc (w_tick w)\<rparr> in
      if w_crashed w then (Inl EHALT, w1)
      else case w_fault w (w_tick w) of
          Go \<Rightarrow> (case act w of Inl e \<Rightarrow> (Inl e, w1) | Inr a \<Rightarrow> (Inr a, w1\<lparr>w_files := eff w\<rparr>))
        | IOErr e n \<Rightarrow> (Inl (EIO e), w1\<lparr>w_files := part n w\<rparr>)
        | Halt n \<Rightarrow> (Inl EHALT, w1\<lparr>w_files := part n w, w_crashed := True\<rparr>))"

abbreviation no_part :: "nat \<Rightarrow> world \<Rightarrow> ftable" where
  "no_part \<equiv> \<lambda>_ w. w_files w"

text \<open>\<open>os.ReadDir\<close>: the entries sorted by name, with their type.  The path may be any spelling.\<close>

definition os_read_dir :: "string \<Rightarrow> world \<Rightarrow> (errno + (string \<times> bool) list) \<times> world" where
  "os_read_dir d =
     sys (\<lambda>w. if d \<noteq> [] \<and> is_dir_in (w_files w) (clean d)
              then Inr (map (\<lambda>n. (n, is_dir_in (w_files w) (join_path [clean d, n])))
                          (names_in (w_files w) (clean d)))
              else if d = [] \<or> lookup w (clean d) = None then Inl ENOENT else Inl ENOTDIR)
         w_files no_part"

text \<open>\<open>os.Stat\<close>, reduced to what the code reads of it: the node.\<close>

definition os_stat :: "string \<Rightarrow> world \<Rightarrow> (errno + node) \<times> world" where
  "os_stat p = sys (\<lambda>w. case lookup w p of None \<Rightarrow> Inl ENOENT | Some nd \<Rightarrow> Inr nd) w_files no_part"

definition os_read_file :: "string \<Rightarrow> world \<Rightarrow> (errno + bytes) \<times> world" where
  "os_read_file p =
     sys (\<lambda>w. case lookup w p of None \<Rightarrow> Inl ENOENT | Some (Dir _) \<Rightarrow> Inl EISDIR | Some (File _ b) \<Rightarrow> Inr b)
         w_files no_part"

text \<open>
  \<open>os.Open\<close> and reading the file to its end, for the one place that keeps what was read before an error: the
  outer error is that of \<open>Open\<close>, the inner one that of a \<open>Read\<close>.  An injected I/O error hits \<open>Open\<close> or a
  \<open>Read\<close> after some bytes; a directory can be opened and not read.
\<close>

definition os_open_read :: "string \<Rightarrow> world \<Rightarrow> (errno + bytes \<times> errno option) \<times> world" where
  "os_open_read p w =
     (case os_read_file p w of
        (Inr b, w1) \<Rightarrow> (Inr (b, None), w1)
      | (Inl e, w1) \<Rightarrow>
          (if e = EISDIR then Inr ([], Some EISDIR)
           else if e = EHALT then Inl EHALT
           else case (lookup w p, w_fault w (w_tick w)) of
               (Some (File _ b), IOErr _ (Suc k)) \<Rightarrow> Inr (take k b, Some e)
             | (Some (Dir _), IOErr _ (Suc k)) \<Rightarrow> Inr ([], Some e)
             | _ \<Rightarrow> Inl e, w1))"

definition os_remove :: "string \<Rightarrow> world \<Rightarrow> (errno + unit) \<times> world" where
  "os_remove p =
     sys (\<lambda>w. case lookup w p of
                None \<Rightarrow> Inl ENOENT
              | Some (File _ _) \<Rightarrow> Inr ()
              | Some (Dir _) \<Rightarrow> (if names_in (w_files w) p = [] then Inr () else Inl ENOTEMPTY))
         (\<lambda>w. AList.delete p (w_files w)) no_part"

text \<open>
  \<open>os.WriteFile\<close> keeps the attributes of an existing file; a new one gets the requested
  permissions less the umask.  A failing call may have written the first bytes.
\<close>

definition put_file :: "string \<Rightarrow> bytes \<Rightarrow> perm \<Rightarrow> world \<Rightarrow> ftable" where
  "put_file p data m w =
     AList.update p
       (File (case lookup w p of
                Some (File a _) \<Rightarrow> a
              | _ \<Rightarrow> \<lparr>a_perm = m AND NOT (w_umask w), a_owner = w_ids w\<rparr>) data) (w_files w)"

definition write_check :: "string \<Rightarrow> world \<Rightarrow> errno + unit" where
  "write_check p w =
     (if \<not> is_dir_in (w_files w) (dir_name p) then Inl ENOENT
      else if is_dir_in (w_files w) p then Inl EISDIR else Inr ())"

definition os_write_file :: "string \<Rightarrow> bytes \<Rightarrow> perm \<Rightarrow> world \<Rightarrow> (errno + unit) \<times> world" where
  "os_write_file p data m =
     sys (write_check p) (put_file p data m)
         (\<lambda>n w. if n = 0 \<or> write_check p w \<noteq> Inr () then w_files w else put_file p (take (n - 1) data) m w)"

text \<open>\<open>os.Rename\<close> of a regular file (the code renames nothing else); the target is replaced atomically.\<close>

definition os_rename :: "string \<Rightarrow> string \<Rightarrow> world \<Rightarrow> (errno + unit) \<times> world" where
  "os_rename old new =
     sys (\<lambda>w. case lookup w old of
                None \<Rightarrow> Inl ENOENT
              | Some (Dir _) \<Rightarrow> Inl EISDIR
              | Some (File _ _) \<Rightarrow> write_check new w)
         (\<lambda>w. AList.update new (the (lookup w old)) (AList.delete old (w_files w))) no_part"

text \<open>\<open>os.MkdirAll\<close>: the missing directories on the way, outermost first.\<close>

definition dir_chain :: "string \<Rightarrow> string list" where
  "dir_chain p =
     (let rooted = (p \<noteq> [] \<and> hd p = slash); cs = filter (\<lambda>c. c \<noteq> []) (split_on slash p)
      in map (\<lambda>k. render_path rooted (take (Suc k) cs)) [0..<length cs])"

definition add_dir :: "attr \<Rightarrow> string \<Rightarrow> ftable \<Rightarrow> ftable" where
  "add_dir a d t = (if is_dir_in t d then t else AList.update d (Dir a) t)"

definition os_mkdir_all :: "string \<Rightarrow> perm \<Rightarrow> world \<Rightarrow> (errno + unit) \<times> world" where
  "os_mkdir_all p m =
     (let new = (\<lambda>w. \<lparr>a_perm = m AND NOT (w_umask w), a_owner = w_ids w\<rparr>)
      in sys (\<lambda>w. if list_all (\<lambda>d. is_dir_in (w_files w) d \<or> lookup w d = None) (dir_chain p)
                  then Inr () else Inl ENOTDIR)
             (\<lambda>w. fold (add_dir (new w)) (dir_chain p) (w_files w))
             (\<lambda>n w. if list_all (\<lambda>d. is_dir_in (w_files w) d \<or> lookup w d = None) (dir_chain p)
                    then fold (add_dir (new w)) (take n (dir_chain p)) (w_files w) else w_files w))"

definition set_attr :: "(attr \<Rightarrow> attr) \<Rightarrow> node \<Rightarrow> node" where
  "set_attr f nd = (case nd of Dir a \<Rightarrow> Dir (f a) | File a b \<Rightarrow> File (f a) b)"

definition os_chmod :: "string \<Rightarrow> perm \<Rightarrow> world \<Rightarrow> (errno + unit) \<times> world" where
  "os_chmod p m =
     sys (\<lambda>w. if lookup w p = None then Inl ENOENT else Inr ())
         (\<lambda>w. AList.update p (set_attr (a_perm_update (\<lambda>_. m)) (the (lookup w p))) (w_files w)) no_part"

definition os_chown :: "string \<Rightarrow> int \<times> int \<Rightarrow> world \<Rightarrow> (errno + unit) \<times> world" where
  "os_chown p ids =
     sys (\<lambda>w. if lookup w p = None then Inl ENOENT else Inr ())
         (\<lambda>w. AList.update p (set_attr (a_owner_update (\<lambda>_. ids)) (the (lookup w p))) (w_files w)) no_part"

text \<open>
  \<open>os.RemoveAll\<close>: the path and everything under it; no error when it is absent.  A failing call has
  removed some of it, what is in a directory before the directory.
\<close>

definition under :: "string \<Rightarrow> string \<Rightarrow> bool" where
  "under d p \<longleftrightarrow> p = d \<or> has_prefix p (dir_prefix d)"

definition os_remove_all :: "string \<Rightarrow> world \<Rightarrow> (errno + unit) \<times> world" where
  "os_remove_all d =
     sys (\<lambda>_. Inr ()) (\<lambda>w. filter (\<lambda>(p, _). \<not> under d p) (w_files w))
       (\<lambda>n w. let gone = take n (rev (sort_key length (filter (under d) (map fst (w_files w)))))
              in filter (\<lambda>(p, _). p \<notin> set gone) (w_files w))"

definition time_now :: "world \<Rightarrow> int \<times> world" where
  "time_now w = (w_clock w (w_tick w), w\<lparr>w_tick := Suc (w_tick w)\<rparr>)"

text \<open>The machine comes back up: the files are what the crash left.\<close>

definition reboot :: "world \<Rightarrow> world" where
  "reboot w = w\<lparr>w_crashed := False\<rparr>"

subsection \<open>What a system call may do\<close>

definition env_of :: "world \<Rightarrow> perm \<times> (int \<times> int) \<times> (nat \<Rightarrow> fault) \<times> (nat \<Rightarrow> int)" where
  "env_of w = (w_umask w, w_ids w, w_fault w, w_clock w)"

text \<open>An environment that lets every call through: no I/O errors, no crash.\<close>

definition quiet :: "world \<Rightarrow> bool" where
  "quiet w \<longleftrightarrow> \<not> w_crashed w \<and> w_fault w = (\<lambda>_. Go)"

text \<open>The machine comes back up and nothing fails any more.\<close>

definition restarted :: "world \<Rightarrow> world" where
  "restarted w = (reboot w)\<lparr>w_fault := \<lambda>_. Go\<rparr>"

lemma restarted_simps [simp]: "w_files (restarted w) = w_files w" "quiet (restarted w)"
  by (simp_all add: restarted_def reboot_def quiet_def)

lemma sys_env: "sys act eff part w = (r, w') \<Longrightarrow> env_of w' = env_of w"
  by (auto simp: sys_def Let_def env_of_def split: if_splits fault.splits sum.splits)

lemma sys_Inr:
  "sys act eff part w = (Inr a, w') \<Longrightarrow>
     act w = Inr a \<and> w_files w' = eff w \<and> \<not> w_crashed w \<and> \<not> w_crashed w'"
  by (auto simp: sys_def Let_def split: if_splits fault.splits sum.splits)

lemma sys_Inl:
  "sys act eff part w = (Inl e, w') \<Longrightarrow> w_files w' = w_files w \<or> (\<exists>n. w_files w' = part n w)"
  by (auto simp: sys_def Let_def split: if_splits fault.splits sum.splits)

lemma sys_Inl_no_part: "sys act eff no_part w = (Inl e, w') \<Longrightarrow> w_files w' = w_files w"
  by (auto simp: sys_def Let_def split: if_splits fault.splits sum.splits)

lemma sys_ENOENT:
  "sys act eff part w = (Inl ENOENT, w') \<Longrightarrow> act w = Inl ENOENT \<and> w_files w' = w_files w"
  by (auto simp: sys_def Let_def split: if_splits fault.splits sum.splits)

lemma sys_quiet:
  "quiet w \<Longrightarrow> sys act eff part w =
     (case act w of
        Inl e \<Rightarrow> (Inl e, w\<lparr>w_tick := Suc (w_tick w)\<rparr>)
      | Inr a \<Rightarrow> (Inr a, w\<lparr>w_tick := Suc (w_tick w), w_files := eff w\<rparr>))"
  by (simp add: sys_def quiet_def split: sum.splits)

lemma quiet_sys: "quiet w \<Longrightarrow> sys act eff part w = (r, w') \<Longrightarrow> quiet w'"
  by (auto simp: sys_quiet quiet_def split: sum.splits)

lemma crashed_sys: "w_crashed w \<Longrightarrow> sys act eff part w = (Inl EHALT, w\<lparr>w_tick := Suc (w_tick w)\<rparr>)"
  by (simp add: sys_def)

lemma sys_crashed_mono: "sys act eff part w = (r, w') \<Longrightarrow> w_crashed w \<Longrightarrow> w_crashed w' \<and> w_files w' = w_files w"
  by (auto simp: sys_def Let_def)

lemmas os_defs =
  os_read_dir_def os_stat_def os_read_file_def os_remove_def os_write_file_def os_rename_def
  os_mkdir_all_def os_chmod_def os_chown_def os_remove_all_def

text \<open>The calls that only read.\<close>

lemma read_only_frame [frame_simps]:
  "os_read_dir d w = (r1, w1) \<Longrightarrow> w_files w1 = w_files w"
  "os_stat p w = (r2, w2) \<Longrightarrow> w_files w2 = w_files w"
  "os_read_file p w = (r3, w3) \<Longrightarrow> w_files w3 = w_files w"
  by (auto simp: os_defs sys_def Let_def split: if_splits fault.splits sum.splits)

lemma os_read_dir_ok:
  "os_read_dir d w = (Inr es, w') \<Longrightarrow>
     es = map (\<lambda>n. (n, is_dir_in (w_files w) (join_path [clean d, n]))) (names_in (w_files w) (clean d))"
  by (auto simp: os_read_dir_def split: if_splits dest!: sys_Inr)

lemma os_read_dir_mem:
  assumes "os_read_dir d w = (Inr es, w')" and "(n, b) \<in> set es"
  shows "valid_name n \<and> lookup w (join_path [d, n]) \<noteq> None \<and> b = is_dir_in (w_files w) (join_path [d, n])"
  using os_read_dir_ok [OF assms(1)] assms(2) mem_names_in [of "clean d" n "w_files w"] join_path_clean [of n d]
  by auto

lemma os_stat_ok: "os_stat p w = (Inr nd, w') \<Longrightarrow> lookup w p = Some nd"
  by (auto simp: os_stat_def split: option.splits dest!: sys_Inr)

lemma os_read_file_ok: "os_read_file p w = (Inr b, w') \<Longrightarrow> \<exists>a. lookup w p = Some (File a b)"
  by (auto simp: os_read_file_def split: option.splits node.splits dest!: sys_Inr)

lemma os_read_file_ENOENT: "os_read_file p w = (Inl ENOENT, w') \<Longrightarrow> lookup w p = None"
  by (auto simp: os_read_file_def split: option.splits node.splits dest!: sys_ENOENT)

lemma os_stat_ENOENT: "os_stat p w = (Inl ENOENT, w') \<Longrightarrow> lookup w p = None"
  by (auto simp: os_stat_def split: option.splits dest!: sys_ENOENT)

text \<open>The calls that write.\<close>

lemma os_remove_ok:
  "os_remove p w = (Inr u, w') \<Longrightarrow> lookup w p \<noteq> None \<and> w_files w' = AList.delete p (w_files w)"
  by (auto simp: os_remove_def split: option.splits dest!: sys_Inr)

lemma os_remove_err: "os_remove p w = (Inl e, w') \<Longrightarrow> w_files w' = w_files w"
  by (auto simp: os_remove_def dest!: sys_Inl_no_part)

lemma os_remove_ENOENT: "os_remove p w = (Inl ENOENT, w') \<Longrightarrow> lookup w p = None"
  by (auto simp: os_remove_def split: option.splits node.splits if_splits dest!: sys_ENOENT)

lemma os_rename_ok:
  "os_rename old new w = (Inr u, w') \<Longrightarrow>
     \<exists>a b. lookup w old = Some (File a b) \<and> \<not> is_dir_in (w_files w) new
       \<and> w_files w' = AList.update new (File a b) (AList.delete old (w_files w))"
  by (auto simp: os_rename_def write_check_def split: option.splits node.splits if_splits dest!: sys_Inr)

lemma os_rename_err: "os_rename old new w = (Inl e, w') \<Longrightarrow> w_files w' = w_files w"
  by (auto simp: os_rename_def dest!: sys_Inl_no_part)

lemma put_file_form: "\<exists>a. put_file p data m w = AList.update p (File a data) (w_files w)"
  by (auto simp: put_file_def)

lemma os_write_file_ok:
  "os_write_file p data m w = (Inr u, w') \<Longrightarrow>
     \<not> is_dir_in (w_files w) p \<and> is_dir_in (w_files w) (dir_name p)
       \<and> (\<exists>a. w_files w' = AList.update p (File a data) (w_files w))"
  using put_file_form [of p data m w]
  by (auto simp: os_write_file_def write_check_def split: if_splits dest!: sys_Inr)

lemma os_write_file_err:
  assumes "os_write_file p data m w = (Inl e, w')"
  shows "w_files w' = w_files w \<or>
     (\<exists>a n. \<not> is_dir_in (w_files w) p \<and> w_files w' = AList.update p (File a (take n data)) (w_files w))"
proof -
  consider "w_files w' = w_files w"
    | n where "write_check p w = Inr ()" "w_files w' = put_file p (take n data) m w"
    using sys_Inl [OF assms [unfolded os_write_file_def]] by (auto split: if_splits)
  then show ?thesis
  proof cases
    case 2
    then show ?thesis
      using put_file_form [of p "take n data" m w] by (auto simp: write_check_def split: if_splits)
  qed simp
qed

lemma env_of_os [frame_simps]:
  "os_read_dir d w = (r1, w') \<Longrightarrow> env_of w' = env_of w"
  "os_stat p w = (r2, w') \<Longrightarrow> env_of w' = env_of w"
  "os_read_file p w = (r3, w') \<Longrightarrow> env_of w' = env_of w"
  "os_remove p w = (r4, w') \<Longrightarrow> env_of w' = env_of w"
  "os_write_file p b m w = (r5, w') \<Longrightarrow> env_of w' = env_of w"
  "os_rename p q w = (r6, w') \<Longrightarrow> env_of w' = env_of w"
  "os_mkdir_all p m w = (r7, w') \<Longrightarrow> env_of w' = env_of w"
  "os_chmod p m w = (r8, w') \<Longrightarrow> env_of w' = env_of w"
  by (simp_all add: os_defs Let_def sys_env)

lemma quiet_os [inv_intros]:
  "os_read_dir d w = (r1, w') \<Longrightarrow> quiet w \<Longrightarrow> quiet w'"
  "os_stat p w = (r2, w') \<Longrightarrow> quiet w \<Longrightarrow> quiet w'"
  "os_read_file p w = (r3, w') \<Longrightarrow> quiet w \<Longrightarrow> quiet w'"
  "os_remove p w = (r4, w') \<Longrightarrow> quiet w \<Longrightarrow> quiet w'"
  "os_write_file p b m w = (r5, w') \<Longrightarrow> quiet w \<Longrightarrow> quiet w'"
  "os_rename p q w = (r6, w') \<Longrightarrow> quiet w \<Longrightarrow> quiet w'"
  "os_mkdir_all p m w = (r7, w') \<Longrightarrow> quiet w \<Longrightarrow> quiet w'"
  "os_chmod p m w = (r8, w') \<Longrightarrow> quiet w \<Longrightarrow> quiet w'"
  by (simp_all add: os_defs Let_def quiet_sys)

subsection \<open>Making directories\<close>

text \<open>\<open>os.MkdirAll\<close> touches no regular file.\<close>

definition same_regular :: "ftable \<Rightarrow> ftable \<Rightarrow> bool" where
  "same_regular t t' \<longleftrightarrow> (\<forall>p a b. map_of t' p = Some (File a b) \<longleftrightarrow> map_of t p = Some (File a b))"

lemma add_dir_regular:
  assumes "is_dir_in t d \<or> map_of t d = None"
  shows "same_regular t (add_dir a d t)" and "is_dir_in (add_dir a d t) d"
    and "\<forall>e. is_dir_in t e \<or> map_of t e = None \<longrightarrow> is_dir_in (add_dir a d t) e \<or> map_of (add_dir a d t) e = None"
    and "\<forall>e. is_dir_in t e \<longrightarrow> is_dir_in (add_dir a d t) e"
  using assms by (auto simp: add_dir_def same_regular_def map_of_update is_dir_in_def)

lemma fold_add_dir:
  "\<forall>d\<in>set ds. is_dir_in t d \<or> map_of t d = None \<Longrightarrow>
   same_regular t (fold (add_dir a) ds t) \<and> (\<forall>d\<in>set ds. is_dir_in (fold (add_dir a) ds t) d)
     \<and> (\<forall>d. is_dir_in t d \<longrightarrow> is_dir_in (fold (add_dir a) ds t) d)"
proof (induction ds arbitrary: t)
  case (Cons d ds)
  have d: "is_dir_in t d \<or> map_of t d = None" using Cons.prems by simp
  note ad = add_dir_regular [OF d, of a]
  have "\<forall>e\<in>set ds. is_dir_in (add_dir a d t) e \<or> map_of (add_dir a d t) e = None"
    using Cons.prems ad(3) by (metis list.set_intros(2))
  from Cons.IH [OF this] ad show ?case by (auto simp: same_regular_def)
qed (simp add: same_regular_def)

lemma mkdir_all_ok:
  assumes "os_mkdir_all p m w = (Inr u, w')"
  shows "same_regular (w_files w) (w_files w')" and "\<forall>d\<in>set (dir_chain p). is_dir_in (w_files w') d"
    and "\<forall>d. is_dir_in (w_files w) d \<longrightarrow> is_dir_in (w_files w') d"
proof -
  let ?a = "\<lparr>a_perm = m AND NOT (w_umask w), a_owner = w_ids w\<rparr>"
  have f: "w_files w' = fold (add_dir ?a) (dir_chain p) (w_files w)"
    and ok: "\<forall>d\<in>set (dir_chain p). is_dir_in (w_files w) d \<or> lookup w d = None"
    using sys_Inr [OF assms [unfolded os_mkdir_all_def Let_def]] by (auto simp: list_all_iff split: if_splits)
  from fold_add_dir [OF ok, of ?a] f show "same_regular (w_files w) (w_files w')"
    "\<forall>d\<in>set (dir_chain p). is_dir_in (w_files w') d" "\<forall>d. is_dir_in (w_files w) d \<longrightarrow> is_dir_in (w_files w') d"
    by auto
qed

end
