(* ===== verification/Buffer.thy ===== *)
theory Buffer
  imports Collectors Go_World
begin

text \<open>
  \<open>internal/buffer\<close>: the disk-backed event queue.  A \<open>Queue\<close> is its in-memory record plus the files
  below its directory, so every operation takes the queue and the world and returns both.  The
  mutex makes the operations atomic towards each other; here they are functions.  The counters are
  Go's \<open>int\<close> and \<open>int64\<close>, kept as \<open>int\<close>: they count files and bytes on one disk.  What is only
  logged is left out.
\<close>

subsection \<open>Data\<close>

record limits =
  MaxEvents :: int
  MaxBytes :: int

record queue =
  qDir :: string
  qDeadDir :: string
  qLimits :: limits
  qCount :: int
  qBytes :: int
  qDropped :: int

record batch =
  Events :: "event list"
  bFiles :: "string list"

datatype buf_error =
    CreateQueueDir string errno
  | ScanQueue errno
  | StatEntry string errno
  | MarshalEvent string
  | WriteTemp errno
  | CommitEvent errno
  | ReadEntry string errno
  | AckEntry string errno
  | DeadLetterEntry string errno
  | DropOldest errno
  | ListQueue errno

text \<open>Permissions are written by their octal digits.\<close>

definition dirPerm :: perm where "dirPerm = 7 * 8 * 8"
definition filePerm :: perm where "filePerm = 6 * 8 * 8"
definition fileSuffix :: string where "fileSuffix = ''.json''"
definition tmpSuffix :: string where "tmpSuffix = ''.tmp''"
definition deadDirName :: string where "deadDirName = ''dead''"

definition empty_batch :: batch where
  "empty_batch = \<lparr>Events = [], bFiles = []\<rparr>"

definition batch_len :: "batch \<Rightarrow> int" where
  "batch_len b = int (length (Events b))"

definition queue_len :: "queue \<Rightarrow> int" where
  "queue_len q = qCount q"

definition queue_dropped :: "queue \<Rightarrow> int" where
  "queue_dropped q = qDropped q"

text \<open>The size \<open>Stat\<close> reports; that of a directory is up to the file system and never used.\<close>

definition node_size :: "node \<Rightarrow> int" where
  "node_size nd = (case nd of File _ b \<Rightarrow> int (length b) | Dir _ \<Rightarrow> 0)"

definition fileSize :: "string \<Rightarrow> world \<Rightarrow> int \<times> world" where
  "fileSize path w =
     (case os_stat path w of
        (Inl _, w1) \<Rightarrow> (0, w1)
      | (Inr nd, w1) \<Rightarrow> (node_size nd, w1))"

definition fileName :: "event \<Rightarrow> string" where
  "fileName ev = fmt_0d 20 (unix_nano (CollectedAt ev)) @ ''-'' @ ID ev @ fileSuffix"

subsection \<open>Opening\<close>

fun init_scan :: "queue \<Rightarrow> (string \<times> bool) list \<Rightarrow> int \<Rightarrow> int \<Rightarrow> world \<Rightarrow> (buf_error + int \<times> int) \<times> world" where
  "init_scan q [] count bs w = (Inr (count, bs), w)"
| "init_scan q ((name, isdir) # es) count bs w =
     (if isdir then init_scan q es count bs w
      else if has_suffix name tmpSuffix then
        init_scan q es count bs (snd (os_remove (join_path [qDir q, name]) w))
      else if has_suffix name fileSuffix then
        (case os_stat (join_path [qDir q, name]) w of
           (Inl e, w1) \<Rightarrow>
             (if e = ENOENT then init_scan q es count bs w1 else (Inl (StatEntry name e), w1))
         | (Inr nd, w1) \<Rightarrow> init_scan q es (count + 1) (bs + node_size nd) w1)
      else init_scan q es count bs w)"

definition initLocked :: "queue \<Rightarrow> world \<Rightarrow> (buf_error + unit) \<times> queue \<times> world" where
  "initLocked q w =
     (case os_read_dir (qDir q) w of
        (Inl e, w1) \<Rightarrow> (Inl (ScanQueue e), q, w1)
      | (Inr es, w1) \<Rightarrow>
          (case init_scan q es 0 0 w1 of
             (Inl e, w2) \<Rightarrow> (Inl e, q, w2)
           | (Inr (count, bs), w2) \<Rightarrow> (Inr (), q\<lparr>qCount := count, qBytes := bs\<rparr>, w2)))"

definition Open :: "string \<Rightarrow> limits \<Rightarrow> world \<Rightarrow> (buf_error + queue) \<times> world" where
  "Open dir lim w =
     (let dead = join_path [dir, deadDirName] in
      case os_mkdir_all dead dirPerm w of
        (Inl e, w1) \<Rightarrow> (Inl (CreateQueueDir dir e), w1)
      | (Inr _, w1) \<Rightarrow>
          (case initLocked \<lparr>qDir = dir, qDeadDir = dead, qLimits = lim, qCount = 0, qBytes = 0, qDropped = 0\<rparr> w1 of
             (Inl e, _, w2) \<Rightarrow> (Inl e, w2)
           | (Inr _, q, w2) \<Rightarrow> (Inr q, w2)))"

subsection \<open>Making room\<close>

definition sortedPendingLocked :: "queue \<Rightarrow> world \<Rightarrow> (buf_error + string list) \<times> world" where
  "sortedPendingLocked q w =
     (case os_read_dir (qDir q) w of
        (Inl e, w1) \<Rightarrow> (Inl (ListQueue e), w1)
      | (Inr es, w1) \<Rightarrow>
          (Inr (sort (map fst (filter (\<lambda>(n, isdir). \<not> isdir \<and> has_suffix n fileSuffix) es))), w1))"

definition overLimitLocked :: "queue \<Rightarrow> int \<Rightarrow> bool" where
  "overLimitLocked q incoming \<longleftrightarrow>
     (0 < MaxEvents (qLimits q) \<and> qCount q + 1 > MaxEvents (qLimits q)) \<or>
     (0 < MaxBytes (qLimits q) \<and> qBytes q + incoming > MaxBytes (qLimits q))"

definition dropOldestLocked :: "queue \<Rightarrow> world \<Rightarrow> (buf_error + bool) \<times> queue \<times> world" where
  "dropOldestLocked q w =
     (case sortedPendingLocked q w of
        (Inl e, w1) \<Rightarrow> (Inl e, q, w1)
      | (Inr [], w1) \<Rightarrow> (Inr False, q, w1)
      | (Inr (n # _), w1) \<Rightarrow>
          (let path = join_path [qDir q, n]; (sz, w2) = fileSize path w1; (r, w3) = os_remove path w2;
               q' = q\<lparr>qCount := qCount q - 1, qBytes := qBytes q - sz, qDropped := qDropped q + 1\<rparr>
           in case r of
                Inl e \<Rightarrow> (if e = ENOENT then (Inr True, q', w3) else (Inl (DropOldest e), q, w3))
              | Inr _ \<Rightarrow> (Inr True, q', w3)))"

text \<open>The loop ends because every round that reports a drop has removed a file.\<close>

lemma fileSize_frame [frame_simps]: "fileSize p w = (s, w') \<Longrightarrow> w_files w' = w_files w"
  by (auto simp: fileSize_def frame_simps split: prod.splits sum.splits)

lemma sortedPending_frame [frame_simps]: "sortedPendingLocked q w = (r, w') \<Longrightarrow> w_files w' = w_files w"
  by (auto simp: sortedPendingLocked_def frame_simps split: prod.splits sum.splits)

lemma sortedPending_mem:
  assumes "sortedPendingLocked q w = (Inr ns, w')" and "n \<in> set ns"
  shows "valid_name n \<and> has_suffix n fileSuffix \<and> lookup w (join_path [qDir q, n]) \<noteq> None
    \<and> \<not> is_dir_in (w_files w) (join_path [qDir q, n])"
proof -
  obtain es where es: "os_read_dir (qDir q) w = (Inr es, w')"
    and ns: "ns = sort (map fst (filter (\<lambda>(n, isdir). \<not> isdir \<and> has_suffix n fileSuffix) es))"
    using assms(1) by (auto simp: sortedPendingLocked_def split: prod.splits sum.splits)
  from assms(2) ns obtain d where "(n, d) \<in> set es" "\<not> d" "has_suffix n fileSuffix" by auto
  with os_read_dir_mem [OF es] show ?thesis by auto
qed

lemma dropOldest_cases:
  assumes "dropOldestLocked q w = (r, q', w')"
  obtains (failed) e where "r = Inl e" "q' = q" "w_files w' = w_files w"
  | (empty) w1 where "r = Inr False" "q' = q" "w_files w' = w_files w" "sortedPendingLocked q w = (Inr [], w1)"
  | (dropped) n ns w1 sz w2 where "r = Inr True" "sortedPendingLocked q w = (Inr (n # ns), w1)"
      "fileSize (join_path [qDir q, n]) w1 = (sz, w2)" "lookup w (join_path [qDir q, n]) \<noteq> None"
      "w_files w' = AList.delete (join_path [qDir q, n]) (w_files w)"
      "q' = q\<lparr>qCount := qCount q - 1, qBytes := qBytes q - sz, qDropped := qDropped q + 1\<rparr>"
proof -
  obtain r1 w1 where sp: "sortedPendingLocked q w = (r1, w1)" by force
  consider (a) e where "r1 = Inl e" | (b) "r1 = Inr []" | (c) n ns where "r1 = Inr (n # ns)"
    by (metis sum.exhaust list.exhaust)
  then show thesis
  proof cases
    case a
    then show thesis using assms sp by (intro failed) (auto simp: dropOldestLocked_def frame_simps)
  next
    case b
    then show thesis using assms sp by (intro empty) (auto simp: dropOldestLocked_def frame_simps)
  next
    case c
    let ?p = "join_path [qDir q, n]"
    obtain sz w2 where fs: "fileSize ?p w1 = (sz, w2)" by force
    obtain r3 w3 where rm: "os_remove ?p w2 = (r3, w3)" by force
    have f2: "w_files w2 = w_files w" using sp fs by (simp add: frame_simps)
    have ex: "lookup w ?p \<noteq> None" using sortedPending_mem [of q w "n # ns" w1 n] sp c by simp
    then have ne: "r3 \<noteq> Inl ENOENT" using os_remove_ENOENT [of ?p w2 w3] rm f2 by auto
    show thesis
    proof (cases r3)
      case (Inl e)
      then show thesis
        using assms sp c fs rm ne f2 os_remove_err [of ?p w2 e w3]
        by (intro failed) (auto simp: dropOldestLocked_def Let_def)
    next
      case (Inr u)
      then have "w_files w3 = AList.delete ?p (w_files w2)"
        using os_remove_ok [of ?p w2 u w3] rm by simp
      then show thesis
        using assms sp c fs rm f2 ex Inr
        by (intro dropped [of n ns w1 sz w2]) (auto simp: dropOldestLocked_def Let_def)
    qed
  qed
qed

lemma dropOldest_shrinks:
  "dropOldestLocked q w = (Inr True, q', w') \<Longrightarrow> length (w_files w') < length (w_files w)"
  by (erule dropOldest_cases) (auto intro!: length_delete_less simp: keys_iff_map_of)

function enforceLimitsLocked :: "int \<Rightarrow> queue \<Rightarrow> world \<Rightarrow> (buf_error + unit) \<times> queue \<times> world" where
  "enforceLimitsLocked incoming q w =
     (if overLimitLocked q incoming then
        (case dropOldestLocked q w of
           (Inl e, q1, w1) \<Rightarrow> (Inl e, q1, w1)
         | (Inr dropped, q1, w1) \<Rightarrow>
             (if dropped then enforceLimitsLocked incoming q1 w1 else (Inr (), q1, w1)))
      else (Inr (), q, w))"
  by pat_completeness auto
termination
  by (relation "measure (\<lambda>(_, _, w). length (w_files w))") (auto dest: dropOldest_shrinks [OF sym])

declare enforceLimitsLocked.simps [simp del]

subsection \<open>Writing\<close>

definition Write :: "event \<Rightarrow> queue \<Rightarrow> world \<Rightarrow> (buf_error + unit) \<times> queue \<times> world" where
  "Write ev q w =
     (case marshal_event ev of
        None \<Rightarrow> (Inl (MarshalEvent (ID ev)), q, w)
      | Some data \<Rightarrow>
          (case enforceLimitsLocked (int (length data)) q w of
             (Inl e, q1, w1) \<Rightarrow> (Inl e, q1, w1)
           | (Inr _, q1, w1) \<Rightarrow>
               (let final = join_path [qDir q1, fileName ev]; tmp = final @ tmpSuffix in
                case os_write_file tmp data filePerm w1 of
                  (Inl e, w2) \<Rightarrow> (Inl (WriteTemp e), q1, w2)
                | (Inr _, w2) \<Rightarrow>
                    (case os_rename tmp final w2 of
                       (Inl e, w3) \<Rightarrow> (Inl (CommitEvent e), q1, snd (os_remove tmp w3))
                     | (Inr _, w3) \<Rightarrow>
                         (Inr (), q1\<lparr>qCount := qCount q1 + 1, qBytes := qBytes q1 + int (length data)\<rparr>, w3)))))"

subsection \<open>Reading and settling\<close>

definition deadLetterFileLocked :: "string \<Rightarrow> int \<Rightarrow> queue \<Rightarrow> world \<Rightarrow> (buf_error + unit) \<times> queue \<times> world" where
  "deadLetterFileLocked path sz q w =
     (case os_rename path (join_path [qDeadDir q, base_name path]) w of
        (Inl e, w1) \<Rightarrow>
          (if e = ENOENT then (Inr (), q, w1) else (Inl (DeadLetterEntry (base_name path) e), q, w1))
      | (Inr _, w1) \<Rightarrow> (Inr (), q\<lparr>qCount := qCount q - 1, qBytes := qBytes q - sz\<rparr>, w1))"

fun read_entries ::
  "int \<Rightarrow> int \<Rightarrow> string list \<Rightarrow> batch \<Rightarrow> int \<Rightarrow> queue \<Rightarrow> world \<Rightarrow> (buf_error + batch) \<times> queue \<times> world"
where
  "read_entries maxN maxB [] b sofar q w = (Inr b, q, w)"
| "read_entries maxN maxB (name # names) b sofar q w =
     (if 0 < maxN \<and> batch_len b \<ge> maxN then (Inr b, q, w)
      else
        let path = join_path [qDir q, name] in
        case os_read_file path w of
          (Inl e, w1) \<Rightarrow>
            (if e = ENOENT then read_entries maxN maxB names b sofar q w1
             else (Inl (ReadEntry name e), q, w1))
        | (Inr data, w1) \<Rightarrow>
            (if 0 < maxB \<and> 0 < batch_len b \<and> sofar + int (length data) > maxB then (Inr b, q, w1)
             else
               case unmarshal_event data of
                 None \<Rightarrow>
                   (case deadLetterFileLocked path (int (length data)) q w1 of
                      (_, q2, w2) \<Rightarrow> read_entries maxN maxB names b sofar q2 w2)
               | Some ev \<Rightarrow>
                   read_entries maxN maxB names
                     \<lparr>Events = Events b @ [ev], bFiles = bFiles b @ [path]\<rparr> (sofar + int (length data)) q w1))"

definition ReadBatch :: "int \<Rightarrow> int \<Rightarrow> queue \<Rightarrow> world \<Rightarrow> (buf_error + batch) \<times> queue \<times> world" where
  "ReadBatch maxN maxB q w =
     (case sortedPendingLocked q w of
        (Inl e, w1) \<Rightarrow> (Inl e, q, w1)
      | (Inr names, w1) \<Rightarrow> read_entries maxN maxB names empty_batch 0 q w1)"

definition first_error :: "buf_error option \<Rightarrow> buf_error \<Rightarrow> buf_error option" where
  "first_error old e = (case old of None \<Rightarrow> Some e | Some _ \<Rightarrow> old)"

definition as_result :: "buf_error option \<Rightarrow> buf_error + unit" where
  "as_result fe = (case fe of None \<Rightarrow> Inr () | Some e \<Rightarrow> Inl e)"

fun ack_files :: "string list \<Rightarrow> buf_error option \<Rightarrow> queue \<Rightarrow> world \<Rightarrow> (buf_error + unit) \<times> queue \<times> world" where
  "ack_files [] fe q w = (as_result fe, q, w)"
| "ack_files (path # ps) fe q w =
     (let (sz, w1) = fileSize path w in
      case os_remove path w1 of
        (Inl e, w2) \<Rightarrow>
          (if e = ENOENT then ack_files ps fe q w2
           else ack_files ps (first_error fe (AckEntry (base_name path) e)) q w2)
      | (Inr _, w2) \<Rightarrow> ack_files ps fe (q\<lparr>qCount := qCount q - 1, qBytes := qBytes q - sz\<rparr>) w2)"

definition Ack :: "batch \<Rightarrow> queue \<Rightarrow> world \<Rightarrow> (buf_error + unit) \<times> queue \<times> world" where
  "Ack b q w = ack_files (bFiles b) None q w"

fun dead_files :: "string list \<Rightarrow> buf_error option \<Rightarrow> queue \<Rightarrow> world \<Rightarrow> (buf_error + unit) \<times> queue \<times> world" where
  "dead_files [] fe q w = (as_result fe, q, w)"
| "dead_files (path # ps) fe q w =
     (let (sz, w1) = fileSize path w in
      case deadLetterFileLocked path sz q w1 of
        (Inl e, q2, w2) \<Rightarrow> dead_files ps (first_error fe e) q2 w2
      | (Inr _, q2, w2) \<Rightarrow> dead_files ps fe q2 w2)"

definition DeadLetter :: "batch \<Rightarrow> queue \<Rightarrow> world \<Rightarrow> (buf_error + unit) \<times> queue \<times> world" where
  "DeadLetter b q w = dead_files (bFiles b) None q w"

end
