(* ===== verification/Buffer_Ops.thy ===== *)
theory Buffer_Ops
  imports Buffer_Spool
begin

text \<open>
  What each operation of the queue does to the pending events, the dead-letter directory and the
  counters, under every pattern of I/O failures and crashes.
\<close>

abbreviation live :: "queue \<Rightarrow> world \<Rightarrow> string \<Rightarrow> bytes option" where
  "live q w \<equiv> spool (w_files w) (qDir q)"

abbreviation dead :: "queue \<Rightarrow> world \<Rightarrow> string \<Rightarrow> bytes option" where
  "dead q w \<equiv> spool (w_files w) (qDeadDir q)"

definition queue_ok :: "queue \<Rightarrow> bool" where
  "queue_ok q \<longleftrightarrow> is_clean (qDir q) \<and> qDeadDir q = join_path [qDir q, deadDirName]"

definition same_conf :: "queue \<Rightarrow> queue \<Rightarrow> bool" where
  "same_conf q q' \<longleftrightarrow> qDir q' = qDir q \<and> qDeadDir q' = qDeadDir q \<and> qLimits q' = qLimits q"

lemma queue_ok_conf: "queue_ok q \<Longrightarrow> same_conf q q' \<Longrightarrow> queue_ok q'"
  by (simp add: queue_ok_def same_conf_def)

lemma queue_ok_clean [intro]: "queue_ok q \<Longrightarrow> is_clean (qDir q)" "queue_ok q \<Longrightarrow> is_clean (qDeadDir q)"
  by (simp_all add: queue_ok_def is_clean_join)

abbreviation names :: "queue \<Rightarrow> world \<Rightarrow> string list" where
  "names q w \<equiv> pending (w_files w) (qDir q)"

lemma set_names [simp]: "queue_ok q \<Longrightarrow> set (names q w) = dom (live q w)"
  by (rule set_pending) auto

lemma listed_names: "queue_ok q \<Longrightarrow> sortedPendingLocked q w = (Inr ns, w') \<Longrightarrow> names q w = ns"
  using sortedPending_ok [of q w ns w'] by (simp add: queue_ok_def)

lemma finite_live [simp]: "queue_ok q \<Longrightarrow> finite (dom (live q w))"
  by (rule finite_spool) auto

definition dirs_kept :: "world \<Rightarrow> world \<Rightarrow> bool" where
  "dirs_kept w w' \<longleftrightarrow> (\<forall>p. is_dir_in (w_files w') p = is_dir_in (w_files w) p)"

lemma dirs_kept_refl [simp]: "w_files w' = w_files w \<Longrightarrow> dirs_kept w w'"
  by (simp add: dirs_kept_def)

lemma dirs_kept_trans: "dirs_kept w w1 \<Longrightarrow> dirs_kept w1 w' \<Longrightarrow> dirs_kept w w'"
  by (simp add: dirs_kept_def)

lemma dirs_kept_update: "\<not> is_dir_in (w_files w) p \<Longrightarrow> w_files w' = AList.update p (File a b) (w_files w) \<Longrightarrow> dirs_kept w w'"
  by (auto simp: dirs_kept_def is_dir_in_def map_of_update)

lemma dirs_kept_delete: "\<not> is_dir_in (w_files w) p \<Longrightarrow> w_files w' = AList.delete p (w_files w) \<Longrightarrow> dirs_kept w w'"
  by (auto simp: dirs_kept_def is_dir_in_def map_of_delete)

lemma dirs_kept_move:
  assumes "lookup w old = Some (File a b)" and "\<not> is_dir_in (w_files w) new" and "old \<noteq> [slash]" and "old \<noteq> ''.''"
    and "w_files w' = AList.update new (File a b) (AList.delete old (w_files w))"
  shows "dirs_kept w w'"
proof -
  let ?w = "w\<lparr>w_files := AList.delete old (w_files w)\<rparr>"
  have "dirs_kept w ?w" by (rule dirs_kept_delete [of _ old]) (use assms(1,3,4) in \<open>auto simp: is_dir_in_def\<close>)
  moreover have "dirs_kept ?w w'"
    by (rule dirs_kept_update [of _ new]) (use assms in \<open>auto simp: is_dir_in_def map_of_delete\<close>)
  ultimately show ?thesis by (rule dirs_kept_trans)
qed

text \<open>
  \<open>settled D N\<close>: the events named \<open>N\<close> have left the queue, those of \<open>D\<close> among them for the
  dead-letter directory with their contents; nothing else changed, the event count is exact, and
  the byte count is too high at most (a failing \<open>Stat\<close> counts as zero bytes).
\<close>

definition settled :: "string set \<Rightarrow> string set \<Rightarrow> queue \<Rightarrow> world \<Rightarrow> queue \<Rightarrow> world \<Rightarrow> bool" where
  "settled D N q w q' w' \<longleftrightarrow>
     same_conf q q' \<and> D \<subseteq> N \<and> N \<subseteq> dom (live q w)
     \<and> live q w' = live q w |` (- N) \<and> dead q w' = dead q w ++ (live q w |` D)
     \<and> dirs_kept w w'
     \<and> qCount q' = qCount q - int (card N)
     \<and> qBytes q' \<ge> qBytes q - bytes_of (live q w |` N)
     \<and> (quiet w \<longrightarrow> quiet w' \<and> qBytes q' = qBytes q - bytes_of (live q w |` N))"

lemma bytes_of_empty [simp]: "bytes_of (\<lambda>_. None) = 0"
  by (simp add: bytes_of_def)

lemma restrict_UNIV [simp]: "m |` UNIV = m"
  by (simp add: fun_eq_iff)

lemma settled_same:
  assumes "live q w' = live q w" and "dead q w' = dead q w" and "dirs_kept w w'" and "quiet w \<longrightarrow> quiet w'"
  shows "settled {} {} q w q w'"
  using assms by (simp add: settled_def same_conf_def)

lemma settled_refl: "w_files w' = w_files w \<Longrightarrow> quiet w \<longrightarrow> quiet w' \<Longrightarrow> settled {} {} q w q w'"
  by (rule settled_same) simp_all

lemma restrict_add:
  assumes "M \<subseteq> dom (m |` (- N))" and "finite (dom m)"
  shows "bytes_of (m |` (N \<union> M)) = bytes_of (m |` N) + bytes_of ((m |` (- N)) |` M)"
proof -
  have "N \<inter> M = {}" using assms by auto
  then have "(m |` (N \<union> M)) |` N = m |` N" "(m |` (N \<union> M)) |` (- N) = (m |` (- N)) |` M"
    by (auto simp: fun_eq_iff restrict_map_def)
  with bytes_of_restrict [of "m |` (N \<union> M)" N] assms(2) show ?thesis by simp
qed

lemma settled_trans:
  assumes "queue_ok q" and "settled D N q w q1 w1" and "settled E M q1 w1 q' w'"
  shows "settled (D \<union> E) (N \<union> M) q w q' w'"
proof -
  note s1 = assms(2) [unfolded settled_def same_conf_def] and s2 = assms(3) [unfolded settled_def same_conf_def]
  have M: "M \<subseteq> dom (live q w |` (- N))" using s1 s2 by auto
  have fin: "finite (dom (live q w))" using assms(1) by simp
  have card: "card (N \<union> M) = card N + card M"
  proof (rule card_Un_disjoint)
    show "finite N" "finite M" "N \<inter> M = {}" using s1 M fin by (auto intro: finite_subset)
  qed
  have b: "bytes_of (live q w |` (N \<union> M)) = bytes_of (live q w |` N) + bytes_of (live q w |` (- N) |` M)"
    by (rule restrict_add [OF M fin])
  have d: "(live q w |` D) ++ ((live q w |` (- N)) |` E) = live q w |` (D \<union> E)"
    using s2 M by (auto simp: fun_eq_iff map_add_def restrict_map_def split: option.splits)
  have "live q w' = live q w |` (- (N \<union> M))" using s1 s2 by simp
  moreover have "dead q w' = dead q w ++ (live q w |` (D \<union> E))"
    using s1 s2 d by (simp del: map_add_assoc add: map_add_assoc [symmetric])
  moreover have "N \<union> M \<subseteq> dom (live q w)" using s1 M by auto
  moreover have "dirs_kept w w'" using s1 s2 dirs_kept_trans by blast
  ultimately show ?thesis
    unfolding settled_def same_conf_def using s1 s2 card b by auto
qed

subsection \<open>File sizes\<close>

lemma fileSize_bounds:
  assumes "fileSize p w = (sz, w')" and "lookup w p = Some (File a b)"
  shows "sz \<le> int (length b)" and "quiet w \<Longrightarrow> sz = int (length b)"
proof -
  obtain r where r: "os_stat p w = (r, w')" "sz = (case r of Inl _ \<Rightarrow> 0 | Inr nd \<Rightarrow> node_size nd)"
    using assms(1) by (auto simp: fileSize_def split: prod.splits sum.splits)
  show "sz \<le> int (length b)"
    using r assms(2) os_stat_ok [of p w _ w'] by (cases r) (auto simp: node_size_def)
  assume "quiet w"
  then have "r = Inr (File a b)"
    using r(1) assms(2) by (simp add: os_stat_def sys_quiet)
  then show "sz = int (length b)" using r(2) by (simp add: node_size_def)
qed

lemma fileSize_quiet [inv_intros]: "fileSize p w = (sz, w') \<Longrightarrow> quiet w \<Longrightarrow> quiet w'"
  by (auto simp: fileSize_def intro: inv_intros split: prod.splits sum.splits)

lemma quiet_back_fileSize: "fileSize p w = (sz, w') \<Longrightarrow> quiet w' \<Longrightarrow> quiet w"
  by (auto simp: fileSize_def os_stat_def sys_def quiet_def Let_def split: prod.splits sum.splits if_splits fault.splits)

lemma quiet_sortedPending [inv_intros]: "sortedPendingLocked q w = (r, w') \<Longrightarrow> quiet w \<Longrightarrow> quiet w'"
  by (auto simp: sortedPendingLocked_def intro: inv_intros split: prod.splits sum.splits)

lemma dropOldest_quiet [inv_intros]: "dropOldestLocked q w = (r, q', w') \<Longrightarrow> quiet w \<Longrightarrow> quiet w'"
  by (auto simp: dropOldestLocked_def Let_def intro: inv_intros split: prod.splits sum.splits list.splits if_splits
      dest: quiet_sortedPending)

text \<open>One event removed, one event moved to the dead letters.\<close>

lemma live_file:
  assumes "queue_ok q" and "live q w n = Some b"
  shows "event_name n" and "\<exists>a. lookup w (join_path [qDir q, n]) = Some (File a b)"
    and "\<not> is_dir_in (w_files w) (join_path [qDir q, n])"
    and "join_path [qDir q, n] \<noteq> [slash]" and "join_path [qDir q, n] \<noteq> ''.''"
  using assms is_dir_join [of "qDir q" n "w_files w"] join_not_root [of "qDir q" n]
  by (auto simp: spool_Some_iff queue_ok_def event_name_def)

lemma live_remove:
  assumes "queue_ok q" and "live q w n = Some b" and "w_files w' = AList.delete (join_path [qDir q, n]) (w_files w)"
  shows "live q w' = live q w |` (- {n})" and "dead q w' = dead q w" and "dirs_kept w w'"
proof -
  have n: "event_name n" using assms(2) by (simp add: spool_Some_iff)
  show "dirs_kept w w'" using live_file(3) [OF assms(1,2)] assms(3) by (rule dirs_kept_delete)
  have "live q w' = (live q w)(n := None)"
    unfolding assms(3) by (rule spool_delete) (use assms(1) n in auto)
  then show "live q w' = live q w |` (- {n})" by (auto simp: fun_eq_iff restrict_map_def)
  have "foreign (qDeadDir q) (join_path [qDir q, n])"
    using assms(1) n foreign_parent [of "qDir q" deadDirName n] by (simp add: queue_ok_def event_name_def)
  then show "dead q w' = dead q w" unfolding assms(3) by (rule spool_foreign_delete)
qed

lemma dead_path:
  assumes "queue_ok q" and "event_name n"
  shows "join_path [qDeadDir q, base_name (join_path [qDir q, n])] = join_path [qDeadDir q, n]"
  using assms by (simp add: queue_ok_def base_name_join event_name_def)

lemma live_move:
  assumes "queue_ok q" and "live q w n = Some b"
    and "w_files w' = AList.update (join_path [qDeadDir q, n]) (File a b) (AList.delete (join_path [qDir q, n]) (w_files w))"
  shows "live q w' = live q w |` (- {n})" and "dead q w' = dead q w ++ (live q w |` {n})"
proof -
  let ?w = "w\<lparr>w_files := AList.delete (join_path [qDir q, n]) (w_files w)\<rparr>"
  have n: "event_name n" using assms(2) by (simp add: spool_Some_iff)
  have l: "live q ?w = live q w |` (- {n})" "dead q ?w = dead q w"
    using live_remove [OF assms(1,2), of ?w] by simp_all
  have "foreign (qDir q) (join_path [qDeadDir q, n])"
    using assms(1) n by (auto simp: queue_ok_def intro!: foreign_sub)
  then have "live q w' = live q ?w" by (simp add: assms(3) spool_foreign_update)
  with l show "live q w' = live q w |` (- {n})" by simp
  have "dead q w' = (dead q ?w)(n \<mapsto> b)"
    unfolding assms(3) by (simp, rule spool_update) (use assms(1) n in auto)
  then show "dead q w' = dead q w ++ (live q w |` {n})"
    using l assms(2) by (auto simp: fun_eq_iff map_add_def restrict_map_def)
qed

lemma restrict_one: "m n = Some b \<Longrightarrow> bytes_of (m |` {n}) = int (length b)"
proof -
  assume n: "m n = Some b"
  then have "dom (m |` {n}) = {n}" by auto
  then show ?thesis using n by (simp add: bytes_of_def)
qed

lemma settled_one:
  assumes "queue_ok q" and "live q w n = Some b"
    and "live q w' = live q w |` (- {n})" and "dead q w' = dead q w ++ (live q w |` D)" and "D \<subseteq> {n}"
    and "dirs_kept w w'" and "same_conf q q'" and "qCount q' = qCount q - 1" and "qBytes q' = qBytes q - sz"
    and "sz \<le> int (length b)" and "quiet w \<longrightarrow> sz = int (length b) \<and> quiet w'"
  shows "settled D {n} q w q' w'"
  using assms restrict_one [of "live q w" n b] by (auto simp: settled_def)

subsection \<open>Dropping the oldest\<close>

lemma dropOldest_spec:
  assumes "queue_ok q" and "dropOldestLocked q w = (r, q', w')"
  shows "case r of
      Inl e \<Rightarrow> q' = q \<and> w_files w' = w_files w
    | Inr False \<Rightarrow> q' = q \<and> w_files w' = w_files w \<and> dom (live q w) = {}
    | Inr True \<Rightarrow> names q w \<noteq> []
        \<and> settled {} {hd (names q w)} q w q' w' \<and> qDropped q' = qDropped q + 1"
  using assms(2)
proof (cases rule: dropOldest_cases)
  case (empty w1)
  then have "names q w = []" using listed_names assms(1) by blast
  then have "dom (live q w) = {}" using set_names [OF assms(1), of w] by simp
  with empty show ?thesis by simp
next
  case (dropped n ns w1 sz w2)
  have p: "names q w = n # ns" using dropped assms(1) by (auto intro: listed_names)
  then have "n \<in> dom (live q w)" using set_names [OF assms(1), of w] by auto
  then obtain b a where b: "live q w n = Some b" and f: "lookup w (join_path [qDir q, n]) = Some (File a b)"
    by (auto simp: spool_Some_iff)
  have f1: "w_files w1 = w_files w" using dropped by (simp add: frame_simps)
  have "settled {} {n} q w q' w'"
  proof (rule settled_one [where sz = sz, OF assms(1) b])
    show "live q w' = live q w |` (- {n})" "dead q w' = dead q w ++ (live q w |` {})" "dirs_kept w w'"
      using live_remove [OF assms(1) b dropped(5)] by simp_all
    show "same_conf q q'" "qCount q' = qCount q - 1" "qBytes q' = qBytes q - sz"
      using dropped by (simp_all add: same_conf_def)
    show "sz \<le> int (length b)" using fileSize_bounds(1) [OF dropped(3)] f f1 by simp
    show "quiet w \<longrightarrow> sz = int (length b) \<and> quiet w'"
      using quiet_sortedPending [OF dropped(2)] dropOldest_quiet [OF assms(2)]
        fileSize_bounds(2) [OF dropped(3)] f f1 by simp
  qed simp
  with p dropped show ?thesis by simp
qed simp


lemma sorted_list_unique: "sorted xs \<Longrightarrow> distinct xs \<Longrightarrow> xs = sorted_list_of_set (set xs)"
  by (simp add: sorted_list_of_set.idem_if_sorted_distinct)

lemma settled_names:
  assumes "queue_ok q" and "settled D (set (take k (names q w))) q w q' w'"
  shows "names q' w' = drop k (names q w)"
proof -
  have "dom (live q' w') = dom (live q w) - set (take k (names q w))"
    using assms(2) by (auto simp: settled_def same_conf_def)
  also have "\<dots> = set (drop k (names q w))"
    using assms(1) set_names [OF assms(1), of w] distinct_pending [of "w_files w" "qDir q"]
    by (metis append_take_drop_id distinct_append set_append Un_Diff Diff_cancel Diff_triv Un_empty_left inf_commute)
  finally have "dom (live q' w') = set (drop k (names q w))" .
  then show ?thesis
    using sorted_list_unique [of "drop k (names q w)"]
    by (simp add: pending_def [of "w_files w'"] sorted_wrt_drop)
qed

lemma enforceLimits_spec:
  assumes "queue_ok q" and "enforceLimitsLocked incoming q w = (r, q', w')"
  shows "\<exists>k\<le>length (names q w). settled {} (set (take k (names q w))) q w q' w'
    \<and> qDropped q' = qDropped q + int k
    \<and> (r = Inr () \<longrightarrow> \<not> overLimitLocked q' incoming \<or> dom (live q' w') = {})"
  using assms
proof (induction incoming q w arbitrary: r q' w' rule: enforceLimitsLocked.induct)
  case (1 incoming q w)
  have quiet_refl: "settled {} {} q w q w" by (rule settled_refl) simp_all
  show ?case
  proof (cases "overLimitLocked q incoming")
    case False
    then show ?thesis
      using 1(3) quiet_refl by (intro exI [of _ 0]) (simp add: enforceLimitsLocked.simps)
  next
    case over: True
    obtain r1 q1 w1 where d: "dropOldestLocked q w = (r1, q1, w1)" by (metis prod_cases3)
    note spec = dropOldest_spec [OF 1(2) d]
    have stay: "settled {} {} q w q1 w1" if "q1 = q" "w_files w1 = w_files w"
      using settled_refl [of w1 w q] dropOldest_quiet [OF d] that by simp
    show ?thesis
    proof (cases "r1 = Inr True")
      case False
      then consider (e) e where "r1 = Inl e" | (f) "r1 = Inr False" by (cases r1) auto
      then show ?thesis
      proof cases
        case e
        then show ?thesis
          using 1(3) over d spec stay by (intro exI [of _ 0]) (auto simp: enforceLimitsLocked.simps)
      next
        case f
        then show ?thesis
          using 1(3) over d spec stay by (intro exI [of _ 0]) (simp add: enforceLimitsLocked.simps)
      qed
    next
      case True
      let ?n = "hd (names q w)"
      have ne: "names q w \<noteq> []" and s1: "settled {} {?n} q w q1 w1" and dr: "qDropped q1 = qDropped q + 1"
        using spec True by simp_all
      have ok1: "queue_ok q1" using queue_ok_conf [OF 1(2), of q1] s1 by (simp add: settled_def)
      have tk: "set (take (Suc j) (names q w)) = insert ?n (set (take j (tl (names q w))))" for j
        using ne by (cases "names q w") simp_all
      have n1: "names q1 w1 = tl (names q w)"
        using settled_names [OF 1(2), of "{}" 1 w q1 w1] s1 tk [of 0] by (simp add: drop_Suc)
      have rec: "enforceLimitsLocked incoming q1 w1 = (r, q', w')"
        using 1(3) over d True by (simp add: enforceLimitsLocked.simps [of incoming q])
      obtain k where k: "k \<le> length (names q1 w1)" "settled {} (set (take k (names q1 w1))) q1 w1 q' w'"
        "qDropped q' = qDropped q1 + int k"
        "r = Inr () \<longrightarrow> \<not> overLimitLocked q' incoming \<or> dom (live q' w') = {}"
        using 1(1) [OF over d [symmetric] True refl TrueI ok1 rec] by auto
      have "settled {} (set (take (Suc k) (names q w))) q w q' w'"
        using settled_trans [OF 1(2) s1 k(2)] n1 tk [of k] by simp
      moreover have "Suc k \<le> length (names q w)" using k(1) n1 ne by (cases "names q w") auto
      ultimately show ?thesis using k dr by (intro exI [of _ "Suc k"]) simp
    qed
  qed
qed


subsection \<open>Writing\<close>

lemma fmt_0d_chars: "c \<in> set (fmt_0d w i) \<Longrightarrow> is_digit c \<or> c = CHR ''-''"
  by (auto simp: fmt_0d_def pad_zero_digits split: if_splits)

lemma event_name_fileName:
  assumes "slash \<notin> set (ID ev)"
  shows "event_name (fileName ev)"
proof -
  have d: "\<not> is_digit slash" by (simp add: is_digit_def)
  have "slash \<notin> set (fmt_0d 20 (unix_nano (CollectedAt ev)))" using d fmt_0d_chars by fastforce
  then have "slash \<notin> set (fileName ev)"
    using assms by (auto simp: fileName_def fileSuffix_def)
  moreover have "length (fileName ev) > 5" by (simp add: fileName_def fileSuffix_def)
  moreover have "has_suffix (fileName ev) fileSuffix"
    using has_suffix_append [of "fmt_0d 20 (unix_nano (CollectedAt ev)) @ ''-'' @ ID ev" fileSuffix]
    by (simp add: fileName_def)
  ultimately show ?thesis
    by (auto simp: event_name_def valid_name_def plain_elem_def)
qed

lemma tmp_foreign:
  assumes "queue_ok q" and "event_name n"
  shows "foreign (qDir q) (join_path [qDir q, n] @ tmpSuffix)"
    and "foreign (qDeadDir q) (join_path [qDir q, n] @ tmpSuffix)"
    and "foreign (qDeadDir q) (join_path [qDir q, n])"
proof -
  have c: "is_clean (qDir q)" using assms by auto
  show "foreign (qDir q) (join_path [qDir q, n] @ tmpSuffix)" by (rule foreign_tmp [OF c assms(2)])
  show "foreign (qDeadDir q) (join_path [qDir q, n] @ tmpSuffix)"
    using assms c tmp_path [OF c assms(2)] foreign_parent [OF c valid_dead] by (simp add: queue_ok_def)
  show "foreign (qDeadDir q) (join_path [qDir q, n])"
    using assms c foreign_parent [OF c valid_dead] by (simp add: queue_ok_def event_name_def)
qed

lemma write_temp:
  assumes "queue_ok q" and "event_name n" and "os_write_file (join_path [qDir q, n] @ tmpSuffix) b m w = (r, w')"
  shows "live q w' = live q w \<and> dead q w' = dead q w \<and> dirs_kept w w'"
proof -
  note tf = tmp_foreign [OF assms(1,2)]
  show ?thesis
  proof (cases r)
    case (Inl e)
    then show ?thesis
      using os_write_file_err [OF assms(3) [unfolded Inl]] tf(1,2) dirs_kept_update
      by (auto simp: spool_foreign_update)
  next
    case (Inr u)
    then show ?thesis
      using os_write_file_ok [OF assms(3) [unfolded Inr]] tf(1,2) dirs_kept_update
      by (auto simp: spool_foreign_update)
  qed
qed

lemma written_not_dir:
  assumes "os_write_file p b m w = (Inr u, w')"
  shows "\<not> is_dir_in (w_files w') p"
  using os_write_file_ok [OF assms] by (auto simp: is_dir_in_def map_of_update)

lemma remove_temp:
  assumes "queue_ok q" and "event_name n" and "os_remove (join_path [qDir q, n] @ tmpSuffix) w = (r, w')"
    and "\<not> is_dir_in (w_files w) (join_path [qDir q, n] @ tmpSuffix)"
  shows "live q w' = live q w \<and> dead q w' = dead q w \<and> dirs_kept w w'"
proof -
  note tf = tmp_foreign [OF assms(1,2)]
  show ?thesis
  proof (cases r)
    case (Inl e)
    then show ?thesis using os_remove_err [OF assms(3) [unfolded Inl]] by simp
  next
    case (Inr u)
    then show ?thesis
      using os_remove_ok [OF assms(3) [unfolded Inr]] tf(1,2) dirs_kept_delete [OF assms(4)]
      by (auto simp: spool_foreign_delete)
  qed
qed

lemma commit_temp:
  assumes "queue_ok q" and "event_name n"
    and "os_write_file (join_path [qDir q, n] @ tmpSuffix) b m w = (Inr u, w1)"
    and "os_rename (join_path [qDir q, n] @ tmpSuffix) (join_path [qDir q, n]) w1 = (Inr v, w')"
  shows "live q w' = (live q w)(n \<mapsto> b) \<and> dead q w' = dead q w \<and> dirs_kept w w'"
proof -
  note tf = tmp_foreign [OF assms(1,2)]
  let ?tmp = "join_path [qDir q, n] @ tmpSuffix"
  have c: "is_clean (qDir q)" using assms(1) by auto
  obtain a where f1: "w_files w1 = AList.update (join_path [qDir q, n] @ tmpSuffix) (File a b) (w_files w)"
    using os_write_file_ok [OF assms(3)] by blast
  have nd: "\<not> is_dir_in (w_files w) ?tmp" using os_write_file_ok [OF assms(3)] by blast
  have tmp: "lookup w1 ?tmp = Some (File a b)" by (simp add: f1 map_of_update)
  have f': "w_files w' = AList.update (join_path [qDir q, n]) (File a b) (AList.delete ?tmp (w_files w1))"
    and nf: "\<not> is_dir_in (w_files w1) (join_path [qDir q, n])"
    using os_rename_ok [OF assms(4)] tmp by auto
  have "dirs_kept w1 w'"
    by (rule dirs_kept_move [OF tmp nf _ _ f']) (use nd in \<open>auto simp: is_dir_in_def\<close>)
  with dirs_kept_update [OF nd f1] have "dirs_kept w w'" by (rule dirs_kept_trans)
  then show ?thesis
    using f1 f' tf c assms(2) by (simp add: fs_simps)
qed

text \<open>
  A \<open>Write\<close> first drops the \<open>k\<close> oldest events, then either adds the new one, complete, or
  changes nothing more.
\<close>

lemma Write_cases:
  assumes "queue_ok q" and "slash \<notin> set (ID ev)" and "Write ev q w = (r, q', w')"
  obtains (failed) e k where "r = Inl e" "k \<le> length (names q w)"
      "settled {} (set (take k (names q w))) q w q' w'" "qDropped q' = qDropped q + int k"
  | (stored) b k q1 w1 where "r = Inr ()" "marshal_event ev = Some b" "k \<le> length (names q w)"
      "settled {} (set (take k (names q w))) q w q1 w1" "qDropped q1 = qDropped q + int k"
      "\<not> overLimitLocked q1 (int (length b)) \<or> dom (live q1 w1) = {}"
      "live q' w' = (live q1 w1)(fileName ev \<mapsto> b)" "dead q' w' = dead q1 w1"
      "q' = q1\<lparr>qCount := qCount q1 + 1, qBytes := qBytes q1 + int (length b)\<rparr>" "quiet w1 \<Longrightarrow> quiet w'" "dirs_kept w1 w'"
proof (cases "marshal_event ev")
  case None
  then have "r = Inl (MarshalEvent (ID ev))" "q' = q" "w' = w" using assms(3) by (simp_all add: Write_def)
  then show thesis by (intro failed [of _ 0]) (simp_all add: settled_refl)
next
  case (Some b)
  let ?n = "fileName ev"
  obtain re q1 w1 where en: "enforceLimitsLocked (int (length b)) q w = (re, q1, w1)" by (metis prod_cases3)
  obtain k where k: "k \<le> length (names q w)" "settled {} (set (take k (names q w))) q w q1 w1"
    "qDropped q1 = qDropped q + int k"
    "re = Inr () \<longrightarrow> \<not> overLimitLocked q1 (int (length b)) \<or> dom (live q1 w1) = {}"
    using enforceLimits_spec [OF assms(1) en] by blast
  have ok1: "queue_ok q1" using queue_ok_conf [OF assms(1), of q1] k(2) by (simp add: settled_def)
  have n: "event_name ?n" by (rule event_name_fileName [OF assms(2)])
  have after: "settled {} (set (take k (names q w))) q w q1 w'"
    if "live q1 w' = live q1 w1" "dead q1 w' = dead q1 w1" "dirs_kept w1 w'" "quiet w1 \<longrightarrow> quiet w'"
    using settled_trans [OF assms(1) k(2) settled_same [OF that]] by simp
  show thesis
  proof (cases re)
    case (Inl e)
    then have "r = Inl e" "q' = q1" "w' = w1" using assms(3) Some en by (simp_all add: Write_def)
    then show thesis using k by (intro failed [of e k]) simp_all
  next
    case (Inr u)
    let ?final = "join_path [qDir q1, ?n]"
    obtain r2 w2 where wt: "os_write_file (?final @ tmpSuffix) b filePerm w1 = (r2, w2)" by force
    obtain r3 w3 where rn: "os_rename (?final @ tmpSuffix) ?final w2 = (r3, w3)" by force
    obtain r4 w4 where rm: "os_remove (?final @ tmpSuffix) w3 = (r4, w4)" by force
    note t2 = write_temp [OF ok1 n wt]
    consider (a) e where "r2 = Inl e" | (b) v e where "r2 = Inr v" "r3 = Inl e" | (c) v z where "r2 = Inr v" "r3 = Inr z"
      by (cases r2; cases r3) auto
    then show thesis
    proof cases
      case a
      then have "r = Inl (WriteTemp e)" "q' = q1" "w' = w2"
        using assms(3) Some en Inr wt by (simp_all add: Write_def Let_def)
      moreover have "quiet w1 \<longrightarrow> quiet w2" using quiet_os(5) [OF wt] by blast
      ultimately show thesis using k t2 after by (intro failed [of _ k]) simp_all
    next
      case b
      then have "r = Inl (CommitEvent e)" "q' = q1" "w' = w4"
        using assms(3) Some en Inr wt rn rm by (simp_all add: Write_def Let_def)
      moreover have f3: "w_files w3 = w_files w2" using os_rename_err rn b by blast
      moreover have "\<not> is_dir_in (w_files w2) (?final @ tmpSuffix)"
        using written_not_dir wt b by blast
      then have "live q1 w4 = live q1 w2 \<and> dead q1 w4 = dead q1 w2 \<and> dirs_kept w2 w4"
        using remove_temp [OF ok1 n rm] f3 by (simp add: dirs_kept_def)
      moreover have "quiet w1 \<longrightarrow> quiet w4" using quiet_os(5) [OF wt] quiet_os(6) [OF rn] quiet_os(4) [OF rm] by blast
      ultimately show thesis using k t2 after dirs_kept_trans [of w1 w2 w4] by (intro failed [of _ k]) simp_all
    next
      case c
      then have "r = Inr ()" "w' = w3"
        and q': "q' = q1\<lparr>qCount := qCount q1 + 1, qBytes := qBytes q1 + int (length b)\<rparr>"
        using assms(3) Some en Inr wt rn by (simp_all add: Write_def Let_def)
      moreover have "live q1 w3 = (live q1 w1)(?n \<mapsto> b) \<and> dead q1 w3 = dead q1 w1 \<and> dirs_kept w1 w3"
        using commit_temp [OF ok1 n] wt rn c by blast
      moreover have "quiet w1 \<Longrightarrow> quiet w3" using quiet_os(5) [OF wt] quiet_os(6) [OF rn] by blast
      ultimately show thesis using k Some Inr by (intro stored [of b k q1 w1]) simp_all
    qed
  qed
qed


subsection \<open>Settling a batch\<close>

lemma os_rename_ENOENT:
  "os_rename old new w = (Inl ENOENT, w') \<Longrightarrow> is_dir_in (w_files w) (dir_name new) \<Longrightarrow> lookup w old = None"
  by (auto simp: os_rename_def write_check_def split: option.splits node.splits if_splits dest!: sys_ENOENT)

lemma deadLetterFile_spec:
  assumes "queue_ok q" and "event_name n" and "deadLetterFileLocked (join_path [qDir q, n]) sz q w = (r, q', w')"
    and "\<And>b. live q w n = Some b \<Longrightarrow> sz \<le> int (length b) \<and> (quiet w \<longrightarrow> sz = int (length b))"
  shows "\<exists>M. M \<subseteq> {n} \<and> settled M M q w q' w' \<and> qDropped q' = qDropped q
    \<and> (r = Inr () \<and> is_dir_in (w_files w) (qDeadDir q) \<longrightarrow> n \<notin> dom (live q' w'))"
proof -
  let ?p = "join_path [qDir q, n]" and ?to = "join_path [qDeadDir q, n]"
  obtain rr w1 where rn: "os_rename ?p ?to w = (rr, w1)" by force
  have dl: "deadLetterFileLocked ?p sz q w =
    (case rr of Inl e \<Rightarrow> (if e = ENOENT then (Inr (), q, w1) else (Inl (DeadLetterEntry (base_name ?p) e), q, w1))
     | Inr _ \<Rightarrow> (Inr (), q\<lparr>qCount := qCount q - 1, qBytes := qBytes q - sz\<rparr>, w1))"
    using rn dead_path [OF assms(1,2)] by (simp add: deadLetterFileLocked_def)
  have qt: "quiet w \<longrightarrow> quiet w1" using quiet_os(6) [OF rn] by blast
  show ?thesis
  proof (cases rr)
    case (Inl e)
    then have f: "w_files w1 = w_files w" using os_rename_err rn by blast
    have res: "q' = q" "w' = w1" "r = Inr () \<longrightarrow> e = ENOENT"
      using assms(3) dl Inl by (auto split: if_splits)
    have "n \<notin> dom (live q w)" if "e = ENOENT" "is_dir_in (w_files w) (qDeadDir q)"
    proof -
      have "dir_name ?to = qDeadDir q"
        using assms(1,2) dir_name_join [of "qDeadDir q" n] by (auto simp: event_name_def)
      then have "lookup w ?p = None" using os_rename_ENOENT [of ?p ?to w w1] rn Inl that by simp
      then show ?thesis by (auto simp: spool_Some_iff)
    qed
    then show ?thesis
      using res f qt settled_refl [of w1 w q] by (intro exI [of _ "{}"]) (auto simp: dom_def)
  next
    case (Inr u)
    obtain a b where old: "lookup w ?p = Some (File a b)" and nd: "\<not> is_dir_in (w_files w) ?to"
      and f: "w_files w1 = AList.update ?to (File a b) (AList.delete ?p (w_files w))"
      using os_rename_ok [of ?p ?to w u w1] rn Inr by auto
    have b: "live q w n = Some b" using old assms(2) by (auto simp: spool_Some_iff)
    have res: "r = Inr ()" "q' = q\<lparr>qCount := qCount q - 1, qBytes := qBytes q - sz\<rparr>" "w' = w1"
      using assms(3) dl Inr by auto
    have "settled {n} {n} q w q' w'"
    proof (rule settled_one [where sz = sz, OF assms(1) b])
      show "live q w' = live q w |` (- {n})" "dead q w' = dead q w ++ (live q w |` {n})"
        using live_move [OF assms(1) b f] res by simp_all
      show "dirs_kept w w'"
        using dirs_kept_move [OF old nd _ _ f] live_file [OF assms(1) b] res by blast
    qed (use res assms(4) [OF b] qt in \<open>simp_all add: same_conf_def\<close>)
    moreover from this have "n \<notin> dom (live q' w')" by (auto simp: settled_def same_conf_def)
    ultimately show ?thesis using res by (intro exI [of _ "{n}"]) simp
  qed
qed

abbreviation paths_of :: "queue \<Rightarrow> string list \<Rightarrow> string list" where
  "paths_of q ns \<equiv> map (\<lambda>n. join_path [qDir q, n]) ns"

text \<open>Names of event files: regular files that are there or gone, never directories.\<close>

definition file_names :: "queue \<Rightarrow> world \<Rightarrow> string list \<Rightarrow> bool" where
  "file_names q w ns \<longleftrightarrow> (\<forall>n\<in>set ns. event_name n \<and> \<not> is_dir_in (w_files w) (join_path [qDir q, n]))"

lemma file_names_kept: "file_names q w ns \<Longrightarrow> dirs_kept w w' \<Longrightarrow> same_conf q q' \<Longrightarrow> file_names q' w' ns"
  by (simp add: file_names_def dirs_kept_def same_conf_def)

lemma file_names_live: "queue_ok q \<Longrightarrow> set ns \<subseteq> dom (live q w) \<Longrightarrow> file_names q w ns"
  unfolding file_names_def by (metis (no_types) domD live_file(1,3) subsetD)

lemma size_of_live:
  assumes "queue_ok q" and "fileSize (join_path [qDir q, n]) w0 = (sz, w)" and "live q w n = Some b"
  shows "sz \<le> int (length b) \<and> (quiet w0 \<longrightarrow> sz = int (length b))"
proof -
  have "w_files w = w_files w0" using assms(2) by (rule fileSize_frame)
  then obtain a where "lookup w0 (join_path [qDir q, n]) = Some (File a b)"
    using live_file(2) [OF assms(1,3)] by auto
  with fileSize_bounds [OF assms(2)] show ?thesis by blast
qed

lemma ack_files_spec:
  assumes "queue_ok q" and "file_names q w ns" and "ack_files (paths_of q ns) fe q w = (r, q', w')"
  shows "\<exists>N\<subseteq>set ns. settled {} N q w q' w' \<and> qDropped q' = qDropped q
    \<and> (r = Inr () \<longrightarrow> fe = None \<and> set ns \<inter> dom (live q' w') = {})"
  using assms
proof (induction ns arbitrary: fe q w)
  case Nil
  have "settled {} {} q w q w" by (rule settled_refl) simp_all
  then show ?case using Nil by (intro exI [of _ "{}"]) (auto simp: as_result_def split: option.splits)
next
  case (Cons n ns)
  let ?p = "join_path [qDir q, n]"
  obtain sz w1 where fs: "fileSize ?p w = (sz, w1)" by force
  obtain rr w2 where rm: "os_remove ?p w1 = (rr, w2)" by force
  have f1: "w_files w1 = w_files w" using fs by (rule fileSize_frame)
  have qt: "quiet w \<longrightarrow> quiet w2" using fileSize_quiet [OF fs] quiet_os(4) [OF rm] by blast
  have nd: "event_name n" "\<not> is_dir_in (w_files w) ?p" using Cons.prems(2) by (auto simp: file_names_def)
  obtain q1 fe1 N1 where rest: "ack_files (paths_of q1 ns) fe1 q1 w2 = (r, q', w')"
    and N1: "N1 \<subseteq> {n}" "settled {} N1 q w q1 w2" "qDropped q1 = qDropped q"
    and fe1: "fe1 = None \<longrightarrow> fe = None \<and> n \<notin> dom (live q1 w2)"
  proof (cases rr)
    case (Inl e)
    then have f2: "w_files w2 = w_files w" using os_remove_err rm f1 by metis
    let ?fe = "if e = ENOENT then fe else first_error fe (AckEntry (base_name ?p) e)"
    have "ack_files (paths_of q ns) ?fe q w2 = (r, q', w')"
      using Cons.prems(3) fs rm Inl by (auto split: if_splits)
    moreover have "n \<notin> dom (live q w2)" if "e = ENOENT"
      using os_remove_ENOENT [of ?p w1 w2] rm Inl that f1 f2 by (auto simp: spool_Some_iff)
    ultimately show thesis
      using settled_refl [of w2 w q] f2 qt
      by (intro that [of q ?fe "{}"]) (auto simp: first_error_def split: option.splits if_splits)
  next
    case (Inr u)
    then have f2: "w_files w2 = AList.delete ?p (w_files w)" and ex: "lookup w ?p \<noteq> None"
      using os_remove_ok [of ?p w1 u w2] rm f1 by auto
    obtain nd0 where nd0: "lookup w ?p = Some nd0" using ex by blast
    then obtain a b where "lookup w ?p = Some (File a b)" using nd(2) by (cases nd0) (auto simp: is_dir_in_def)
    then have b: "live q w n = Some b" using nd(1) by (auto simp: spool_Some_iff)
    let ?q = "q\<lparr>qCount := qCount q - 1, qBytes := qBytes q - sz\<rparr>"
    have "settled {} {n} q w ?q w2"
    proof (rule settled_one [where sz = sz, OF Cons.prems(1) b])
      show "live q w2 = live q w |` (- {n})" "dead q w2 = dead q w ++ (live q w |` {})" "dirs_kept w w2"
        using live_remove [OF Cons.prems(1) b f2] by simp_all
    qed (use size_of_live [OF Cons.prems(1) fs] b f1 qt in \<open>simp_all add: same_conf_def\<close>)
    moreover from this have "n \<notin> dom (live ?q w2)" by (auto simp: settled_def same_conf_def)
    moreover have "ack_files (paths_of ?q ns) fe ?q w2 = (r, q', w')" using Cons.prems(3) fs rm Inr by simp
    ultimately show thesis by (intro that [of ?q fe "{n}"]) simp_all
  qed
  have ok1: "queue_ok q1" using queue_ok_conf [OF Cons.prems(1), of q1] N1(2) by (simp add: settled_def)
  have fn: "file_names q1 w2 ns"
    using N1(2) Cons.prems(2) file_names_kept [of q w ns w2 q1] by (simp add: settled_def file_names_def)
  obtain N where N: "N \<subseteq> set ns" "settled {} N q1 w2 q' w'" "qDropped q' = qDropped q1"
    "r = Inr () \<longrightarrow> fe1 = None \<and> set ns \<inter> dom (live q' w') = {}"
    using Cons.IH [OF ok1 fn rest] by blast
  have "dom (live q' w') \<subseteq> dom (live q1 w2)" using N(2) by (auto simp: settled_def same_conf_def)
  then show ?case
    using N N1 fe1 settled_trans [OF Cons.prems(1) N1(2) N(2)]
    by (intro exI [of _ "N1 \<union> N"]) auto
qed

lemma dead_files_spec:
  assumes "queue_ok q" and "file_names q w ns" and "dead_files (paths_of q ns) fe q w = (r, q', w')"
  shows "\<exists>N\<subseteq>set ns. settled N N q w q' w' \<and> qDropped q' = qDropped q
    \<and> (r = Inr () \<and> is_dir_in (w_files w) (qDeadDir q) \<longrightarrow> fe = None \<and> set ns \<inter> dom (live q' w') = {})"
  using assms
proof (induction ns arbitrary: fe q w)
  case Nil
  have "settled {} {} q w q w" by (rule settled_refl) simp_all
  then show ?case using Nil by (intro exI [of _ "{}"]) (auto simp: as_result_def split: option.splits)
next
  case (Cons n ns)
  let ?p = "join_path [qDir q, n]"
  obtain sz w1 where fs: "fileSize ?p w = (sz, w1)" by force
  obtain rr q2 w2 where dl: "deadLetterFileLocked ?p sz q w1 = (rr, q2, w2)" by (metis prod_cases3)
  let ?fe = "case rr of Inl e \<Rightarrow> first_error fe e | Inr _ \<Rightarrow> fe"
  have f1: "w_files w1 = w_files w" using fs by (rule fileSize_frame)
  have n: "event_name n" using Cons.prems(2) by (simp add: file_names_def)
  have s1: "settled {} {} q w q w1" using settled_refl [of w1 w q] f1 fileSize_quiet [OF fs] by blast
  have qt: "quiet w1 \<longrightarrow> quiet w" using quiet_back_fileSize [OF fs] by blast
  obtain M where M: "M \<subseteq> {n}" "settled M M q w1 q2 w2" "qDropped q2 = qDropped q"
    "rr = Inr () \<and> is_dir_in (w_files w1) (qDeadDir q) \<longrightarrow> n \<notin> dom (live q2 w2)"
    using deadLetterFile_spec [OF Cons.prems(1) n dl] size_of_live [OF Cons.prems(1) fs] qt by blast
  have s2: "settled M M q w q2 w2" using settled_trans [OF Cons.prems(1) s1 M(2)] by simp
  have ok2: "queue_ok q2" using queue_ok_conf [OF Cons.prems(1), of q2] s2 by (simp add: settled_def)
  have fn: "file_names q2 w2 ns"
    using s2 Cons.prems(2) file_names_kept [of q w ns w2 q2] by (simp add: settled_def file_names_def)
  have conf: "qDir q2 = qDir q" "qDeadDir q2 = qDeadDir q" "is_dir_in (w_files w2) (qDeadDir q) = is_dir_in (w_files w) (qDeadDir q)"
    using s2 by (simp_all add: settled_def same_conf_def dirs_kept_def)
  have rest: "dead_files (paths_of q2 ns) ?fe q2 w2 = (r, q', w')"
    using Cons.prems(3) fs dl conf by (simp split: sum.splits)
  obtain N where N: "N \<subseteq> set ns" "settled N N q2 w2 q' w'" "qDropped q' = qDropped q2"
    "r = Inr () \<and> is_dir_in (w_files w2) (qDeadDir q2) \<longrightarrow> ?fe = None \<and> set ns \<inter> dom (live q' w') = {}"
    using Cons.IH [OF ok2 fn rest] by blast
  have sub: "dom (live q' w') \<subseteq> dom (live q2 w2)" using N(2) by (auto simp: settled_def same_conf_def)
  have fin: "fe = None \<and> set (n # ns) \<inter> dom (live q' w') = {}"
    if "r = Inr ()" "is_dir_in (w_files w) (qDeadDir q)"
  proof -
    have fe: "?fe = None" and rem: "set ns \<inter> dom (live q' w') = {}" using N(4) that conf by auto
    then have "rr = Inr ()" and "fe = None" by (auto simp: first_error_def split: sum.splits option.splits)
    moreover from this have "n \<notin> dom (live q' w')" using M(4) that f1 sub by auto
    ultimately show ?thesis using rem by auto
  qed
  then show ?case
    using N M settled_trans [OF Cons.prems(1) s2 N(2)] by (intro exI [of _ "M \<union> N"]) auto
qed


lemma Ack_spec:
  assumes "queue_ok q" and "file_names q w ns" and "bFiles b = paths_of q ns" and "Ack b q w = (r, q', w')"
  shows "\<exists>N\<subseteq>set ns. settled {} N q w q' w' \<and> qDropped q' = qDropped q
    \<and> (r = Inr () \<longrightarrow> set ns \<inter> dom (live q' w') = {})"
  using ack_files_spec [OF assms(1,2), of None] assms(3,4) by (auto simp: Ack_def)

lemma DeadLetter_spec:
  assumes "queue_ok q" and "file_names q w ns" and "bFiles b = paths_of q ns" and "DeadLetter b q w = (r, q', w')"
  shows "\<exists>N\<subseteq>set ns. settled N N q w q' w' \<and> qDropped q' = qDropped q
    \<and> (r = Inr () \<and> is_dir_in (w_files w) (qDeadDir q) \<longrightarrow> set ns \<inter> dom (live q' w') = {})"
  using dead_files_spec [OF assms(1,2), of None] assms(3,4) by (auto simp: DeadLetter_def)

subsection \<open>Reading a batch\<close>

text \<open>What a batch holds, as a function of the pending events in order.\<close>

fun select :: "int \<Rightarrow> int \<Rightarrow> int \<Rightarrow> int \<Rightarrow> (string \<times> bytes) list \<Rightarrow> (string \<times> bytes) list" where
  "select maxN maxB k sofar [] = []"
| "select maxN maxB k sofar ((n, d) # es) =
     (if 0 < maxN \<and> k \<ge> maxN then []
      else if 0 < maxB \<and> 0 < k \<and> sofar + int (length d) > maxB then []
      else if unmarshal_event d = None then select maxN maxB k sofar es
      else (n, d) # select maxN maxB (k + 1) (sofar + int (length d)) es)"

definition entries :: "(string \<Rightarrow> bytes option) \<Rightarrow> string list \<Rightarrow> (string \<times> bytes) list" where
  "entries m ns = map (\<lambda>n. (n, the (m n))) ns"

definition decoded :: "(string \<times> bytes) list \<Rightarrow> event list" where
  "decoded es = map (\<lambda>(_, d). the (unmarshal_event d)) es"

definition corrupt :: "(string \<Rightarrow> bytes option) \<Rightarrow> string set" where
  "corrupt m = {n. \<exists>d. m n = Some d \<and> unmarshal_event d = None}"

lemma entries_simps [simp]:
  "entries m [] = []" "entries m (n # ns) = (n, the (m n)) # entries m ns"
  by (simp_all add: entries_def)

lemma read_entries_spec:
  assumes "queue_ok q" and "set ns \<subseteq> dom (live q w)" and "distinct ns"
    and "read_entries maxN maxB ns b sofar q w = (r, q', w')"
  shows "\<exists>D\<subseteq>corrupt (live q w). settled D D q w q' w' \<and> qDropped q' = qDropped q
    \<and> (\<forall>b'. r = Inr b' \<longrightarrow>
         Events b' = Events b @ decoded (select maxN maxB (batch_len b) sofar (entries (live q w) ns))
         \<and> bFiles b' = bFiles b @ paths_of q (map fst (select maxN maxB (batch_len b) sofar (entries (live q w) ns))))"
  using assms
proof (induction ns arbitrary: b sofar q w)
  case Nil
  have "settled {} {} q w q w" by (rule settled_refl) simp_all
  then show ?case using Nil by (intro exI [of _ "{}"]) (auto simp: decoded_def)
next
  case (Cons n ns)
  let ?p = "join_path [qDir q, n]" and ?sel = "\<lambda>k s m l. select maxN maxB k s (entries m l)"
  obtain d where d: "live q w n = Some d" using Cons.prems(2) by auto
  obtain rr w1 where rd: "os_read_file ?p w = (rr, w1)" by force
  have f1: "w_files w1 = w_files w" using rd by (rule read_only_frame(3))
  have q1: "quiet w \<longrightarrow> quiet w1" using quiet_os(3) [OF rd] by blast
  have s1: "settled {} {} q w q w1" by (rule settled_refl [OF f1 q1])
  have s0: "settled {} {} q w q w" by (rule settled_refl) simp_all
  show ?case
  proof (cases "0 < maxN \<and> batch_len b \<ge> maxN")
    case True
    then show ?thesis using Cons.prems(4) s0 by (intro exI [of _ "{}"]) (auto simp: decoded_def)
  next
    case more: False
    show ?thesis
    proof (cases rr)
      case (Inl e)
      have "e \<noteq> ENOENT"
        using os_read_file_ENOENT [of ?p w w1] rd Inl live_file(2) [OF Cons.prems(1) d] by auto
      then show ?thesis
        using Cons.prems(4) more rd Inl s1 by (intro exI [of _ "{}"]) (auto simp: Let_def)
    next
      case (Inr d')
      then have dd: "d' = d" using os_read_file_ok [of ?p w d' w1] rd live_file(2) [OF Cons.prems(1) d] by auto
      show ?thesis
      proof (cases "0 < maxB \<and> 0 < batch_len b \<and> sofar + int (length d) > maxB")
        case True
        then show ?thesis
          using Cons.prems(4) more rd Inr dd d s1 by (intro exI [of _ "{}"]) (auto simp: Let_def decoded_def)
      next
        case fits: False
        have rest: "set ns \<subseteq> dom (live q w)" "distinct ns" "n \<notin> set ns" using Cons.prems(2,3) by auto
        show ?thesis
        proof (cases "unmarshal_event d")
          case None
          obtain r2 q2 w2 where dl: "deadLetterFileLocked ?p (int (length d)) q w1 = (r2, q2, w2)"
            by (metis prod_cases3)
          obtain M where M: "M \<subseteq> {n}" "settled M M q w1 q2 w2" "qDropped q2 = qDropped q"
            using deadLetterFile_spec [OF Cons.prems(1) live_file(1) [OF Cons.prems(1) d] dl] d f1 by auto
          have s2: "settled M M q w q2 w2" using settled_trans [OF Cons.prems(1) s1 M(2)] by simp
          have conf: "same_conf q q2" and ok2: "queue_ok q2"
            using s2 queue_ok_conf [OF Cons.prems(1), of q2] by (auto simp: settled_def)
          have lv: "live q2 w2 = live q w |` (- M)" using s2 by (simp add: settled_def same_conf_def)
          have sub: "set ns \<subseteq> dom (live q2 w2)" using rest M(1) lv by auto
          have ent: "entries (live q2 w2) ns = entries (live q w) ns"
            using rest M(1) lv by (auto simp: entries_def restrict_map_def)
          have "read_entries maxN maxB ns b sofar q2 w2 = (r, q', w')"
            using Cons.prems(4) more fits rd Inr dd None dl by (simp add: Let_def)
          from Cons.IH [OF ok2 sub rest(2) this] obtain D where D: "D \<subseteq> corrupt (live q2 w2)"
            "settled D D q2 w2 q' w'" "qDropped q' = qDropped q2"
            "\<forall>b'. r = Inr b' \<longrightarrow> Events b' = Events b @ decoded (?sel (batch_len b) sofar (live q2 w2) ns)
              \<and> bFiles b' = bFiles b @ paths_of q2 (map fst (?sel (batch_len b) sofar (live q2 w2) ns))" by blast
          have "corrupt (live q2 w2) \<subseteq> corrupt (live q w)" using lv by (auto simp: corrupt_def restrict_map_def split: if_splits)
          moreover have "M \<subseteq> corrupt (live q w)" using M(1) d None by (auto simp: corrupt_def)
          ultimately have "M \<union> D \<subseteq> corrupt (live q w)" using D(1) by blast
          moreover have "settled (M \<union> D) (M \<union> D) q w q' w'" by (rule settled_trans [OF Cons.prems(1) s2 D(2)])
          moreover have "?sel (batch_len b) sofar (live q w) (n # ns) = ?sel (batch_len b) sofar (live q2 w2) ns"
            unfolding ent entries_simps(2) d select.simps option.sel by (simp only: more fits None if_False if_True simp_thms)
          moreover have "paths_of q2 = paths_of q" using conf by (simp add: same_conf_def)
          ultimately show ?thesis unfolding M(3) [symmetric] D(3) [symmetric] using D(4)
            by (intro exI [of _ "M \<union> D"]) (simp only: simp_thms)
        next
          case (Some ev)
          let ?b = "\<lparr>Events = Events b @ [ev], bFiles = bFiles b @ [?p]\<rparr>"
          have len: "batch_len ?b = batch_len b + 1" by (simp add: batch_len_def)
          have l1: "live q w1 = live q w" using f1 by simp
          have sub: "set ns \<subseteq> dom (live q w1)" using rest(1) l1 by simp
          have "read_entries maxN maxB ns ?b (sofar + int (length d)) q w1 = (r, q', w')"
            using Cons.prems(4) more fits rd Inr dd Some by (simp add: Let_def)
          from Cons.IH [OF Cons.prems(1) sub rest(2) this, unfolded l1] obtain D where D: "D \<subseteq> corrupt (live q w)"
            "settled D D q w1 q' w'" "qDropped q' = qDropped q"
            "\<forall>b'. r = Inr b' \<longrightarrow>
              Events b' = Events ?b @ decoded (?sel (batch_len ?b) (sofar + int (length d)) (live q w) ns)
              \<and> bFiles b' = bFiles ?b @ paths_of q (map fst (?sel (batch_len ?b) (sofar + int (length d)) (live q w) ns))"
            by blast
          have "settled D D q w q' w'" using settled_trans [OF Cons.prems(1) s1 D(2)] by simp
          moreover have S: "?sel (batch_len b) sofar (live q w) (n # ns)
              = (n, d) # ?sel (batch_len ?b) (sofar + int (length d)) (live q w) ns" (is "?S = _ # ?S'")
            unfolding len entries_simps(2) d select.simps option.sel
            by (simp only: more fits Some if_False simp_thms option.distinct)
          have dec: "decoded ?S = ev # decoded ?S'" unfolding S using Some by (simp add: decoded_def)
          have pth: "paths_of q (map fst ?S) = ?p # paths_of q (map fst ?S')" unfolding S by simp
          have "Events b' = Events b @ decoded ?S \<and> bFiles b' = bFiles b @ paths_of q (map fst ?S)" if "r = Inr b'" for b'
            unfolding dec pth using D(4) [rule_format, OF that] by simp
          ultimately show ?thesis using D(1,3) by blast
        qed
      qed
    qed
  qed
qed

lemma ReadBatch_spec:
  assumes "queue_ok q" and "ReadBatch maxN maxB q w = (r, q', w')"
  shows "\<exists>D\<subseteq>corrupt (live q w). settled D D q w q' w' \<and> qDropped q' = qDropped q
    \<and> (\<forall>b. r = Inr b \<longrightarrow>
         Events b = decoded (select maxN maxB 0 0 (entries (live q w) (names q w)))
         \<and> bFiles b = paths_of q (map fst (select maxN maxB 0 0 (entries (live q w) (names q w)))))"
proof -
  obtain r1 w1 where sp: "sortedPendingLocked q w = (r1, w1)" by force
  have f1: "w_files w1 = w_files w" using sp by (rule sortedPending_frame)
  have s1: "settled {} {} q w q w1"
    using settled_refl [OF f1] quiet_sortedPending [OF sp] by blast
  show ?thesis
  proof (cases r1)
    case (Inl e)
    then show ?thesis using assms(2) sp s1 by (intro exI [of _ "{}"]) (auto simp: ReadBatch_def)
  next
    case (Inr ns)
    then have ns: "names q w = ns" using listed_names assms(1) sp by blast
    have rd: "read_entries maxN maxB ns empty_batch 0 q w1 = (r, q', w')"
      using assms(2) sp Inr by (simp add: ReadBatch_def)
    have "set ns \<subseteq> dom (live q w1)" "distinct ns"
      using set_names [OF assms(1), of w] ns f1 distinct_pending by auto
    from read_entries_spec [OF assms(1) this rd] f1 obtain D where D: "D \<subseteq> corrupt (live q w)"
      "settled D D q w1 q' w'" "qDropped q' = qDropped q"
      "\<forall>b. r = Inr b \<longrightarrow> Events b = decoded (select maxN maxB 0 0 (entries (live q w) ns))
         \<and> bFiles b = paths_of q (map fst (select maxN maxB 0 0 (entries (live q w) ns)))"
      by (auto simp: empty_batch_def batch_len_def)
    moreover have "settled D D q w q' w'" using settled_trans [OF assms(1) s1 D(2)] by simp
    ultimately show ?thesis using ns by (intro exI [of _ D]) simp
  qed
qed

end
