(* ===== verification/Buffer_Open.thy ===== *)
theory Buffer_Open
  imports Buffer_Ops
begin

text \<open>
  Opening a queue: the directories are made, files left by a write that did not finish are cleared
  away, and the counters are those of the events found on disk.
\<close>

subsection \<open>Making the directories\<close>

lemma spool_same_regular: "same_regular t t' \<Longrightarrow> spool t' d = spool t d"
proof (rule ext)
  fix n
  assume "same_regular t t'"
  then have "spool t' d n = Some b \<longleftrightarrow> spool t d n = Some b" for b
    by (simp add: spool_Some_iff same_regular_def)
  then show "spool t' d n = spool t d n" by (metis option.exhaust)
qed

lemma dir_chain_render:
  assumes "normal_stack rooted (rev cs)" and "cs \<noteq> []"
  shows "dir_chain (render_path rooted cs) = map (\<lambda>k. render_path rooted (take (Suc k) cs)) [0..<length cs]"
proof -
  have hd: "render_path rooted cs \<noteq> [] \<and> (hd (render_path rooted cs) = slash \<longleftrightarrow> rooted)"
    using normal_join_head [OF assms] assms(2) by (auto simp: render_path_def)
  have "filter (\<lambda>c. c \<noteq> []) cs = cs"
    using assms(1) normal_plain [of rooted "rev cs"] by (intro filter_True) (auto simp: plain_elem_def)
  then have "filter (\<lambda>c. c \<noteq> []) (split_on slash (render_path rooted cs)) = cs"
    using normal_join_split [OF assms] assms(2) by (auto simp: render_path_def)
  with hd show ?thesis by (simp add: dir_chain_def Let_def)
qed

lemma dir_chain_child:
  assumes "is_clean d" and "valid_name n"
  shows "join_path [d, n] \<in> set (dir_chain (join_path [d, n]))"
    and "d = [slash] \<or> d = ''.'' \<or> d \<in> set (dir_chain (join_path [d, n]))"
proof -
  obtain rooted cs where d: "d = render_path rooted cs" and ns: "normal_stack rooted (rev cs)"
    using is_clean_form [OF assms(1)] by blast
  let ?cs = "cs @ [n]"
  have j: "join_path [d, n] = render_path rooted ?cs"
    using render_snoc [OF ns] assms d by (simp add: join_path_name valid_name_def)
  have ch: "dir_chain (join_path [d, n]) = map (\<lambda>k. render_path rooted (take (Suc k) ?cs)) [0..<length ?cs]"
    unfolding j using normal_stack_snoc [OF ns assms(2)] by (intro dir_chain_render) simp_all
  show "join_path [d, n] \<in> set (dir_chain (join_path [d, n]))"
    unfolding ch unfolding j by (auto simp: image_iff intro!: bexI [of _ "length cs"])
  show "d = [slash] \<or> d = ''.'' \<or> d \<in> set (dir_chain (join_path [d, n]))"
  proof (cases "cs = []")
    case True
    then show ?thesis using d by (auto simp: render_path_def)
  next
    case False
    then have "d = render_path rooted (take (Suc (length cs - 1)) ?cs)" using d by simp
    then show ?thesis unfolding ch using False by (auto simp: image_iff intro!: bexI [of _ "length cs - 1"])
  qed
qed

subsection \<open>Counting what is there\<close>

lemma tmp_not_event: "has_suffix n tmpSuffix \<Longrightarrow> \<not> has_suffix n fileSuffix"
  by (auto simp: has_suffix_iff tmpSuffix_def fileSuffix_def append_eq_append_conv2 append_eq_Cons_conv)

definition listed :: "queue \<Rightarrow> world \<Rightarrow> (string \<times> bool) list \<Rightarrow> bool" where
  "listed q w es \<longleftrightarrow> (\<forall>(n, isdir)\<in>set es. valid_name n \<and> lookup w (join_path [qDir q, n]) \<noteq> None
     \<and> isdir = is_dir_in (w_files w) (join_path [qDir q, n]))"

lemma init_scan_spec:
  assumes "queue_ok q" and "listed q w es" and "distinct (map fst es)"
    and "init_scan q es count bs w = (Inr (count', bs'), w')"
  shows "live q w' = live q w \<and> dead q w' = dead q w \<and> dirs_kept w w' \<and> (quiet w \<longrightarrow> quiet w')
    \<and> count' = count + int (length (filter (\<lambda>n. n \<in> dom (live q w)) (map fst es)))
    \<and> bs' = bs + (\<Sum>n\<leftarrow>filter (\<lambda>n. n \<in> dom (live q w)) (map fst es). int (length (the (live q w n))))
    \<and> (quiet w \<longrightarrow> (\<forall>n\<in>set (map fst es). has_suffix n tmpSuffix \<and> \<not> is_dir_in (w_files w) (join_path [qDir q, n])
          \<longrightarrow> lookup w' (join_path [qDir q, n]) = None))
    \<and> (\<forall>p. lookup w p = None \<longrightarrow> lookup w' p = None)"
  using assms
proof (induction es arbitrary: count bs w)
  case (Cons e es)
  obtain n isdir where e: "e = (n, isdir)" by force
  let ?p = "join_path [qDir q, n]"
  have n: "valid_name n" "lookup w ?p \<noteq> None" "isdir = is_dir_in (w_files w) ?p"
    using Cons.prems(2) e by (auto simp: listed_def)
  have es: "listed q w es" "distinct (map fst es)" "n \<notin> fst ` set es"
    using Cons.prems(2,3) e by (auto simp: listed_def)
  have cl: "is_clean (qDir q)" using Cons.prems(1) by auto
  have isd: "is_dir_in (w_files w) ?p \<longleftrightarrow> (\<exists>a. lookup w ?p = Some (Dir a))" by (rule is_dir_join [OF cl n(1)])
  consider (d) "isdir" | (t) "\<not> isdir" "has_suffix n tmpSuffix"
    | (j) "\<not> isdir" "\<not> has_suffix n tmpSuffix" "has_suffix n fileSuffix"
    | (o) "\<not> isdir" "\<not> has_suffix n tmpSuffix" "\<not> has_suffix n fileSuffix" by blast
  then show ?case
  proof cases
    case d
    then have "n \<notin> dom (live q w)" using n isd by (auto simp: spool_Some_iff)
    with Cons.IH [OF Cons.prems(1) es(1,2)] Cons.prems(4) e d n show ?thesis by simp
  next
    case t
    obtain r w1 where rm: "os_remove ?p w = (r, w1)" by force
    have rec: "init_scan q es count bs w1 = (Inr (count', bs'), w')" using Cons.prems(4) e t rm by simp
    have ne: "\<not> event_name n" using t(2) tmp_not_event by (auto simp: event_name_def)
    then have nl: "n \<notin> dom (live q w)" by (auto simp: spool_Some_iff)
    have fr: "foreign (qDir q) ?p" "foreign (qDeadDir q) ?p"
      using ne cl join_path_inj [OF cl n(1)] foreign_parent [OF cl valid_dead n(1)] Cons.prems(1)
      by (auto simp: foreign_def event_name_def queue_ok_def)
    have nd: "\<not> is_dir_in (w_files w) ?p" using t n by simp
    have w1: "live q w1 = live q w \<and> dead q w1 = dead q w \<and> dirs_kept w w1 \<and> (\<forall>p. p \<noteq> ?p \<longrightarrow> lookup w1 p = lookup w p)
        \<and> (\<forall>p. lookup w p = None \<longrightarrow> lookup w1 p = None) \<and> (quiet w \<longrightarrow> quiet w1 \<and> lookup w1 ?p = None)"
    proof (cases r)
      case (Inl er)
      obtain a b where f: "lookup w ?p = Some (File a b)" using n(2) nd isd by (cases "the (lookup w ?p)") auto
      have "\<not> quiet w" using rm Inl f by (auto simp: os_remove_def sys_quiet)
      then show ?thesis using os_remove_err [of ?p w er w1] rm Inl by simp
    next
      case (Inr u)
      then have f: "w_files w1 = AList.delete ?p (w_files w)" using os_remove_ok [of ?p w u w1] rm by simp
      then show ?thesis
        using fr dirs_kept_delete [OF nd f] quiet_os(4) [OF rm] by (auto simp: spool_foreign_delete map_of_delete)
    qed
    have "listed q w1 es"
      using es(1,3) w1 join_path_inj [OF cl _ n(1)] unfolding listed_def dirs_kept_def by (fastforce simp: image_iff)
    from Cons.IH [OF Cons.prems(1) this es(2) rec] w1 show ?thesis
      using e nl by (auto simp: dirs_kept_def)
  next
    case j
    then have ev: "event_name n" using n by (simp add: event_name_def)
    obtain r w1 where st: "os_stat ?p w = (r, w1)" by force
    have f1: "w_files w1 = w_files w" using st by (rule read_only_frame(2))
    have qt: "quiet w \<longrightarrow> quiet w1" using quiet_os(2) [OF st] by blast
    obtain a b where f: "lookup w ?p = Some (File a b)" using n j isd by (cases "the (lookup w ?p)") auto
    have lv: "live q w n = Some b" using f ev by (auto simp: spool_Some_iff)
    have r: "r = Inr (File a b)"
    proof (cases r)
      case (Inl er)
      have "er \<noteq> ENOENT" using os_stat_ENOENT [of ?p w w1] st Inl f by auto
      then show ?thesis using Cons.prems(4) e j st Inl by simp
    next
      case (Inr nd)
      then show ?thesis using os_stat_ok [of ?p w nd w1] st f by simp
    qed
    have rec: "init_scan q es (count + 1) (bs + int (length b)) w1 = (Inr (count', bs'), w')"
      using Cons.prems(4) e j st r by (simp add: node_size_def)
    have "listed q w1 es" using es(1) f1 by (simp add: listed_def)
    from Cons.IH [OF Cons.prems(1) this es(2) rec] show ?thesis
      using e lv f1 qt j n by (auto simp: dirs_kept_def)
  next
    case o
    then have nl: "n \<notin> dom (live q w)" by (auto simp: spool_Some_iff event_name_def)
    with Cons.IH [OF Cons.prems(1) es(1,2)] Cons.prems(4) e o n show ?thesis by simp
  qed
qed simp


subsection \<open>The opened queue\<close>

text \<open>The counters tell the truth about the disk.\<close>

definition exact :: "queue \<Rightarrow> world \<Rightarrow> bool" where
  "exact q w \<longleftrightarrow> qCount q = int (card (dom (live q w))) \<and> qBytes q = bytes_of (live q w)"

text \<open>The directories are there.\<close>

definition dirs_there :: "queue \<Rightarrow> world \<Rightarrow> bool" where
  "dirs_there q w \<longleftrightarrow> is_dir_in (w_files w) (qDir q) \<and> is_dir_in (w_files w) (qDeadDir q)"

lemma Open_spec:
  assumes "is_clean d" and "Open d lim w = (Inr q, w')"
  shows "queue_ok q \<and> qDir q = d \<and> qLimits q = lim \<and> qDropped q = 0"
    and "live q w' = spool (w_files w) d" and "dead q w' = spool (w_files w) (join_path [d, deadDirName])"
    and "exact q w'" and "dirs_there q w'" and "quiet w \<Longrightarrow> quiet w'"
    and "quiet w \<Longrightarrow> valid_name n \<Longrightarrow> has_suffix n tmpSuffix \<Longrightarrow>
      \<not> is_dir_in (w_files w') (join_path [d, n]) \<Longrightarrow> lookup w' (join_path [d, n]) = None"
proof -
  let ?dead = "join_path [d, deadDirName]"
  let ?q = "\<lparr>qDir = d, qDeadDir = ?dead, qLimits = lim, qCount = 0, qBytes = 0, qDropped = 0\<rparr>"
  obtain u w1 where mk: "os_mkdir_all ?dead dirPerm w = (Inr u, w1)" and init: "initLocked ?q w1 = (Inr (), q, w')"
    using assms(2) by (auto simp: Open_def Let_def split: prod.splits sum.splits)
  then obtain es w2 c b where rd: "os_read_dir d w1 = (Inr es, w2)"
    and sc: "init_scan ?q es 0 0 w2 = (Inr (c, b), w')" and q: "q = ?q\<lparr>qCount := c, qBytes := b\<rparr>"
    by (auto simp: initLocked_def split: prod.splits sum.splits)
  have okq: "queue_ok ?q" using assms(1) by (simp add: queue_ok_def)
  have f2: "w_files w2 = w_files w1" using rd by (rule read_only_frame(1))
  have cl: "clean d = d" using assms(1) by (simp add: is_clean_def)
  have es: "es = map (\<lambda>n. (n, is_dir_in (w_files w1) (join_path [d, n]))) (names_in (w_files w1) d)"
    using os_read_dir_ok [OF rd] cl by simp
  have fst_es: "map fst es = names_in (w_files w1) d" unfolding es by (simp add: o_def)
  have li: "listed ?q w2 es" "distinct (map fst es)"
    using os_read_dir_mem [OF rd] f2 fst_es by (auto simp: listed_def)
  note sp = init_scan_spec [OF okq li sc]
  have live2: "live ?q w2 = spool (w_files w) d" "dead ?q w2 = spool (w_files w) ?dead"
    using spool_same_regular [OF mkdir_all_ok(1) [OF mk]] f2 by simp_all
  have names: "set (filter (\<lambda>n. n \<in> dom (live ?q w2)) (map fst es)) = dom (live ?q w2)"
    using assms(1) f2 by (auto simp: fst_es mem_names_in spool_Some_iff event_name_def)
  have dis: "distinct (filter (\<lambda>n. n \<in> dom (live ?q w2)) (map fst es))" using li(2) by simp
  show "queue_ok q \<and> qDir q = d \<and> qLimits q = lim \<and> qDropped q = 0" using okq q by (simp add: queue_ok_def)
  show l: "live q w' = spool (w_files w) d" and "dead q w' = spool (w_files w) ?dead"
    using sp live2 q by simp_all
  have "length (filter (\<lambda>n. n \<in> dom (live ?q w2)) (map fst es)) = card (dom (live ?q w2))"
    using distinct_card [OF dis] names by simp
  moreover have "(\<Sum>n\<leftarrow>filter (\<lambda>n. n \<in> dom (live ?q w2)) (map fst es). int (length (the (live ?q w2 n)))) = bytes_of (live ?q w2)"
    using sum_list_distinct_conv_sum_set [OF dis] names by (simp add: bytes_of_def)
  ultimately show "exact q w'" using sp live2 q by (simp add: exact_def)
  have "is_dir_in (w_files w1) ?dead" "is_dir_in (w_files w1) d"
    using mkdir_all_ok(2) [OF mk] dir_chain_child [OF assms(1) valid_dead] by (auto simp: is_dir_in_def)
  then show "dirs_there q w'" using sp q f2 by (simp add: dirs_there_def dirs_kept_def)
  show "quiet w'" if "quiet w" using sp quiet_os(1) [OF rd] quiet_os(7) [OF mk] that by blast
  show "lookup w' (join_path [d, n]) = None"
    if "quiet w" "valid_name n" "has_suffix n tmpSuffix" "\<not> is_dir_in (w_files w') (join_path [d, n])"
  proof -
    have q2: "quiet w2" using quiet_os(1) [OF rd] quiet_os(7) [OF mk] that(1) by blast
    have nd: "\<not> is_dir_in (w_files w2) (join_path [d, n])" using sp that(4) by (simp add: dirs_kept_def)
    show ?thesis
    proof (cases "n \<in> set (map fst es)")
      case True
      then show ?thesis using sp q2 that(3) nd by auto
    next
      case False
      then have "lookup w2 (join_path [d, n]) = None"
        using fst_es that(2) assms(1) f2 by (simp add: mem_names_in)
      then show ?thesis using sp by simp
    qed
  qed
qed

end
