(* ===== verification/Buffer_Fifo.thy ===== *)
theory Buffer_Fifo
  imports Buffer_Open
begin

text \<open>
  The order of the queue.  A file is named after the nanosecond its event was collected and the
  event's ID; \<open>fifo_key\<close> is that pair with the intended order, and for collection times since 1970
  and IDs of one length the names sort the same way.
\<close>

datatype fifo_key = FifoKey (fk_nanos: nat) (fk_id: string)

instantiation fifo_key :: linorder
begin

definition less_fifo_key :: "fifo_key \<Rightarrow> fifo_key \<Rightarrow> bool" where
  "less_fifo_key a b \<longleftrightarrow> fk_nanos a < fk_nanos b \<or> fk_nanos a = fk_nanos b \<and> fk_id a < fk_id b"

definition less_eq_fifo_key :: "fifo_key \<Rightarrow> fifo_key \<Rightarrow> bool" where
  "less_eq_fifo_key a b \<longleftrightarrow> fk_nanos a < fk_nanos b \<or> fk_nanos a = fk_nanos b \<and> fk_id a \<le> fk_id b"

instance
proof
  fix a b c :: fifo_key
  show "a < b \<longleftrightarrow> a \<le> b \<and> \<not> b \<le> a" by (auto simp: less_fifo_key_def less_eq_fifo_key_def)
  show "a \<le> a" by (simp add: less_eq_fifo_key_def)
  show "a \<le> b \<Longrightarrow> b \<le> c \<Longrightarrow> a \<le> c" by (auto simp: less_eq_fifo_key_def)
  show "a \<le> b \<Longrightarrow> b \<le> a \<Longrightarrow> a = b" by (cases a; cases b) (auto simp: less_eq_fifo_key_def)
  show "a \<le> b \<or> b \<le> a" by (auto simp: less_eq_fifo_key_def)
qed

end

definition event_key :: "event \<Rightarrow> fifo_key" where
  "event_key ev = FifoKey (nat (unix_nano (CollectedAt ev))) (ID ev)"

text \<open>Collected between 1970 and 2262, where \<open>UnixNano\<close> is non-negative.\<close>

definition since_1970 :: "event \<Rightarrow> bool" where
  "since_1970 ev \<longleftrightarrow> 0 \<le> unix_nano (CollectedAt ev)"

lemma nanos_small: "nat (unix_nano t) < 10 ^ 20"
proof -
  have "unix_nano t < 2 ^ 63" using wrap64_range [of t] by (simp add: unix_nano_def)
  then have "unix_nano t < 10 ^ 20" by simp
  then show ?thesis by simp
qed

lemma fileName_since_1970:
  "since_1970 ev \<Longrightarrow> fileName ev = pad_zero 20 (nat (unix_nano (CollectedAt ev))) @ CHR ''-'' # ID ev @ fileSuffix"
  by (simp add: fileName_def fmt_0d_def since_1970_def)

lemma fileName_less_iff:
  assumes "since_1970 a" and "since_1970 b" and "length (ID a) = length (ID b)"
  shows "fileName a < fileName b \<longleftrightarrow> event_key a < event_key b"
proof -
  let ?m = "nat (unix_nano (CollectedAt a))" and ?n = "nat (unix_nano (CollectedAt b))"
  have len: "length (pad_zero 20 ?m) = length (pad_zero 20 ?n)"
    using length_pad_zero [OF nanos_small, of "CollectedAt a"] length_pad_zero [OF nanos_small, of "CollectedAt b"] by simp
  have eq: "pad_zero 20 ?m = pad_zero 20 ?n \<longleftrightarrow> ?m = ?n" by (metis dval_pad_zero)
  have "ID a @ fileSuffix < ID b @ fileSuffix \<longleftrightarrow> ID a < ID b"
    using lex_less_append_same_length [OF assms(3), of fileSuffix fileSuffix] by auto
  then show ?thesis
    unfolding fileName_since_1970 [OF assms(1)] fileName_since_1970 [OF assms(2)] lex_less_append_same_length [OF len]
    using pad_zero_less_iff [OF nanos_small nanos_small, of "CollectedAt a" "CollectedAt b"] eq
    by (auto simp: event_key_def less_fifo_key_def)
qed

lemma fileName_eq_iff:
  assumes "since_1970 a" and "since_1970 b" and "length (ID a) = length (ID b)"
  shows "fileName a = fileName b \<longleftrightarrow> event_key a = event_key b"
  using fileName_less_iff [OF assms] fileName_less_iff [OF assms(2,1)] assms(3) by (metis not_less_iff_gr_or_eq)

end
