(* ===== verification/Settlement.thy ===== *)
theory Settlement
  imports Go_Prelude
begin

text \<open>
  The contract between a durable queue and the code that empties it.  \<open>held s\<close> is what the queue
  holds and \<open>parked s\<close> what has been put aside for inspection; \<open>settle D N s t\<close> says that from \<open>s\<close> to
  \<open>t\<close> exactly the entries \<open>N\<close> left the queue, those of \<open>D\<close> among them to be parked.  A queue that
  keeps this contract loses nothing by itself: \<open>left_only A s t\<close> is the consumer's side, that every
  entry which disappeared is in the set \<open>A\<close> the consumer answers for.
\<close>

locale settlement =
  fixes inv :: "'s \<Rightarrow> bool"
    and held :: "'s \<Rightarrow> 'k \<Rightarrow> 'v option"
    and parked :: "'s \<Rightarrow> 'k \<Rightarrow> 'v option"
    and settle :: "'k set \<Rightarrow> 'k set \<Rightarrow> 's \<Rightarrow> 's \<Rightarrow> bool"
  assumes settle_inv: "inv s \<Longrightarrow> settle D N s t \<Longrightarrow> inv t"
    and settle_held: "inv s \<Longrightarrow> settle D N s t \<Longrightarrow> held t = held s |` (- N)"
    and settle_parked: "inv s \<Longrightarrow> settle D N s t \<Longrightarrow> parked t = parked s ++ (held s |` D)"
    and settle_sub: "inv s \<Longrightarrow> settle D N s t \<Longrightarrow> D \<subseteq> N"
    and settle_trans: "inv s \<Longrightarrow> settle D N s t \<Longrightarrow> settle E M t u \<Longrightarrow> settle (D \<union> E) (N \<union> M) s u"
    and settle_none: "inv s \<Longrightarrow> settle {} {} s s"
begin

definition left_only :: "'k set \<Rightarrow> 's \<Rightarrow> 's \<Rightarrow> bool" where
  "left_only A s t \<longleftrightarrow> (\<exists>D N. settle D N s t \<and> N - D \<subseteq> A)"

lemma left_only_refl: "inv s \<Longrightarrow> left_only {} s s"
  using settle_none by (auto simp: left_only_def)

lemma left_only_inv: "inv s \<Longrightarrow> left_only A s t \<Longrightarrow> inv t"
  using settle_inv by (auto simp: left_only_def)

lemma left_only_mono: "left_only A s t \<Longrightarrow> A \<subseteq> B \<Longrightarrow> left_only B s t"
  by (auto simp: left_only_def)

lemma left_only_trans:
  assumes "inv s" and "left_only A s t" and "left_only B t u"
  shows "left_only (A \<union> B) s u"
proof -
  obtain D N E M where s: "settle D N s t" "N - D \<subseteq> A" and t: "settle E M t u" "M - E \<subseteq> B"
    using assms(2,3) by (auto simp: left_only_def)
  have "settle (D \<union> E) (N \<union> M) s u" using assms(1) s(1) t(1) by (rule settle_trans)
  moreover have "(N \<union> M) - (D \<union> E) \<subseteq> A \<union> B" using s(2) t(2) by blast
  ultimately show ?thesis by (auto simp: left_only_def)
qed

text \<open>Every entry is accounted for: still held, parked unchanged, or answered for.\<close>

lemma accounted:
  assumes "inv s" and "left_only A s t" and "held s k = Some v"
  shows "held t k = Some v \<or> parked t k = Some v \<or> k \<in> A"
proof -
  obtain D N where s: "settle D N s t" "N - D \<subseteq> A" using assms(2) by (auto simp: left_only_def)
  consider "k \<notin> N" | "k \<in> D" | "k \<in> N" "k \<notin> D" by blast
  then show ?thesis
  proof cases
    case 1
    then show ?thesis using settle_held [OF assms(1) s(1)] assms(3) by simp
  next
    case 2
    then show ?thesis using settle_parked [OF assms(1) s(1)] assms(3) by (simp add: restrict_map_def)
  qed (use s(2) in auto)
qed

text \<open>Nothing appears from nowhere, and nothing is held and freshly parked at once.\<close>

lemma held_before: "inv s \<Longrightarrow> left_only A s t \<Longrightarrow> held t k = Some v \<Longrightarrow> held s k = Some v"
  by (auto simp: left_only_def restrict_map_def dest: settle_held split: if_splits)

lemma parked_from:
  assumes "inv s" and "left_only A s t" and "parked t k = Some v"
  shows "parked s k = Some v \<or> held s k = Some v \<and> held t k = None"
proof -
  obtain D N where s: "settle D N s t" using assms(2) by (auto simp: left_only_def)
  have p: "parked t = parked s ++ (held s |` D)" and h: "held t = held s |` (- N)" and d: "D \<subseteq> N"
    using settle_parked settle_held settle_sub assms(1) s by blast+
  show ?thesis using assms(3) d unfolding p h by (auto simp: map_add_Some_iff restrict_map_def split: if_splits)
qed

end

end
