(* ===== verification/Buffer_Props.thy ===== *)
theory Buffer_Props
  imports Buffer_Fifo Settlement
begin

text \<open>
  The queue as a machine: \<open>buf_step\<close> is one call of one of its operations under an arbitrary pattern
  of failures, and the invariants hold in every state reachable from \<open>Open\<close>.
\<close>

subsection \<open>Invariants\<close>

text \<open>The counters never understate what is on disk, so the limits are never exceeded unnoticed.\<close>

definition covered :: "queue \<Rightarrow> world \<Rightarrow> bool" where
  "covered q w \<longleftrightarrow> queue_ok q \<and> int (card (dom (live q w))) \<le> qCount q \<and> bytes_of (live q w) \<le> qBytes q"

text \<open>The pending events respect the limits, up to one event that alone is too large.\<close>

definition within_limits :: "queue \<Rightarrow> world \<Rightarrow> bool" where
  "within_limits q w \<longleftrightarrow>
     (0 < MaxEvents (qLimits q) \<longrightarrow> int (card (dom (live q w))) \<le> MaxEvents (qLimits q)) \<and>
     (0 < MaxBytes (qLimits q) \<longrightarrow> bytes_of (live q w) \<le> MaxBytes (qLimits q) \<or> card (dom (live q w)) = 1)"

lemma settled_dom: "settled D N q w q' w' \<Longrightarrow> dom (live q' w') = dom (live q w) - N"
  by (auto simp: settled_def same_conf_def)

lemma settled_card:
  assumes "queue_ok q" and "settled D N q w q' w'"
  shows "card (dom (live q' w')) + card N = card (dom (live q w))"
proof -
  have fin: "finite (dom (live q w))" using assms(1) by simp
  have "N \<subseteq> dom (live q w)" using assms(2) by (simp add: settled_def)
  then show ?thesis
    using settled_dom [OF assms(2)] fin card_Diff_subset [of N "dom (live q w)"] card_mono [of "dom (live q w)" N]
      finite_subset [of N "dom (live q w)"] by simp
qed

lemma settled_bytes:
  assumes "queue_ok q" and "settled D N q w q' w'"
  shows "bytes_of (live q' w') + bytes_of (live q w |` N) = bytes_of (live q w)"
  using bytes_of_restrict [of "live q w" N] assms by (simp add: settled_def same_conf_def)

lemma settled_queue_ok: "queue_ok q \<Longrightarrow> settled D N q w q' w' \<Longrightarrow> queue_ok q'"
  using queue_ok_conf [of q q'] by (simp add: settled_def)

lemma settled_covered [inv_intros]:
  assumes "covered q w" and "settled D N q w q' w'"
  shows "covered q' w'"
proof -
  have ok: "queue_ok q" using assms(1) by (simp add: covered_def)
  show ?thesis
    using settled_card [OF ok assms(2)] settled_bytes [OF ok assms(2)] settled_queue_ok [OF ok assms(2)] assms
    by (simp add: covered_def settled_def)
qed

lemma settled_exact [inv_intros]:
  assumes "queue_ok q" and "exact q w" and "settled D N q w q' w'" and "quiet w"
  shows "exact q' w'"
  using settled_card [OF assms(1,3)] settled_bytes [OF assms(1,3)] assms
  by (simp add: exact_def settled_def)

lemma settled_within [inv_intros]:
  assumes "queue_ok q" and "within_limits q w" and "settled D N q w q' w'"
  shows "within_limits q' w'"
proof -
  have c: "qLimits q' = qLimits q" using assms(3) by (simp add: settled_def same_conf_def)
  have n: "card (dom (live q' w')) \<le> card (dom (live q w))" using settled_card [OF assms(1,3)] by simp
  have b: "bytes_of (live q' w') \<le> bytes_of (live q w)"
    using settled_bytes [OF assms(1,3)] bytes_of_nonneg [of "live q w |` N"] by simp
  have z: "bytes_of (live q' w') = 0" if "card (dom (live q' w')) = 0"
    using that settled_queue_ok [OF assms(1,3)] by simp
  have "bytes_of (live q' w') \<le> MaxBytes (qLimits q) \<or> card (dom (live q' w')) = 1" if "0 < MaxBytes (qLimits q)"
  proof (cases "card (dom (live q w)) = 1")
    case True
    then consider "card (dom (live q' w')) = 0" | "card (dom (live q' w')) = 1" using n by linarith
    then show ?thesis using z that by cases auto
  next
    case False
    then show ?thesis using assms(2) b that by (auto simp: within_limits_def)
  qed
  then show ?thesis using assms(2) n c by (auto simp: within_limits_def)
qed

text \<open>The queue keeps the contract of \<open>settlement\<close>.\<close>

definition spool_settled :: "string set \<Rightarrow> string set \<Rightarrow> queue \<times> world \<Rightarrow> queue \<times> world \<Rightarrow> bool" where
  "spool_settled D N s t \<longleftrightarrow> settled D N (fst s) (snd s) (fst t) (snd t)"

definition state_ok :: "queue \<times> world \<Rightarrow> bool" where
  "state_ok s \<longleftrightarrow> queue_ok (fst s)"

definition held_events :: "queue \<times> world \<Rightarrow> string \<Rightarrow> bytes option" where
  "held_events s = live (fst s) (snd s)"

definition dead_events :: "queue \<times> world \<Rightarrow> string \<Rightarrow> bytes option" where
  "dead_events s = dead (fst s) (snd s)"

lemmas spool_defs = spool_settled_def state_ok_def held_events_def dead_events_def

interpretation sq: settlement state_ok held_events dead_events spool_settled
proof
  fix s t u :: "queue \<times> world" and D N E M
  assume s: "state_ok s"
  show "spool_settled {} {} s s" by (simp add: spool_defs settled_refl)
  assume st: "spool_settled D N s t"
  show "state_ok t" using settled_queue_ok s st by (auto simp: spool_defs)
  show "held_events t = held_events s |` (- N)" "dead_events t = dead_events s ++ (held_events s |` D)" "D \<subseteq> N"
    using st by (auto simp: spool_defs settled_def same_conf_def)
  show "spool_settled E M t u \<Longrightarrow> spool_settled (D \<union> E) (N \<union> M) s u"
    using settled_trans s st by (auto simp: spool_defs)
qed

subsection \<open>After a write\<close>

lemma card_upd: "finite (dom m) \<Longrightarrow> card (dom (m(n \<mapsto> b))) \<le> card (dom m) + 1
    \<and> (m n = None \<longrightarrow> card (dom (m(n \<mapsto> b))) = card (dom m) + 1)"
  by (auto simp: card_insert_if domIff)

lemma bytes_upd: "finite (dom m) \<Longrightarrow> bytes_of (m(n \<mapsto> b)) \<le> bytes_of m + int (length b)
    \<and> (m n = None \<longrightarrow> bytes_of (m(n \<mapsto> b)) = bytes_of m + int (length b))"
proof (cases "m n")
  case (Some c)
  assume fin: "finite (dom m)"
  have "bytes_of (m(n \<mapsto> b)) = bytes_of ((m(n := None))(n \<mapsto> b))" by simp
  also have "\<dots> = bytes_of (m(n := None)) + int (length b)" using fin by (intro bytes_of_insert) auto
  finally show ?thesis using bytes_of_remove [OF fin Some] Some by simp
qed (simp add: bytes_of_insert)

lemma Write_covered [inv_intros]:
  assumes "covered q w" and "slash \<notin> set (ID ev)" and "Write ev q w = (r, q', w')"
  shows "covered q' w'"
proof -
  have ok: "queue_ok q" using assms(1) by (simp add: covered_def)
  from ok assms(2,3) show ?thesis
  proof (cases rule: Write_cases)
    case (failed e k)
    then show ?thesis using settled_covered assms(1) by blast
  next
    case (stored b k q1 w1)
    have c1: "covered q1 w1" using stored(4) assms(1) settled_covered by blast
    then have "finite (dom (live q1 w1))" by (simp add: covered_def)
    with c1 stored(7,9) card_upd [of "live q1 w1" "fileName ev" b] bytes_upd [of "live q1 w1" "fileName ev" b]
    show ?thesis by (auto simp: covered_def queue_ok_def)
  qed
qed

lemma Write_within:
  assumes "covered q w" and "slash \<notin> set (ID ev)" and "Write ev q w = (Inr u, q', w')"
  shows "within_limits q' w'"
proof -
  have ok: "queue_ok q" using assms(1) by (simp add: covered_def)
  from ok assms(2,3) show ?thesis
  proof (cases rule: Write_cases)
    case (stored b k q1 w1)
    have c1: "covered q1 w1" using stored(4) assms(1) settled_covered by blast
    then have fin: "finite (dom (live q1 w1))" by (simp add: covered_def)
    have conf: "qLimits q' = qLimits q1" using stored(9) by simp
    note cu = card_upd [OF fin, of "fileName ev" b] and bu = bytes_upd [OF fin, of "fileName ev" b]
    from stored(6) show ?thesis
    proof
      assume "\<not> overLimitLocked q1 (int (length b))"
      then show ?thesis
        using c1 cu bu stored(7) conf by (auto simp: within_limits_def overLimitLocked_def covered_def)
    next
      assume "dom (live q1 w1) = {}"
      then have "card (dom (live q' w')) = 1" unfolding stored(7) by simp
      then show ?thesis by (simp add: within_limits_def)
    qed
  qed simp
qed

lemma Write_exact:
  assumes "queue_ok q" and "exact q w" and "quiet w" and "slash \<notin> set (ID ev)" and "Write ev q w = (r, q', w')"
    and "live q w (fileName ev) = None"
  shows "exact q' w'" and "quiet w'"
proof -
  from assms(1,4,5) have "exact q' w' \<and> quiet w'"
  proof (cases rule: Write_cases)
    case (failed e k)
    then show ?thesis
      using settled_exact [OF assms(1,2) failed(3) assms(3)] assms(3) by (simp add: settled_def)
  next
    case (stored b k q1 w1)
    have e1: "exact q1 w1" using settled_exact [OF assms(1,2) stored(4) assms(3)] .
    have fin: "finite (dom (live q1 w1))" using settled_queue_ok [OF assms(1) stored(4)] by simp
    have "live q1 w1 (fileName ev) = None"
      using stored(4) assms(6) by (auto simp: settled_def same_conf_def restrict_map_def)
    then show ?thesis
      using e1 card_upd [OF fin, of "fileName ev" b] bytes_upd [OF fin, of "fileName ev" b] stored assms(3)
      by (auto simp: exact_def settled_def)
  qed
  then show "exact q' w'" "quiet w'" by blast+
qed

subsection \<open>Runs of the queue\<close>

text \<open>
  One operation.  A batch is one that \<open>ReadBatch\<close> could have returned: its files are event files
  (there or already gone).
\<close>

inductive buf_step :: "queue \<times> world \<Rightarrow> queue \<times> world \<Rightarrow> bool" where
  step_write: "slash \<notin> set (ID ev) \<Longrightarrow> Write ev q w = (r, q', w') \<Longrightarrow> buf_step (q, w) (q', w')"
| step_read: "ReadBatch maxN maxB q w = (r, q', w') \<Longrightarrow> buf_step (q, w) (q', w')"
| step_ack: "file_names q w ns \<Longrightarrow> bFiles b = paths_of q ns \<Longrightarrow> Ack b q w = (r, q', w') \<Longrightarrow> buf_step (q, w) (q', w')"
| step_dead: "file_names q w ns \<Longrightarrow> bFiles b = paths_of q ns \<Longrightarrow> DeadLetter b q w = (r, q', w')
    \<Longrightarrow> buf_step (q, w) (q', w')"

inductive_cases buf_stepE: "buf_step (q, w) (q', w')"

inductive buf_reach :: "string \<Rightarrow> limits \<Rightarrow> queue \<times> world \<Rightarrow> bool" for d lim where
  opened: "Open d lim w = (Inr q, w') \<Longrightarrow> buf_reach d lim (q, w')"
| step: "buf_reach d lim s \<Longrightarrow> buf_step s s' \<Longrightarrow> buf_reach d lim s'"

lemma step_covered: "buf_step (q, w) (q', w') \<Longrightarrow> covered q w \<Longrightarrow> covered q' w'"
proof (erule buf_stepE)
  fix ev r assume "covered q w" "slash \<notin> set (ID ev)" "Write ev q w = (r, q', w')"
  then show "covered q' w'" by (rule Write_covered)
next
  fix maxN maxB r assume c: "covered q w" and rd: "ReadBatch maxN maxB q w = (r, q', w')"
  then obtain D where "settled D D q w q' w'" using ReadBatch_spec [of q maxN maxB w r q' w'] by (auto simp: covered_def)
  then show "covered q' w'" by (rule settled_covered [OF c])
next
  fix ns b r assume c: "covered q w" and fn: "file_names q w ns" "bFiles b = paths_of q ns" "Ack b q w = (r, q', w')"
  then obtain N where "settled {} N q w q' w'" using Ack_spec [of q w ns b r q' w'] by (auto simp: covered_def)
  then show "covered q' w'" by (rule settled_covered [OF c])
next
  fix ns b r assume c: "covered q w" and fn: "file_names q w ns" "bFiles b = paths_of q ns" "DeadLetter b q w = (r, q', w')"
  then obtain N where "settled N N q w q' w'" using DeadLetter_spec [of q w ns b r q' w'] by (auto simp: covered_def)
  then show "covered q' w'" by (rule settled_covered [OF c])
qed

lemma exact_covered: "queue_ok q \<Longrightarrow> exact q w \<Longrightarrow> covered q w"
  by (simp add: exact_def covered_def)

lemma Open_covered:
  assumes "is_clean d" and "Open d lim w = (Inr q, w')"
  shows "covered q w'"
  using exact_covered Open_spec(1,4) [OF assms] by blast

lemma reach_covered: "buf_reach d lim (q, w) \<Longrightarrow> is_clean d \<Longrightarrow> covered q w"
proof (induction "(q, w)" arbitrary: q w rule: buf_reach.induct)
  case (opened w0 q w)
  then show ?case by (intro Open_covered)
next
  case (step s q w)
  then show ?case using step_covered by (cases s) blast
qed

end
