(* ===== verification/Buffer_Refine.thy ===== *)
theory Buffer_Refine
  imports Buffer_Props
begin

text \<open>
  The queue against its abstract specification: a list of named records in ascending order.  Without
  failures every operation does to the directory what the specification does to the list.
\<close>

subsection \<open>The abstract queue\<close>

type_synonym aqueue = "(string \<times> bytes) list"

definition total_bytes :: "aqueue \<Rightarrow> int" where
  "total_bytes es = (\<Sum>(n, b)\<leftarrow>es. int (length b))"

definition too_full :: "limits \<Rightarrow> int \<Rightarrow> aqueue \<Rightarrow> bool" where
  "too_full lim incoming es \<longleftrightarrow>
     0 < MaxEvents lim \<and> int (length es) + 1 > MaxEvents lim
     \<or> 0 < MaxBytes lim \<and> total_bytes es + incoming > MaxBytes lim"

fun make_room :: "limits \<Rightarrow> int \<Rightarrow> aqueue \<Rightarrow> aqueue" where
  "make_room lim incoming [] = []"
| "make_room lim incoming (e # es) =
     (if too_full lim incoming (e # es) then make_room lim incoming es else e # es)"

definition aq_write :: "limits \<Rightarrow> string \<Rightarrow> bytes \<Rightarrow> aqueue \<Rightarrow> aqueue" where
  "aq_write lim n b es = insort_key fst (n, b) (make_room lim (int (length b)) es)"

definition aq_remove :: "string set \<Rightarrow> aqueue \<Rightarrow> aqueue" where
  "aq_remove N es = filter (\<lambda>(n, _). n \<notin> N) es"

definition abs_queue :: "queue \<Rightarrow> world \<Rightarrow> aqueue" where
  "abs_queue q w = entries (live q w) (names q w)"

lemma make_room_suffix: "\<exists>k. make_room lim incoming es = drop k es"
proof (induction es)
  case (Cons e es)
  then obtain k where "make_room lim incoming es = drop k es" by blast
  then have "make_room lim incoming (e # es) = drop (if too_full lim incoming (e # es) then Suc k else 0) (e # es)"
    by simp
  then show ?case by blast
qed simp

lemma make_room_fits: "make_room lim incoming es = [] \<or> \<not> too_full lim incoming (make_room lim incoming es)"
  by (induction es) auto

text \<open>No more is dropped than needed.\<close>

lemma make_room_least: "\<not> too_full lim incoming (drop k es) \<Longrightarrow> length (drop k es) \<le> length (make_room lim incoming es)"
proof (induction es arbitrary: k)
  case (Cons e es)
  then show ?case by (cases k) (auto simp: le_Suc_eq)
qed simp

lemma map_fst_abs [simp]: "map fst (abs_queue q w) = names q w"
  by (simp add: abs_queue_def entries_def o_def)

lemma length_abs: "queue_ok q \<Longrightarrow> length (abs_queue q w) = card (dom (live q w))"
  by (simp add: abs_queue_def entries_def length_pending queue_ok_clean)

lemma total_abs: "queue_ok q \<Longrightarrow> total_bytes (abs_queue q w) = bytes_of (live q w)"
  using sum_list_distinct_conv_sum_set [OF distinct_pending, of "\<lambda>n. int (length (the (live q w n)))" "w_files w" "qDir q"]
  by (simp add: total_bytes_def abs_queue_def entries_def bytes_of_def o_def)

lemma too_full_abs:
  "queue_ok q \<Longrightarrow> exact q w \<Longrightarrow> too_full (qLimits q) incoming (abs_queue q w) \<longleftrightarrow> overLimitLocked q incoming"
  by (simp add: too_full_def overLimitLocked_def exact_def length_abs total_abs)

subsection \<open>The operations without failures\<close>

lemma quiet_listed:
  assumes "queue_ok q" and "quiet w" and "dirs_there q w"
  shows "\<exists>w'. sortedPendingLocked q w = (Inr (names q w), w')"
proof -
  have "qDir q \<noteq> []" "clean (qDir q) = qDir q" using assms(1) by (auto simp: queue_ok_def is_clean_def)
  then have "\<exists>es w'. os_read_dir (qDir q) w = (Inr es, w')"
    using assms(2,3) by (simp add: os_read_dir_def sys_quiet dirs_there_def)
  then obtain ns w' where "sortedPendingLocked q w = (Inr ns, w')"
    by (auto simp: sortedPendingLocked_def)
  with listed_names [OF assms(1)] show ?thesis by auto
qed

lemma quiet_remove:
  assumes "quiet w" and "lookup w p = Some (File a b)"
  shows "\<exists>w'. os_remove p w = (Inr (), w')"
  using assms by (simp add: os_remove_def sys_quiet)

lemma quiet_drop:
  assumes "queue_ok q" and "quiet w" and "dirs_there q w"
  shows "\<exists>q' w'. dropOldestLocked q w = (Inr (names q w \<noteq> []), q', w')"
proof -
  obtain w1 where sp: "sortedPendingLocked q w = (Inr (names q w), w1)" using quiet_listed [OF assms] by blast
  show ?thesis
  proof (cases "names q w")
    case Nil
    then show ?thesis using sp by (simp add: dropOldestLocked_def)
  next
    case (Cons n ns)
    let ?p = "join_path [qDir q, n]"
    obtain sz w2 where fs: "fileSize ?p w1 = (sz, w2)" by force
    have "n \<in> dom (live q w)" using set_names [OF assms(1), of w] Cons by auto
    then obtain a b where "lookup w ?p = Some (File a b)" by (auto simp: spool_Some_iff)
    moreover have "w_files w2 = w_files w" using sp fs by (simp add: frame_simps)
    moreover have "quiet w2" using quiet_sortedPending [OF sp assms(2)] fileSize_quiet [OF fs] by blast
    ultimately obtain w3 where "os_remove ?p w2 = (Inr (), w3)" using quiet_remove by metis
    then show ?thesis using sp fs Cons by (auto simp: dropOldestLocked_def Let_def)
  qed
qed

lemma abs_settled:
  assumes "queue_ok q" and "settled D N q w q' w'"
  shows "abs_queue q' w' = aq_remove N (abs_queue q w)"
proof -
  have ok': "queue_ok q'" by (rule settled_queue_ok [OF assms])
  have n: "names q' w' = filter (\<lambda>n. n \<notin> N) (names q w)"
  proof -
    have "dom (live q' w') = set (filter (\<lambda>n. n \<notin> N) (names q w))"
      using settled_dom [OF assms(2)] assms(1) by auto
    then show ?thesis
      using sorted_list_unique [of "filter (\<lambda>n. n \<notin> N) (names q w)"]
      by (simp add: pending_def [of "w_files w'"] sorted_filter [where f = id, simplified])
  qed
  have "live q' w' = live q w |` (- N)" using assms(2) by (simp add: settled_def same_conf_def)
  then show ?thesis
    by (simp add: abs_queue_def n entries_def aq_remove_def filter_map o_def case_prod_beta)
qed

lemma abs_drop:
  assumes "queue_ok q" and "settled D (set (take k (names q w))) q w q' w'"
  shows "abs_queue q' w' = drop k (abs_queue q w)"
proof -
  have n: "names q' w' = drop k (names q w)" by (rule settled_names [OF assms])
  have "live q' w' = live q w |` (- set (take k (names q w)))"
    using assms(2) by (simp add: settled_def same_conf_def)
  moreover have "m \<notin> set (take k (names q w))" if "m \<in> set (drop k (names q w))" for m
    using that distinct_pending [of "w_files w" "qDir q"]
    by (metis append_take_drop_id disjoint_iff distinct_append)
  ultimately show ?thesis by (auto simp: abs_queue_def entries_def n drop_map)
qed

lemma enforce_refines:
  assumes "queue_ok q" and "exact q w" and "quiet w" and "dirs_there q w"
  shows "\<exists>q' w'. enforceLimitsLocked incoming q w = (Inr (), q', w')
    \<and> abs_queue q' w' = make_room (qLimits q) incoming (abs_queue q w)"
  using assms
proof (induction incoming q w rule: enforceLimitsLocked.induct)
  case (1 incoming q w)
  show ?case
  proof (cases "overLimitLocked q incoming")
    case False
    then have "make_room (qLimits q) incoming (abs_queue q w) = abs_queue q w"
      using too_full_abs [OF 1(2,3), of incoming] by (cases "abs_queue q w") auto
    then show ?thesis using False by (simp add: enforceLimitsLocked.simps)
  next
    case over: True
    obtain q1 w1 where d: "dropOldestLocked q w = (Inr (names q w \<noteq> []), q1, w1)" using quiet_drop 1 by blast
    note spec = dropOldest_spec [OF 1(2) d]
    show ?thesis
    proof (cases "names q w")
      case Nil
      then have "abs_queue q w = []" by (simp add: abs_queue_def)
      then show ?thesis
        using over d spec Nil by (simp add: enforceLimitsLocked.simps abs_queue_def)
    next
      case (Cons n ns)
      then have s: "settled {} (set (take 1 (names q w))) q w q1 w1" using spec by simp
      have ok1: "queue_ok q1" by (rule settled_queue_ok [OF 1(2) s])
      have ex1: "exact q1 w1" by (rule settled_exact [OF 1(2,3) s 1(4)])
      have qt: "quiet w1" using dropOldest_quiet [OF d 1(4)] .
      have dt: "dirs_there q1 w1" and lim: "qLimits q1 = qLimits q"
        using s 1(5) by (simp_all add: dirs_there_def settled_def same_conf_def dirs_kept_def)
      have ab: "abs_queue q1 w1 = tl (abs_queue q w)" using abs_drop [OF 1(2) s] by (simp add: drop_Suc)
      obtain e es where e: "abs_queue q w = e # es" using Cons by (cases "abs_queue q w") (auto simp: abs_queue_def)
      have mr: "make_room (qLimits q) incoming (abs_queue q w) = make_room (qLimits q1) incoming (abs_queue q1 w1)"
        using over too_full_abs [OF 1(2,3), of incoming] e ab lim by simp
      have rec: "enforceLimitsLocked incoming q w = enforceLimitsLocked incoming q1 w1"
        using over d Cons by (simp add: enforceLimitsLocked.simps [of incoming q])
      show ?thesis unfolding mr rec
        using 1(1) [OF over d [symmetric] refl refl _ ok1 ex1 qt dt] Cons by simp
    qed
  qed
qed


text \<open>Nothing but regular files stands where the event and its temporary file go.\<close>

definition clear_for :: "queue \<Rightarrow> world \<Rightarrow> string \<Rightarrow> bool" where
  "clear_for q w n \<longleftrightarrow> \<not> is_dir_in (w_files w) (join_path [qDir q, n])
     \<and> \<not> is_dir_in (w_files w) (join_path [qDir q, n] @ tmpSuffix)"

lemma quiet_write_file:
  assumes "quiet w" and "is_dir_in (w_files w) (dir_name p)" and "\<not> is_dir_in (w_files w) p"
  shows "\<exists>w'. os_write_file p b m w = (Inr (), w')"
  using assms by (simp add: os_write_file_def sys_quiet write_check_def)

lemma quiet_rename:
  assumes "quiet w" and "lookup w old = Some (File a b)" and "is_dir_in (w_files w) (dir_name new)"
    and "\<not> is_dir_in (w_files w) new"
  shows "\<exists>w'. os_rename old new w = (Inr (), w')"
  using assms by (simp add: os_rename_def sys_quiet write_check_def)

lemma quiet_Write_ok:
  assumes "queue_ok q" and "exact q w" and "quiet w" and "dirs_there q w" and "clear_for q w (fileName ev)"
    and "slash \<notin> set (ID ev)" and "marshal_event ev = Some b"
  shows "\<exists>q' w'. Write ev q w = (Inr (), q', w')"
proof -
  let ?n = "fileName ev" and ?inc = "int (length b)"
  obtain q1 w1 where en: "enforceLimitsLocked ?inc q w = (Inr (), q1, w1)"
    using enforce_refines [OF assms(1-4)] by blast
  obtain k where s: "settled {} (set (take k (names q w))) q w q1 w1"
    using enforceLimits_spec [OF assms(1) en] by blast
  let ?final = "join_path [qDir q, ?n]"
  have cl: "is_clean (qDir q)" and ev: "event_name ?n"
    using assms(1) event_name_fileName [OF assms(6)] by auto
  have conf: "qDir q1 = qDir q" and dk: "dirs_kept w w1" and q1: "quiet w1"
    using s assms(3) by (auto simp: settled_def same_conf_def)
  have dn: "dir_name (?final @ tmpSuffix) = qDir q" "dir_name ?final = qDir q"
    using tmp_path [OF cl ev] dir_name_join [OF cl] ev by (simp_all add: event_name_def)
  have d1: "is_dir_in (w_files w1) (qDir q)" "\<not> is_dir_in (w_files w1) (?final @ tmpSuffix)" "\<not> is_dir_in (w_files w1) ?final"
    using dk assms(4,5) by (auto simp: dirs_kept_def dirs_there_def clear_for_def)
  obtain w2 where wt: "os_write_file (?final @ tmpSuffix) b filePerm w1 = (Inr (), w2)"
    using quiet_write_file [OF q1] d1 dn by metis
  obtain a where f2: "w_files w2 = AList.update (?final @ tmpSuffix) (File a b) (w_files w1)"
    using os_write_file_ok [OF wt] by blast
  have "dirs_kept w1 w2" by (rule dirs_kept_update [OF d1(2) f2])
  moreover have "lookup w2 (?final @ tmpSuffix) = Some (File a b)" by (simp add: f2 map_of_update)
  ultimately obtain w3 where "os_rename (?final @ tmpSuffix) ?final w2 = (Inr (), w3)"
    using quiet_rename [OF quiet_os(5) [OF wt q1]] d1 dn by (metis dirs_kept_def)
  then show ?thesis using en wt conf assms(7) by (simp add: Write_def Let_def)
qed

lemma insort_unique:
  assumes "sorted (map fst es)" and "distinct (map fst es)" and "n \<notin> fst ` set es"
    and "sorted (map fst fs)" and "distinct (map fst fs)" and "set fs = insert (n, b) (set es)"
  shows "insort_key fst (n, b) es = fs"
proof (rule map_sorted_distinct_set_unique [of fst])
  show "inj_on fst (set (insort_key fst (n, b) es) \<union> set fs)"
    using assms(5,6) by (auto simp: set_insort_key distinct_map)
  show "sorted (map fst (insort_key fst (n, b) es))" using assms(1) by (simp add: sorted_insort_key)
  have "distinct es" using assms(2) by (simp add: distinct_map)
  then have "distinct (insort_key fst (n, b) es)"
    using assms(3) by (simp add: distinct_insort image_iff) force
  moreover have "inj_on fst (set (insort_key fst (n, b) es))"
    using assms(5,6) by (simp add: set_insort_key distinct_map)
  ultimately show "distinct (map fst (insort_key fst (n, b) es))" by (simp add: distinct_map)
  show "set (insort_key fst (n, b) es) = set fs" using assms(6) by (simp add: set_insort_key)
qed (use assms in simp_all)

lemma set_abs: "queue_ok q \<Longrightarrow> set (abs_queue q w) = {(n, b). live q w n = Some b}"
  by (force simp: abs_queue_def entries_def image_iff)

lemma Write_refines:
  assumes "queue_ok q" and "exact q w" and "quiet w" and "dirs_there q w" and "clear_for q w (fileName ev)"
    and "slash \<notin> set (ID ev)" and "marshal_event ev = Some b" and "live q w (fileName ev) = None"
  shows "\<exists>q' w'. Write ev q w = (Inr (), q', w')
    \<and> abs_queue q' w' = aq_write (qLimits q) (fileName ev) b (abs_queue q w)
    \<and> qDropped q' = qDropped q + (int (length (abs_queue q w)) + 1 - int (length (abs_queue q' w')))"
proof -
  obtain q' w' where wr: "Write ev q w = (Inr (), q', w')" using quiet_Write_ok [OF assms(1-7)] by blast
  let ?n = "fileName ev" and ?es = "make_room (qLimits q) (int (length b)) (abs_queue q w)"
  from assms(1,6) wr have "abs_queue q' w' = aq_write (qLimits q) ?n b (abs_queue q w)
      \<and> qDropped q' = qDropped q + (int (length (abs_queue q w)) + 1 - int (length (abs_queue q' w')))"
  proof (cases rule: Write_cases)
    case (stored b' k q1 w1)
    have b': "b' = b" using stored(2) assms(7) by simp
    obtain q2 w2 where en: "enforceLimitsLocked (int (length b)) q w = (Inr (), q2, w2)"
      and room: "abs_queue q2 w2 = ?es" using enforce_refines [OF assms(1-4)] by blast
    obtain k2 where s2: "settled {} (set (take k2 (names q w))) q w q2 w2"
      and dr2: "qDropped q2 = qDropped q + int k2" and k2: "k2 \<le> length (names q w)"
      using enforceLimits_spec [OF assms(1) en] by blast
    have l12: "live q' w' = (live q2 w2)(?n \<mapsto> b) \<and> qDropped q' = qDropped q2"
    proof -
      have ok2: "queue_ok q2" by (rule settled_queue_ok [OF assms(1) s2])
      obtain v x y z where wt: "os_write_file (join_path [qDir q2, ?n] @ tmpSuffix) b filePerm w2 = (Inr v, y)"
        and rn: "os_rename (join_path [qDir q2, ?n] @ tmpSuffix) (join_path [qDir q2, ?n]) y = (Inr x, w')"
        and q': "q' = q2\<lparr>qCount := qCount q2 + 1, qBytes := qBytes q2 + int (length b)\<rparr>"
        using wr en assms(7) by (auto simp: Write_def Let_def split: prod.splits sum.splits)
      show ?thesis using commit_temp [OF ok2 event_name_fileName [OF assms(6)] wt rn] q' by simp
    qed
    have ok': "queue_ok q'" and ok2: "queue_ok q2"
      using stored(9) settled_queue_ok [OF assms(1) stored(4)] settled_queue_ok [OF assms(1) s2]
      by (auto simp: queue_ok_def)
    have fresh: "live q2 w2 ?n = None"
      using s2 assms(8) by (auto simp: settled_def same_conf_def restrict_map_def)
    have "insort_key fst (?n, b) (abs_queue q2 w2) = abs_queue q' w'"
    proof (rule insort_unique)
      show "?n \<notin> fst ` set (abs_queue q2 w2)" using fresh ok2 by (auto simp: set_abs)
      show "set (abs_queue q' w') = insert (?n, b) (set (abs_queue q2 w2))"
        using ok' ok2 l12 fresh by (auto simp: set_abs split: if_splits)
    qed simp_all
    then have ab: "abs_queue q' w' = aq_write (qLimits q) ?n b (abs_queue q w)"
      using room by (simp add: aq_write_def)
    moreover have "int (length ?es) = int (length (abs_queue q w)) - int k2"
    proof -
      have "length (abs_queue q w) = length (names q w)" by (simp add: abs_queue_def entries_def)
      moreover have "?es = drop k2 (abs_queue q w)" using abs_drop [OF assms(1) s2] room by simp
      ultimately show ?thesis using k2 by (simp add: of_nat_diff)
    qed
    ultimately show ?thesis using l12 dr2 by (simp add: aq_write_def)
  qed simp
  with wr show ?thesis by blast
qed


subsection \<open>Settling without failures\<close>

lemma quiet_ack_files:
  assumes "queue_ok q" and "file_names q w ns" and "quiet w"
  shows "\<exists>q' w'. ack_files (paths_of q ns) fe q w = (as_result fe, q', w')"
  using assms
proof (induction ns arbitrary: q w)
  case (Cons n ns)
  let ?p = "join_path [qDir q, n]"
  obtain sz w1 where fs: "fileSize ?p w = (sz, w1)" by force
  obtain r w2 where rm: "os_remove ?p w1 = (r, w2)" by force
  have q1: "quiet w1" and f1: "w_files w1 = w_files w"
    using fileSize_quiet [OF fs Cons.prems(3)] fileSize_frame [OF fs] by simp_all
  have q2: "quiet w2" using quiet_os(4) [OF rm q1] .
  have nd: "\<not> is_dir_in (w_files w) ?p" using Cons.prems(2) by (simp add: file_names_def)
  have r: "r = Inl ENOENT \<or> r = Inr ()"
    using rm q1 nd f1 by (auto simp: os_remove_def sys_quiet is_dir_in_def split: option.splits node.splits if_splits)
  have "dirs_kept w w2"
  proof (cases r)
    case (Inl e)
    then show ?thesis using os_remove_err rm f1 by simp
  next
    case (Inr u)
    then have "w_files w2 = AList.delete ?p (w_files w)" using os_remove_ok [of ?p w1 u w2] rm f1 by simp
    then show ?thesis by (rule dirs_kept_delete [OF nd])
  qed
  then have fn: "file_names q' w2 ns" if "qDir q' = qDir q" for q'
    using Cons.prems(2) that by (simp add: file_names_def dirs_kept_def)
  let ?q = "if r = Inr () then q\<lparr>qCount := qCount q - 1, qBytes := qBytes q - sz\<rparr> else q"
  have dir: "qDir ?q = qDir q" and ok: "queue_ok ?q" using Cons.prems(1) by (simp_all add: queue_ok_def)
  have "ack_files (paths_of q (n # ns)) fe q w = ack_files (paths_of ?q ns) fe ?q w2"
    using fs rm r by auto
  then show ?case using Cons.IH [OF ok fn [OF dir] q2] by metis
qed simp

lemma aq_remove_cong: "N \<inter> fst ` set es = M \<inter> fst ` set es \<Longrightarrow> aq_remove N es = aq_remove M es"
  by (auto simp: aq_remove_def intro!: filter_cong) (metis IntD1 IntI fst_conv image_eqI)+

lemma abs_removed:
  assumes "queue_ok q" and "settled D N q w q' w'" and "N \<subseteq> A" and "A \<inter> dom (live q' w') = {}"
  shows "abs_queue q' w' = aq_remove A (abs_queue q w)"
proof -
  have "fst ` set (abs_queue q w) = dom (live q w)" using assms(1) by (force simp: set_abs)
  moreover have "A \<inter> dom (live q w) = N \<inter> dom (live q w)"
    using settled_dom [OF assms(2)] assms(3,4) by auto
  ultimately have "aq_remove N (abs_queue q w) = aq_remove A (abs_queue q w)"
    by (intro aq_remove_cong) auto
  then show ?thesis using abs_settled [OF assms(1,2)] by simp
qed

lemma Ack_refines:
  assumes "queue_ok q" and "exact q w" and "quiet w" and "file_names q w ns" and "bFiles b = paths_of q ns"
  shows "\<exists>q' w'. Ack b q w = (Inr (), q', w') \<and> abs_queue q' w' = aq_remove (set ns) (abs_queue q w)
    \<and> dead q' w' = dead q w \<and> exact q' w'"
proof -
  obtain q' w' where a: "Ack b q w = (Inr (), q', w')"
    using quiet_ack_files [OF assms(1,4,3), of None] assms(5) by (auto simp: Ack_def as_result_def)
  obtain N where N: "N \<subseteq> set ns" "settled {} N q w q' w'" "set ns \<inter> dom (live q' w') = {}"
    using Ack_spec [OF assms(1,4,5) a] by blast
  have "dead q' w' = dead q w" using N(2) by (simp add: settled_def same_conf_def)
  then show ?thesis
    using a abs_removed [OF assms(1) N(2,1,3)] settled_exact [OF assms(1,2) N(2) assms(3)] by blast
qed


subsection \<open>Reading without failures\<close>

lemma quiet_read_entries:
  assumes "queue_ok q" and "set ns \<subseteq> dom (live q w)" and "distinct ns" and "quiet w"
  shows "\<exists>b' q' w'. read_entries maxN maxB ns b sofar q w = (Inr b', q', w')"
  using assms
proof (induction ns arbitrary: b sofar q w)
  case (Cons n ns)
  let ?p = "join_path [qDir q, n]"
  obtain d where d: "live q w n = Some d" using Cons.prems(2) by auto
  obtain a where a: "lookup w ?p = Some (File a d)" using live_file(2) [OF Cons.prems(1) d] by blast
  then obtain w1 where rd: "os_read_file ?p w = (Inr d, w1)"
    using Cons.prems(4) by (auto simp: os_read_file_def sys_quiet)
  have f1: "w_files w1 = w_files w" using rd by (rule read_only_frame(3))
  have q1: "quiet w1" using quiet_os(3) [OF rd Cons.prems(4)] .
  obtain r2 q2 w2 where dl: "deadLetterFileLocked ?p (int (length d)) q w1 = (r2, q2, w2)" by (metis prod_cases3)
  obtain M where M: "M \<subseteq> {n}" "settled M M q w1 q2 w2"
    using deadLetterFile_spec [OF Cons.prems(1) live_file(1) [OF Cons.prems(1) d] dl] d f1 by auto
  have ok2: "queue_ok q2" by (rule settled_queue_ok [OF Cons.prems(1) M(2)])
  have "dom (live q2 w2) = dom (live q w) - M" using settled_dom [OF M(2)] f1 by simp
  then have sub2: "set ns \<subseteq> dom (live q2 w2)" using Cons.prems(2,3) M(1) by auto
  have "quiet w2" using M(2) q1 by (simp add: settled_def)
  note rec2 = Cons.IH [OF ok2 sub2 _ this]
  have sub1: "set ns \<subseteq> dom (live q w1)" "distinct ns" using Cons.prems(2,3) f1 by auto
  note rec1 = Cons.IH [OF Cons.prems(1) sub1 q1]
  show ?case using rd dl rec1 rec2 sub1(2) by (auto simp: Let_def split: option.split)
qed simp

lemma quiet_ReadBatch:
  assumes "queue_ok q" and "quiet w" and "dirs_there q w"
  shows "\<exists>b q' w'. ReadBatch maxN maxB q w = (Inr b, q', w')"
proof -
  obtain w1 where sp: "sortedPendingLocked q w = (Inr (names q w), w1)" using quiet_listed [OF assms] by blast
  have f1: "w_files w1 = w_files w" using sp by (rule sortedPending_frame)
  have "set (names q w) \<subseteq> dom (live q w1)" using f1 set_names [OF assms(1), of w] by simp
  from quiet_read_entries [OF assms(1) this distinct_pending quiet_sortedPending [OF sp assms(2)]]
  show ?thesis using sp by (simp add: ReadBatch_def)
qed

end
