(* ===== verification/Buffer_Theorems.thy ===== *)
theory Buffer_Theorems
  imports Buffer_Refine
begin

text \<open>
  The properties of the event queue, each with a concrete run of the model in which its hypotheses
  hold.
\<close>

subsection \<open>A concrete run\<close>

definition demo_world :: world where
  "demo_world = \<lparr>w_files = [], w_umask = 2 * 8 + 2, w_ids = (0, 0), w_tick = 0, w_fault = \<lambda>_. Go,
     w_crashed = False, w_clock = \<lambda>n. int n\<rparr>"

definition demo_id :: string where
  "demo_id = ''00000000-0000-4000-8000-000000000000''"

definition demo_event :: event where
  "demo_event = \<lparr>ID = demo_id, Source = ''auth.journald'', Timestamp = 3, CollectedAt = 5, Host = ''web-1'',
     Payload = Some [(''outcome'', JStr ''failure'')]\<rparr>"

definition demo_limits :: limits where
  "demo_limits = \<lparr>MaxEvents = 2, MaxBytes = 0\<rparr>"

definition demo_queue :: queue where
  "demo_queue = \<lparr>qDir = ''/q'', qDeadDir = ''/q/dead'', qLimits = demo_limits, qCount = 0, qBytes = 0, qDropped = 0\<rparr>"

definition demo_opened :: world where
  "demo_opened = snd (Open ''/q'' demo_limits demo_world)"

definition demo_bytes :: bytes where
  "demo_bytes = the (marshal_event demo_event)"

definition demo_written :: "queue \<times> world" where
  "demo_written = snd (Write demo_event demo_queue demo_opened)"

lemma demo_quiet: "quiet demo_world"
  by (simp add: demo_world_def quiet_def)

lemma demo_open: "Open ''/q'' demo_limits demo_world = (Inr demo_queue, demo_opened)"
proof -
  have "fst (Open ''/q'' demo_limits demo_world) = Inr demo_queue" by code_simp
  then show ?thesis by (simp add: demo_opened_def prod_eq_iff)
qed

lemma demo_clean: "is_clean ''/q''"
  by code_simp

lemma demo_files: "map fst (w_files demo_opened) = [''/q'', ''/q/dead'']"
  by code_simp

lemma demo_marshal: "marshal_event demo_event = Some demo_bytes"
proof -
  have "marshal_event demo_event \<noteq> None" by code_simp
  then show ?thesis by (auto simp: demo_bytes_def)
qed

lemma demo_id_plain: "slash \<notin> set (ID demo_event)"
  by code_simp

lemma demo_event_ok: "event_ok demo_event"
  by code_simp


lemma demo_live: "live demo_queue demo_opened = (\<lambda>_. None)"
  using Open_spec(2) [OF demo_clean demo_open]
  by (simp add: demo_world_def spool_def fun_eq_iff demo_queue_def)

lemma demo_state:
  "queue_ok demo_queue" "exact demo_queue demo_opened" "dirs_there demo_queue demo_opened" "quiet demo_opened"
  using Open_spec(1,4,5) [OF demo_clean demo_open] Open_spec(6) [OF demo_clean demo_open demo_quiet] by simp_all

lemma demo_reach: "buf_reach ''/q'' demo_limits (demo_queue, demo_opened)"
  by (rule opened [OF demo_open])

lemma demo_clear: "clear_for demo_queue demo_opened (fileName demo_event)"
  by code_simp

lemma demo_write: "\<exists>q w. demo_written = (q, w) \<and> Write demo_event demo_queue demo_opened = (Inr (), q, w)"
  using quiet_Write_ok [OF demo_state(1,2,4,3) demo_clear demo_id_plain demo_marshal]
  by (auto simp: demo_written_def)

subsection \<open>Limits\<close>

lemma step_within: "buf_step (q, w) (q', w') \<Longrightarrow> covered q w \<Longrightarrow> within_limits q w \<Longrightarrow> within_limits q' w'"
proof (erule buf_stepE)
  fix ev r assume c: "covered q w" and wl: "within_limits q w" and "slash \<notin> set (ID ev)" "Write ev q w = (r, q', w')"
  then show "within_limits q' w'"
  proof (cases r)
    case (Inl e)
    have "queue_ok q" using c by (simp add: covered_def)
    from this \<open>slash \<notin> set (ID ev)\<close> \<open>Write ev q w = (r, q', w')\<close> show ?thesis
      by (cases rule: Write_cases) (use Inl settled_within [OF \<open>queue_ok q\<close> wl] in auto)
  next
    case (Inr u)
    then show ?thesis using Write_within c \<open>slash \<notin> set (ID ev)\<close> \<open>Write ev q w = (r, q', w')\<close> by blast
  qed
next
  fix maxN maxB r assume c: "covered q w" "within_limits q w" and rd: "ReadBatch maxN maxB q w = (r, q', w')"
  then obtain D where "settled D D q w q' w'" using ReadBatch_spec [of q maxN maxB w r q' w'] by (auto simp: covered_def)
  then show "within_limits q' w'" using settled_within c by (auto simp: covered_def)
next
  fix ns b r assume c: "covered q w" "within_limits q w"
    and fn: "file_names q w ns" "bFiles b = paths_of q ns" "Ack b q w = (r, q', w')"
  then obtain N where "settled {} N q w q' w'" using Ack_spec [of q w ns b r q' w'] by (auto simp: covered_def)
  then show "within_limits q' w'" using settled_within c by (auto simp: covered_def)
next
  fix ns b r assume c: "covered q w" "within_limits q w"
    and fn: "file_names q w ns" "bFiles b = paths_of q ns" "DeadLetter b q w = (r, q', w')"
  then obtain N where "settled N N q w q' w'" using DeadLetter_spec [of q w ns b r q' w'] by (auto simp: covered_def)
  then show "within_limits q' w'" using settled_within c by (auto simp: covered_def)
qed

lemma steps_within: "buf_step\<^sup>*\<^sup>* (q, w) (q', w') \<Longrightarrow> covered q w \<Longrightarrow> within_limits q w
    \<Longrightarrow> covered q' w' \<and> within_limits q' w'"
proof (induction "(q', w')" arbitrary: q' w' rule: rtranclp_induct)
  case (step y)
  then show ?case using step_covered step_within by (cases y) blast
qed simp

text \<open>
  C6. The disk is bounded.  From any state reachable from \<open>Open\<close> under any pattern of I/O failures,
  once a \<open>Write\<close> has succeeded the pending events stay within \<open>MaxEvents\<close>, and within \<open>MaxBytes\<close> or else they
  are a single event, which alone may exceed \<open>MaxBytes\<close> since the code stores such an event all the same
  (\<open>buffer.go\<close> line 270), through every later sequence of operations, failed
  or not; and the in-memory counters never fall below what is on disk.  A limit of zero or less is none.
\<close>

theorem queue_stays_within_limits:
  assumes "is_clean d" and "buf_reach d lim (q, w)" and "slash \<notin> set (ID ev)"
    and "Write ev q w = (Inr (), q1, w1)" and "buf_step\<^sup>*\<^sup>* (q1, w1) (q', w')"
  shows "within_limits q' w' \<and> covered q' w'"
proof -
  have c: "covered q w" using reach_covered assms(1,2) by blast
  have "covered q1 w1" "within_limits q1 w1"
    using Write_covered [OF c assms(3,4)] Write_within [OF c assms(3,4)] by simp_all
  then show ?thesis using steps_within [OF assms(5)] by blast
qed

theorem queue_stays_within_limits_witness:
  "\<exists>q w. demo_written = (q, w) \<and> within_limits q w \<and> covered q w"
  using demo_write queue_stays_within_limits [OF demo_clean demo_reach demo_id_plain] by blast

subsection \<open>Drop-oldest and atomic writes\<close>

text \<open>
  C7. What a \<open>Write\<close> does, whatever fails in it and wherever the process dies: there is a \<open>k\<close>, the
  number of events it adds to the dropped counter, such that the \<open>k\<close> oldest events are gone, every
  other pending event keeps its exact contents, the new event is there complete if the call
  succeeded and not there at all (not even in part) if it did not, and the dead-letter directory is
  untouched.
\<close>

theorem write_is_atomic_and_drops_oldest:
  assumes "queue_ok q" and "slash \<notin> set (ID ev)" and "Write ev q w = (r, q', w')"
  shows "\<exists>k\<le>length (names q w).
      (\<forall>n b. live q' w' n = Some b \<longleftrightarrow>
         (if r = Inr () \<and> n = fileName ev then marshal_event ev = Some b
          else n \<in> set (drop k (names q w)) \<and> live q w n = Some b))
      \<and> dead q' w' = dead q w \<and> qDropped q' = qDropped q + int k"
proof -
  have kept: "(live q w |` (- set (take k (names q w)))) n = Some b \<longleftrightarrow>
      n \<in> set (drop k (names q w)) \<and> live q w n = Some b" for k n b
  proof -
    have "n \<in> set (take k (names q w)) \<union> set (drop k (names q w)) \<longleftrightarrow> n \<in> dom (live q w)"
      using set_names [OF assms(1), of w] by (metis append_take_drop_id set_append)
    moreover have "set (take k (names q w)) \<inter> set (drop k (names q w)) = {}"
      by (metis append_take_drop_id distinct_append distinct_pending)
    ultimately show ?thesis by (auto simp: restrict_map_def)
  qed
  from assms show ?thesis
  proof (cases rule: Write_cases)
    case (failed e k)
    then show ?thesis by (intro exI [of _ k]) (auto simp: settled_def same_conf_def kept)
  next
    case (stored b k q1 w1)
    then show ?thesis by (intro exI [of _ k]) (auto simp: settled_def same_conf_def kept)
  qed
qed

theorem write_is_atomic_and_drops_oldest_witness:
  "\<exists>k\<le>length (names demo_queue demo_opened).
      \<forall>n b. live (fst demo_written) (snd demo_written) n = Some b \<longleftrightarrow>
         (if n = fileName demo_event then marshal_event demo_event = Some b
          else n \<in> set (drop k (names demo_queue demo_opened)) \<and> live demo_queue demo_opened n = Some b)"
proof -
  obtain q w where qw: "demo_written = (q, w)" "Write demo_event demo_queue demo_opened = (Inr (), q, w)"
    using demo_write by blast
  show ?thesis
    using write_is_atomic_and_drops_oldest [OF demo_state(1) demo_id_plain qw(2)]
    unfolding qw(1) fst_conv snd_conv by (simp only: simp_thms) blast
qed

text \<open>
  Without failures \<open>Write\<close> refines the abstract queue: on a queue with exact counters it succeeds
  for every event that can be marshalled, the pending events become those of \<open>aq_write\<close> (the fewest
  oldest dropped that make room, the new one inserted in order), the dropped counter grows by
  exactly the number dropped, and the counters stay exact.
\<close>

theorem write_refines_abstract_queue:
  assumes "queue_ok q" and "exact q w" and "quiet w" and "dirs_there q w" and "clear_for q w (fileName ev)"
    and "slash \<notin> set (ID ev)" and "marshal_event ev = Some b" and "live q w (fileName ev) = None"
  shows "\<exists>q' w'. Write ev q w = (Inr (), q', w') \<and> exact q' w' \<and> quiet w'
    \<and> abs_queue q' w' = aq_write (qLimits q) (fileName ev) b (abs_queue q w)
    \<and> qDropped q' = qDropped q + (int (length (abs_queue q w)) + 1 - int (length (abs_queue q' w')))"
  using Write_refines [OF assms] Write_exact [OF assms(1-3,6)] assms(8) by metis

theorem write_refines_abstract_queue_witness:
  "\<exists>q w. Write demo_event demo_queue demo_opened = (Inr (), q, w)
    \<and> abs_queue q w = aq_write demo_limits (fileName demo_event) demo_bytes (abs_queue demo_queue demo_opened)"
  using write_refines_abstract_queue [OF demo_state(1,2,4,3) demo_clear demo_id_plain demo_marshal] demo_live
  by (auto simp: demo_queue_def)


subsection \<open>Reading batches\<close>

lemma select_filter:
  "\<exists>k. select maxN maxB c sofar es = take k (filter (\<lambda>(n, d). unmarshal_event d \<noteq> None) es)"
proof (induction maxN maxB c sofar es rule: select.induct)
  case (2 maxN maxB c sofar n d es)
  let ?p = "\<lambda>(n, d). unmarshal_event d \<noteq> None"
  consider (stop) "0 < maxN \<and> c \<ge> maxN \<or> 0 < maxB \<and> 0 < c \<and> sofar + int (length d) > maxB"
    | (skip) "\<not> (0 < maxN \<and> c \<ge> maxN)" "\<not> (0 < maxB \<and> 0 < c \<and> sofar + int (length d) > maxB)" "unmarshal_event d = None"
    | (pick) "\<not> (0 < maxN \<and> c \<ge> maxN)" "\<not> (0 < maxB \<and> 0 < c \<and> sofar + int (length d) > maxB)" "unmarshal_event d \<noteq> None"
    by blast
  then show ?case
  proof cases
    case stop
    then show ?thesis by (intro exI [of _ 0]) auto
  next
    case skip
    then show ?thesis using 2(1) by auto
  next
    case pick
    obtain k where "select maxN maxB (c + 1) (sofar + int (length d)) es = take k (filter ?p es)"
      using 2(2) pick by blast
    then show ?thesis using pick by (intro exI [of _ "Suc k"]) auto
  qed
qed (simp add: exI [of _ 0])

lemma select_count: "0 < maxN \<Longrightarrow> c \<le> maxN \<Longrightarrow> c + int (length (select maxN maxB c sofar es)) \<le> maxN"
  by (induction maxN maxB c sofar es rule: select.induct) auto

lemma select_bytes:
  "0 < maxB \<Longrightarrow> 0 < c \<Longrightarrow> sofar \<le> maxB \<Longrightarrow> sofar + total_bytes (select maxN maxB c sofar es) \<le> maxB"
  by (induction maxN maxB c sofar es rule: select.induct) (auto simp: total_bytes_def)

lemma select_full: "0 < maxB \<Longrightarrow> 0 < c \<Longrightarrow> maxB < sofar \<Longrightarrow> select maxN maxB c sofar es = []"
  by (cases es) auto

lemma select_bytes_first:
  "0 < maxB \<Longrightarrow> total_bytes (select maxN maxB 0 0 es) \<le> maxB \<or> length (select maxN maxB 0 0 es) = 1"
proof (induction es)
  case (Cons e es)
  obtain n d where e: "e = (n, d)" by force
  show ?case
  proof (cases "0 < maxN \<and> 0 \<ge> maxN \<or> unmarshal_event d = None")
    case True
    then show ?thesis using Cons e by (auto simp: total_bytes_def)
  next
    case False
    then have s: "select maxN maxB 0 0 (e # es) = (n, d) # select maxN maxB 1 (int (length d)) es" using e by auto
    show ?thesis
    proof (cases "int (length d) \<le> maxB")
      case True
      then have "int (length d) + total_bytes (select maxN maxB 1 (int (length d)) es) \<le> maxB"
        using Cons.prems select_bytes [of maxB 1 "int (length d)" maxN es] by simp
      then show ?thesis unfolding s by (simp add: total_bytes_def)
    next
      case big: False
      then have "select maxN maxB 1 (int (length d)) es = []" using Cons.prems by (intro select_full) auto
      then show ?thesis unfolding s by simp
    qed
  qed
qed (simp add: total_bytes_def)

lemma select_progress:
  assumes "(n, d) \<in> set es" and "unmarshal_event d \<noteq> None"
  shows "select maxN maxB 0 0 es \<noteq> []"
  using assms by (induction es) (auto split: if_splits)

text \<open>
  C24. A batch is bounded and makes progress.  When \<open>ReadBatch\<close> succeeds (whatever else fails), it
  returns at most \<open>maxN\<close> events and at most \<open>maxBytes\<close> of stored data (one event may alone be larger),
  a zero limit meaning none; and it is not empty if any pending file holds an event, so neither a
  corrupt nor an oversized file can wedge the queue.
\<close>

theorem read_batch_bounded_and_progresses:
  assumes "queue_ok q" and "ReadBatch maxN maxB q w = (Inr b, q', w')"
  shows "\<exists>es. set es \<subseteq> set (abs_queue q w) \<and> Events b = decoded es \<and> bFiles b = paths_of q (map fst es)
      \<and> (0 < maxN \<longrightarrow> int (length (Events b)) \<le> maxN)
      \<and> (0 < maxB \<longrightarrow> total_bytes es \<le> maxB \<or> length (Events b) = 1)
      \<and> ((\<exists>n d. live q w n = Some d \<and> unmarshal_event d \<noteq> None) \<longrightarrow> Events b \<noteq> [])"
proof -
  let ?es = "select maxN maxB 0 0 (abs_queue q w)"
  have ev: "Events b = decoded ?es" and fs: "bFiles b = paths_of q (map fst ?es)"
    using ReadBatch_spec [OF assms] by (auto simp: abs_queue_def)
  obtain k where k: "?es = take k (filter (\<lambda>(n, d). unmarshal_event d \<noteq> None) (abs_queue q w))"
    using select_filter by blast
  have len: "length (Events b) = length ?es" by (simp add: ev decoded_def)
  have "set ?es \<subseteq> set (abs_queue q w)" unfolding k by (auto dest: in_set_takeD)
  moreover have "int (length (Events b)) \<le> maxN" if "0 < maxN"
    using select_count [OF that, of 0 maxB 0 "abs_queue q w"] that len by simp
  moreover have "total_bytes ?es \<le> maxB \<or> length (Events b) = 1" if "0 < maxB"
    using select_bytes_first [OF that] len by simp
  moreover have "Events b \<noteq> []" if "live q w n = Some d" "unmarshal_event d \<noteq> None" for n d
    using select_progress [of n d "abs_queue q w" maxN maxB] that len assms(1) by (auto simp: set_abs)
  ultimately show ?thesis using ev fs by blast
qed


lemma demo_written_state:
  assumes "demo_written = (q, w)"
  shows "queue_ok q" "exact q w" "quiet w" "dirs_there q w" "live q w = [fileName demo_event \<mapsto> demo_bytes]"
proof -
  have wr: "Write demo_event demo_queue demo_opened = (Inr (), q, w)" using demo_write assms by auto
  show "exact q w" "quiet w"
    using Write_exact [OF demo_state(1,2,4) demo_id_plain wr] demo_live by simp_all
  from demo_state(1) demo_id_plain wr
  have "queue_ok q \<and> dirs_there q w \<and> live q w = [fileName demo_event \<mapsto> demo_bytes]"
  proof (cases rule: Write_cases)
    case (stored b k q1 w1)
    have "queue_ok q" using stored(9) settled_queue_ok [OF demo_state(1) stored(4)] by (simp add: queue_ok_def)
    moreover have "dirs_there q w"
      using stored demo_state(3) by (auto simp: dirs_there_def settled_def same_conf_def dirs_kept_def)
    moreover have "live q1 w1 = (\<lambda>_. None)" using stored(4) demo_live by (simp add: settled_def same_conf_def restrict_map_def)
    ultimately show ?thesis using stored demo_marshal by simp
  qed simp_all
  then show "queue_ok q" "dirs_there q w" "live q w = [fileName demo_event \<mapsto> demo_bytes]" by simp_all
qed

lemma demo_decode: "unmarshal_event demo_bytes = Some demo_event"
  by (rule unmarshal_marshal_event [OF demo_event_ok demo_marshal])

theorem read_batch_bounded_and_progresses_witness:
  "\<exists>q w b q' w'. demo_written = (q, w) \<and> ReadBatch 1 1 q w = (Inr b, q', w') \<and> Events b \<noteq> []"
proof -
  obtain q w where d: "demo_written = (q, w)" by force
  note st = demo_written_state [OF d]
  obtain b q' w' where rb: "ReadBatch 1 1 q w = (Inr b, q', w')" using quiet_ReadBatch [OF st(1,3,4)] by blast
  have "live q w (fileName demo_event) = Some demo_bytes" using st(5) by simp
  then have "Events b \<noteq> []"
    using read_batch_bounded_and_progresses [OF st(1) rb] demo_decode by force
  then show ?thesis using d rb by blast
qed

subsection \<open>First in, first out\<close>

text \<open>Every pending file was written by \<open>Write\<close> for an event with a UUID, collected since 1970.\<close>

definition genuine :: "queue \<Rightarrow> world \<Rightarrow> bool" where
  "genuine q w \<longleftrightarrow> (\<forall>n b. live q w n = Some b \<longrightarrow>
     (\<exists>ev. n = fileName ev \<and> marshal_event ev = Some b \<and> event_ok ev \<and> since_1970 ev \<and> length (ID ev) = 36))"

lemma set_take_drop_or: "x \<in> set xs \<Longrightarrow> x \<in> set (take k xs) \<or> x \<in> set (drop k xs)"
  by (metis Un_iff append_take_drop_id set_append)

lemma genuine_decode:
  assumes "genuine q w" and "live q w n = Some b"
  shows "\<exists>ev. unmarshal_event b = Some ev \<and> n = fileName ev \<and> since_1970 ev \<and> length (ID ev) = 36"
  using assms unmarshal_marshal_event unfolding genuine_def by metis

text \<open>
  C17. First in, first out.  On a queue whose files were written by \<open>Write\<close>, a batch lists its events
  in strictly ascending order of collection time (the event ID breaking ties), and every pending
  event that is not in the batch is younger than all that are.
\<close>

theorem read_batch_oldest_first:
  assumes "queue_ok q" and "genuine q w" and "ReadBatch maxN maxB q w = (Inr b, q', w')"
  shows "sorted_wrt (<) (map event_key (Events b))
    \<and> (\<forall>n d. live q w n = Some d \<and> the (unmarshal_event d) \<notin> set (Events b) \<longrightarrow>
         (\<forall>e\<in>set (Events b). event_key e < event_key (the (unmarshal_event d))))"
proof -
  let ?es = "abs_queue q w" and ?ev = "\<lambda>(n, d). the (unmarshal_event d)"
  obtain k where "select maxN maxB 0 0 ?es = take k (filter (\<lambda>(n, d). unmarshal_event d \<noteq> None) ?es)"
    using select_filter by blast
  moreover have dec: "\<exists>ev. unmarshal_event d = Some ev \<and> n = fileName ev \<and> since_1970 ev \<and> length (ID ev) = 36"
    if "(n, d) \<in> set ?es" for n d
    using that genuine_decode [OF assms(2)] assms(1) by (auto simp: set_abs)
  then have "filter (\<lambda>(n, d). unmarshal_event d \<noteq> None) ?es = ?es" by (intro filter_True) fastforce
  ultimately have b: "Events b = take k (map ?ev ?es)"
    using ReadBatch_spec [OF assms(1,3)] by (auto simp: abs_queue_def decoded_def take_map)
  have mono: "fst x < fst y \<longleftrightarrow> event_key (?ev x) < event_key (?ev y)" if "x \<in> set ?es" "y \<in> set ?es" for x y
    using dec [of "fst x" "snd x"] dec [of "fst y" "snd y"] that fileName_less_iff by (auto simp: case_prod_beta)
  have "sorted_wrt (<) (map fst ?es)" unfolding map_fst_abs by (simp add: strict_sorted_iff)
  then have "sorted_wrt (\<lambda>x y. fst x < fst y) ?es" by (simp only: sorted_wrt_map)
  then have "sorted_wrt (\<lambda>x y. event_key (?ev x) < event_key (?ev y)) ?es"
    by (rule sorted_wrt_mono_rel [rotated]) (use mono in blast)
  then have all: "sorted_wrt (<) (map event_key (map ?ev ?es))" by (simp add: sorted_wrt_map case_prod_beta)
  then have "sorted_wrt (<) (map event_key (Events b))"
    unfolding b by (simp add: sorted_wrt_take flip: take_map)
  moreover have "event_key e < event_key (?ev (n, d))"
    if "live q w n = Some d" "?ev (n, d) \<notin> set (Events b)" "e \<in> set (Events b)" for n d e
  proof -
    have "?ev (n, d) \<in> set (drop k (map ?ev ?es))"
    proof -
      have "?ev (n, d) \<in> set (map ?ev ?es)" using that(1) assms(1) by (force simp: set_abs)
      then show ?thesis using set_take_drop_or that(2) unfolding b by metis
    qed
    moreover have "sorted_wrt (<) (map event_key (take k (map ?ev ?es)) @ map event_key (drop k (map ?ev ?es)))"
      using all by (metis append_take_drop_id map_append)
    ultimately show ?thesis using that(3) by (auto simp: sorted_wrt_append b)
  qed
  ultimately show ?thesis by auto
qed


lemma demo_genuine:
  assumes "demo_written = (q, w)"
  shows "genuine q w"
proof -
  have "since_1970 demo_event" "length (ID demo_event) = 36" by code_simp+
  then show ?thesis
    using demo_written_state(5) [OF assms] demo_marshal demo_event_ok
    by (auto simp: genuine_def split: if_splits)
qed

theorem read_batch_oldest_first_witness:
  "\<exists>q w b q' w'. demo_written = (q, w) \<and> ReadBatch 0 0 q w = (Inr b, q', w')
    \<and> sorted_wrt (<) (map event_key (Events b))"
proof -
  obtain q w where d: "demo_written = (q, w)" by force
  note st = demo_written_state [OF d]
  obtain b q' w' where rb: "ReadBatch 0 0 q w = (Inr b, q', w')" using quiet_ReadBatch [OF st(1,3,4)] by blast
  then show ?thesis using read_batch_oldest_first [OF st(1) demo_genuine [OF d] rb] d by blast
qed

subsection \<open>What was written comes back\<close>

text \<open>
  C18. Round trip through the disk.  An event with valid UTF-8 fields that \<open>Write\<close> accepted is in every
  unlimited batch read afterwards, with all its fields as they were, as long as nothing else
  touches the queue in between, whatever failed before or during the \<open>Write\<close>.
\<close>

theorem written_event_comes_back:
  assumes "queue_ok q" and "slash \<notin> set (ID ev)" and "event_ok ev"
    and "Write ev q w = (Inr (), q1, w1)" and "ReadBatch 0 0 q1 w1 = (Inr b, q', w')"
  shows "ev \<in> set (Events b)"
proof -
  from assms(1,2,4) obtain d where d: "live q1 w1 (fileName ev) = Some d" "marshal_event ev = Some d" "queue_ok q1"
  proof (cases rule: Write_cases)
    case (stored d k q2 w2)
    show thesis
    proof (rule that)
      show "live q1 w1 (fileName ev) = Some d" using stored(7) by simp
      show "queue_ok q1" using stored(9) settled_queue_ok [OF assms(1) stored(4)] by (simp add: queue_ok_def)
    qed (rule stored)
  qed simp
  have all: "select 0 0 c s es = filter (\<lambda>(n, d). unmarshal_event d \<noteq> None) es" for c s es
    by (induction es arbitrary: c s) auto
  have "Events b = decoded (filter (\<lambda>(n, d). unmarshal_event d \<noteq> None) (abs_queue q1 w1))"
    using ReadBatch_spec [OF d(3) assms(5)] all by (auto simp: abs_queue_def)
  moreover have "unmarshal_event d = Some ev" by (rule unmarshal_marshal_event [OF assms(3) d(2)])
  ultimately show ?thesis using d(1,3) by (force simp: decoded_def set_abs image_iff)
qed

theorem written_event_comes_back_witness:
  "\<exists>q w b q' w'. Write demo_event demo_queue demo_opened = (Inr (), q, w)
    \<and> ReadBatch 0 0 q w = (Inr b, q', w') \<and> demo_event \<in> set (Events b)"
proof -
  obtain q w where d: "demo_written = (q, w)" and wr: "Write demo_event demo_queue demo_opened = (Inr (), q, w)"
    using demo_write by blast
  note st = demo_written_state [OF d]
  obtain b q' w' where rb: "ReadBatch 0 0 q w = (Inr b, q', w')" using quiet_ReadBatch [OF st(1,3,4)] by blast
  then show ?thesis
    using written_event_comes_back [OF demo_state(1) demo_id_plain demo_event_ok wr rb] wr by blast
qed

subsection \<open>Acknowledging and dead-lettering\<close>

text \<open>
  \<open>Ack\<close> touches nothing but its batch.  Under any failures it only removes events of the batch, and
  when it reports success none of them is pending; every other event keeps its contents, the
  dead-letter directory is unchanged, and the count falls by exactly the number removed.
\<close>

theorem ack_removes_exactly_the_batch:
  assumes "queue_ok q" and "file_names q w ns" and "bFiles b = paths_of q ns" and "Ack b q w = (r, q', w')"
  shows "(\<forall>n. n \<notin> set ns \<longrightarrow> live q' w' n = live q w n)
    \<and> (\<forall>n c. live q' w' n = Some c \<longrightarrow> live q w n = Some c)
    \<and> (r = Inr () \<longrightarrow> set ns \<inter> dom (live q' w') = {})
    \<and> dead q' w' = dead q w
    \<and> qCount q - qCount q' = int (card (dom (live q w))) - int (card (dom (live q' w')))"
proof -
  obtain N where N: "N \<subseteq> set ns" "settled {} N q w q' w'" "r = Inr () \<longrightarrow> set ns \<inter> dom (live q' w') = {}"
    using Ack_spec [OF assms] by blast
  then show ?thesis
    using settled_card [OF assms(1) N(2)]
    by (auto simp: settled_def same_conf_def restrict_map_def split: if_splits)
qed

theorem ack_removes_exactly_the_batch_witness:
  "\<exists>q w q' w'. demo_written = (q, w)
    \<and> Ack \<lparr>Events = [demo_event], bFiles = paths_of q [fileName demo_event]\<rparr> q w = (Inr (), q', w')
    \<and> fileName demo_event \<notin> dom (live q' w')"
proof -
  obtain q w where d: "demo_written = (q, w)" by force
  note st = demo_written_state [OF d]
  let ?b = "\<lparr>Events = [demo_event], bFiles = paths_of q [fileName demo_event]\<rparr>"
  have fn: "file_names q w [fileName demo_event]" using st(5) by (intro file_names_live [OF st(1)]) simp
  obtain q' w' where a: "Ack ?b q w = (Inr (), q', w')"
    using quiet_ack_files [OF st(1) fn st(3), of None] by (auto simp: Ack_def as_result_def)
  have bf: "bFiles ?b = paths_of q [fileName demo_event]" by simp
  have "fileName demo_event \<notin> dom (live q' w')" using ack_removes_exactly_the_batch [OF st(1) fn bf a] by simp
  then show ?thesis using d a by blast
qed

text \<open>
  C23. Poison events are put aside, not lost.  Under any failures every event of the batch is afterwards
  either still pending or in the dead-letter directory, with its contents; nothing else changes;
  and when \<open>DeadLetter\<close> reports success (and its directory exists) none of the batch is pending.
\<close>

theorem dead_letter_keeps_every_event:
  assumes "queue_ok q" and "file_names q w ns" and "bFiles b = paths_of q ns" and "DeadLetter b q w = (r, q', w')"
  shows "(\<forall>n c. live q w n = Some c \<longrightarrow>
        live q' w' n = Some c \<or> n \<in> set ns \<and> live q' w' n = None \<and> dead q' w' n = Some c)
    \<and> (\<forall>n c. dead q' w' n = Some c \<longrightarrow> dead q w n = Some c \<or> n \<in> set ns \<and> live q w n = Some c)
    \<and> (r = Inr () \<and> dirs_there q w \<longrightarrow> set ns \<inter> dom (live q' w') = {})"
proof -
  obtain N where N: "N \<subseteq> set ns" "settled N N q w q' w'"
    "r = Inr () \<and> is_dir_in (w_files w) (qDeadDir q) \<longrightarrow> set ns \<inter> dom (live q' w') = {}"
    using DeadLetter_spec [OF assms] by blast
  have l: "live q' w' = live q w |` (- N)" and p: "dead q' w' = dead q w ++ (live q w |` N)"
    using N(2) by (simp_all add: settled_def same_conf_def)
  have "live q' w' n = Some c \<or> n \<in> set ns \<and> live q' w' n = None \<and> dead q' w' n = Some c"
    if "live q w n = Some c" for n c
    using that N(1) by (cases "n \<in> N") (auto simp: l p restrict_map_def map_add_Some_iff)
  moreover have "dead q w n = Some c \<or> n \<in> set ns \<and> live q w n = Some c" if "dead q' w' n = Some c" for n c
    using that N(1) by (auto simp: p restrict_map_def map_add_Some_iff split: if_splits)
  ultimately show ?thesis using N(3) by (auto simp: dirs_there_def)
qed

theorem dead_letter_keeps_every_event_witness:
  "\<exists>q w r q' w'. demo_written = (q, w)
    \<and> DeadLetter \<lparr>Events = [demo_event], bFiles = paths_of q [fileName demo_event]\<rparr> q w = (r, q', w')
    \<and> (live q' w' (fileName demo_event) = Some demo_bytes \<or> dead q' w' (fileName demo_event) = Some demo_bytes)"
proof -
  obtain q w where d: "demo_written = (q, w)" by force
  note st = demo_written_state [OF d]
  let ?b = "\<lparr>Events = [demo_event], bFiles = paths_of q [fileName demo_event]\<rparr>"
  have fn: "file_names q w [fileName demo_event]" using st(5) by (intro file_names_live [OF st(1)]) simp
  obtain r q' w' where a: "DeadLetter ?b q w = (r, q', w')" by (metis prod_cases3)
  have bf: "bFiles ?b = paths_of q [fileName demo_event]" by simp
  have "live q w (fileName demo_event) = Some demo_bytes" using st(5) by simp
  then have "live q' w' (fileName demo_event) = Some demo_bytes \<or> dead q' w' (fileName demo_event) = Some demo_bytes"
    using dead_letter_keeps_every_event [OF st(1) fn bf a] by blast
  then show ?thesis using d a by blast
qed


subsection \<open>Restarting after a crash\<close>


lemma quiet_init_scan: "quiet w \<Longrightarrow> \<exists>x w'. init_scan q es c b w = (Inr x, w')"
proof (induction es arbitrary: c b w)
  case (Cons e es)
  obtain n isdir where e: "e = (n, isdir)" by force
  let ?p = "join_path [qDir q, n]"
  obtain r w1 where rm: "os_remove ?p w = (r, w1)" by force
  obtain r2 w2 where st: "os_stat ?p w = (r2, w2)" by force
  have "quiet w1" "quiet w2" using quiet_os(4) [OF rm Cons.prems] quiet_os(2) [OF st Cons.prems] by simp_all
  moreover have "r2 = Inl ENOENT \<or> (\<exists>nd. r2 = Inr nd)"
    using st Cons.prems by (auto simp: os_stat_def sys_quiet split: option.splits)
  ultimately show ?case using Cons.IH Cons.prems e rm st by auto
qed simp

lemma quiet_Open:
  assumes "is_clean d" and "quiet w" and "\<forall>p\<in>set (dir_chain (join_path [d, deadDirName])). is_dir_in (w_files w) p"
  shows "\<exists>q w'. Open d lim w = (Inr q, w')"
proof -
  let ?dead = "join_path [d, deadDirName]"
  obtain u w1 where mk: "os_mkdir_all ?dead dirPerm w = (Inr u, w1)"
    using assms(2,3) by (auto simp: os_mkdir_all_def Let_def sys_quiet list_all_iff)
  have q1: "quiet w1" using quiet_os(7) [OF mk assms(2)] .
  have "is_dir_in (w_files w1) d"
    using mkdir_all_ok(2) [OF mk] dir_chain_child(2) [OF assms(1) valid_dead] by (auto simp: is_dir_in_def)
  then obtain es w2 where rd: "os_read_dir d w1 = (Inr es, w2)"
    using q1 assms(1) by (auto simp: os_read_dir_def sys_quiet is_clean_def)
  have "quiet w2" using quiet_os(1) [OF rd q1] .
  then show ?thesis
    using mk rd quiet_init_scan [of w2 "\<lparr>qDir = d, qDeadDir = ?dead, qLimits = lim, qCount = 0, qBytes = 0, qDropped = 0\<rparr>" es 0 0]
    by (auto simp: Open_def Let_def initLocked_def)
qed

lemma settled_frame:
  assumes "queue_ok q" and "settled D N q w q' w'"
  shows "queue_ok q' \<and> qDir q' = qDir q \<and> qLimits q' = qLimits q \<and> dirs_kept w w'"
  using settled_queue_ok [OF assms] assms(2) by (simp add: settled_def same_conf_def)

lemma step_frame:
  assumes "buf_step (q, w) (q', w')" and "queue_ok q"
  shows "queue_ok q' \<and> qDir q' = qDir q \<and> qLimits q' = qLimits q \<and> dirs_kept w w'"
  using assms(1)
proof (cases rule: buf_step.cases)
  case (step_write ev r)
  from assms(2) step_write(1,2) show ?thesis
  proof (cases rule: Write_cases)
    case (failed e k)
    show ?thesis by (rule settled_frame [OF assms(2) failed(3)])
  next
    case (stored b k q1 w1)
    have f: "queue_ok q1 \<and> qDir q1 = qDir q \<and> qLimits q1 = qLimits q \<and> dirs_kept w w1"
      by (rule settled_frame [OF assms(2) stored(4)])
    then have "dirs_kept w w'" using dirs_kept_trans stored(11) by blast
    then show ?thesis using f stored(9) assms(2) by (auto simp: queue_ok_def)
  qed
next
  case (step_read maxN maxB r)
  obtain D where "settled D D q w q' w'" using ReadBatch_spec [OF assms(2) step_read] by blast
  then show ?thesis by (rule settled_frame [OF assms(2)])
next
  case (step_ack ns b r)
  obtain N where "settled {} N q w q' w'" using Ack_spec [OF assms(2) step_ack] by blast
  then show ?thesis by (rule settled_frame [OF assms(2)])
next
  case (step_dead ns b r)
  obtain N where "settled N N q w q' w'" using DeadLetter_spec [OF assms(2) step_dead] by blast
  then show ?thesis by (rule settled_frame [OF assms(2)])
qed

lemma reach_limits: "buf_reach d lim (q, w) \<Longrightarrow> is_clean d \<Longrightarrow> qLimits q = lim"
proof (induction "(q, w)" arbitrary: q w rule: buf_reach.induct)
  case (opened w0 q w)
  then show ?case using Open_spec(1) by blast
next
  case (step s q w)
  obtain q0 w0 where s: "s = (q0, w0)" by force
  then show ?case using step step_frame [of q0 w0 q w] reach_covered [of d lim q0 w0] by (auto simp: covered_def)
qed

lemma Open_chain:
  assumes "is_clean d" and "Open d lim w = (Inr q, w')"
  shows "\<forall>p\<in>set (dir_chain (join_path [d, deadDirName])). is_dir_in (w_files w') p"
proof -
  let ?q = "\<lparr>qDir = d, qDeadDir = join_path [d, deadDirName], qLimits = lim, qCount = 0, qBytes = 0, qDropped = 0\<rparr>"
  obtain u w1 es w2 c b where mk: "os_mkdir_all (join_path [d, deadDirName]) dirPerm w = (Inr u, w1)"
    and rd: "os_read_dir d w1 = (Inr es, w2)" and sc: "init_scan ?q es 0 0 w2 = (Inr (c, b), w')"
    using assms(2) by (auto simp: Open_def initLocked_def Let_def split: prod.splits sum.splits)
  have f2: "w_files w2 = w_files w1" using rd by (rule read_only_frame(1))
  have es: "map fst es = names_in (w_files w1) d"
    using os_read_dir_ok [OF rd] assms(1) by (simp add: o_def is_clean_def)
  have "queue_ok ?q" using assms(1) by (simp add: queue_ok_def)
  moreover have "listed ?q w2 es" "distinct (map fst es)"
    using os_read_dir_mem [OF rd] f2 es by (auto simp: listed_def)
  ultimately have "dirs_kept w2 w'" using init_scan_spec sc by blast
  then show ?thesis using mkdir_all_ok(2) [OF mk] f2 by (simp add: dirs_kept_def)
qed

lemma reach_dirs:
  "buf_reach d lim (q, w) \<Longrightarrow> is_clean d \<Longrightarrow> queue_ok q \<and> qDir q = d
     \<and> (\<forall>p\<in>set (dir_chain (join_path [d, deadDirName])). is_dir_in (w_files w) p)"
proof (induction "(q, w)" arbitrary: q w rule: buf_reach.induct)
  case (opened w0 q w)
  then show ?case using Open_spec(1) Open_chain by blast
next
  case (step s q w)
  obtain q0 w0 where s: "s = (q0, w0)" by force
  then show ?case using step step_frame [of q0 w0 q w] by (auto simp: dirs_kept_def)
qed

text \<open>
  C8. Crash recovery.  Take any state the queue can reach under any failures, in particular one left by
  a crash in the middle of any operation, and restart: \<open>Open\<close> succeeds, finds exactly the events
  that were pending with their contents, counts them and their bytes exactly, leaves the dead
  letters alone, and no temporary file of an interrupted write is left.
\<close>

theorem open_recovers_every_event:
  assumes "is_clean d" and "buf_reach d lim (q, w)"
  shows "\<exists>q' w'. Open d lim (restarted w) = (Inr q', w') \<and> live q' w' = live q w \<and> dead q' w' = dead q w
    \<and> exact q' w' \<and> within_limits q w = within_limits q' w'\<and>
    (\<forall>n. valid_name n \<and> has_suffix n tmpSuffix \<and> \<not> is_dir_in (w_files w') (join_path [d, n]) \<longrightarrow>
       lookup w' (join_path [d, n]) = None)"
proof -
  note r = reach_dirs [OF assms(2,1)]
  obtain q' w' where o: "Open d lim (restarted w) = (Inr q', w')"
    using quiet_Open [OF assms(1), of "restarted w" lim] r by auto
  note sp = Open_spec [OF assms(1) o]
  have "live q' w' = live q w" "dead q' w' = dead q w"
    using sp(1-3) r by (simp_all add: queue_ok_def)
  moreover have "qLimits q = lim" using reach_limits [OF assms(2,1)] .
  ultimately show ?thesis using o sp by (auto simp: within_limits_def)
qed

theorem open_recovers_every_event_witness:
  "\<exists>q' w'. Open ''/q'' demo_limits (restarted demo_opened) = (Inr q', w')
    \<and> live q' w' = live demo_queue demo_opened \<and> exact q' w'"
  using open_recovers_every_event [OF demo_clean demo_reach] by blast

end
