(* ===== verification/Transport.thy ===== *)
theory Transport
  imports Collectors
begin

unbundle bit_operations_syntax

text \<open>
  \<open>internal/transport\<close>: \<open>Send\<close>, which ships one batch and classifies the outcome, and \<open>Backoff\<close>, on
  64-bit durations with the wrap-around of Go's shift.  The network, the clock and
  \<open>compress/gzip\<close> are parameters.
\<close>

subsection \<open>Outcomes\<close>

datatype failure = MarshalBatch | BuildRequest | NoResponse | IngestReturned int | EncodeStdout

datatype send_error = ErrRetryable failure | ErrPermanent failure | ErrUnauthorized failure

record shipper =
  sEndpoint :: string
  sAgentID :: string
  sGzip :: bool

definition New :: "string \<Rightarrow> string \<Rightarrow> shipper" where
  "New endpoint agentID = \<lparr>sEndpoint = endpoint, sAgentID = agentID, sGzip = True\<rparr>"

record request =
  rqMethod :: string
  rqURL :: string
  rqHeader :: "string gomap"
  rqBody :: bytes

text \<open>
  What \<open>Send\<close> uses of the outside: the clock, whether \<open>http.NewRequestWithContext\<close> accepts a URL, one
  round trip of the HTTP client (\<open>None\<close> is an error, \<open>Some\<close> the status of the response), and the two
  steps of a gzip writer.  The state \<open>'n\<close> is the network and the peer.
\<close>

record ('n, 'z) net =
  netNow :: "'n \<Rightarrow> time \<times> 'n"
  netUrlOk :: "string \<Rightarrow> bool"
  netDo :: "request \<Rightarrow> 'n \<Rightarrow> int option \<times> 'n"
  gzWrite :: "bytes \<Rightarrow> 'z option"
  gzClose :: "'z \<Rightarrow> bytes option"

definition schemaVersion :: nat where
  "schemaVersion = 1"

definition gzipBytes :: "('n, 'z) net \<Rightarrow> bytes \<Rightarrow> bytes option" where
  "gzipBytes net b = Option.bind (gzWrite net b) (gzClose net)"

text \<open>\<open>json.Marshal\<close> of the envelope.\<close>

fun sequence :: "'a option list \<Rightarrow> 'a list option" where
  "sequence [] = Some []"
| "sequence (x # xs) = (case x of None \<Rightarrow> None | Some a \<Rightarrow> map_option (\<lambda>as. a # as) (sequence xs))"

definition envelope_json :: "string \<Rightarrow> time \<Rightarrow> event list \<Rightarrow> json option" where
  "envelope_json agent sent evs = do {
     at \<leftarrow> format_time sent;
     es \<leftarrow> sequence (map event_json evs);
     Some (JObj [(''agent_id'', JStr agent), (''sent_at'', JStr at),
       (''schema_version'', JNum (itoa schemaVersion)), (''events'', JArr es)]) }"

definition marshal_envelope :: "string \<Rightarrow> time \<Rightarrow> event list \<Rightarrow> bytes option" where
  "marshal_envelope agent sent evs = map_option print_json (envelope_json agent sent evs)"

definition classify :: "int \<Rightarrow> send_error + unit" where
  "classify code =
     (if 200 \<le> code \<and> code < 300 then Inr ()
      else if code = 401 \<or> code = 403 then Inl (ErrUnauthorized (IngestReturned code))
      else if code = 408 \<or> code = 429 \<or> code \<ge> 500 then Inl (ErrRetryable (IngestReturned code))
      else Inl (ErrPermanent (IngestReturned code)))"

definition ingest_request :: "('n, 'z) net \<Rightarrow> shipper \<Rightarrow> bytes \<Rightarrow> request" where
  "ingest_request net s body =
     (case (if sGzip s then gzipBytes net body else None) of
        Some z \<Rightarrow> \<lparr>rqMethod = ''POST'', rqURL = sEndpoint s,
          rqHeader = map_put ''Content-Encoding'' ''gzip'' (map_put ''Content-Type'' ''application/json'' []), rqBody = z\<rparr>
      | None \<Rightarrow> \<lparr>rqMethod = ''POST'', rqURL = sEndpoint s,
          rqHeader = map_put ''Content-Type'' ''application/json'' [], rqBody = body\<rparr>)"

definition Send :: "('n, 'z) net \<Rightarrow> shipper \<Rightarrow> event list \<Rightarrow> 'n \<Rightarrow> (send_error + unit) \<times> 'n" where
  "Send net s evs n =
     (if evs = [] then (Inr (), n)
      else let (now, n1) = netNow net n in
        case marshal_envelope (sAgentID s) now evs of
          None \<Rightarrow> (Inl (ErrPermanent MarshalBatch), n1)
        | Some body \<Rightarrow>
            let req = ingest_request net s body in
            if \<not> netUrlOk net (rqURL req) then (Inl (ErrPermanent BuildRequest), n1)
            else (case netDo net req n1 of
                    (None, n2) \<Rightarrow> (Inl (ErrRetryable NoResponse), n2)
                  | (Some code, n2) \<Rightarrow> (classify code, n2)))"

subsection \<open>Backoff\<close>

type_synonym duration = "64 word"

definition seconds :: "nat \<Rightarrow> duration" where
  "seconds n = of_nat (n * 1000000000)"

definition backoff_window :: "int \<Rightarrow> duration \<Rightarrow> duration \<Rightarrow> duration" where
  "backoff_window attempt base cap =
     (let n = (if attempt < 1 then 1 else attempt);
          d = push_bit (nat (n - 1)) base
      in if sint d \<le> 0 \<or> sint d > sint cap then cap else d)"

text \<open>
  \<open>Backoff\<close>, given the generator behind \<open>rand.Int63n\<close>, which panics (\<open>None\<close>) unless its argument,
  computed in 64 bits, is positive.
\<close>

definition Backoff :: "(int \<Rightarrow> int) \<Rightarrow> int \<Rightarrow> duration \<Rightarrow> duration \<Rightarrow> duration option" where
  "Backoff rnd attempt base cap =
     (let n = backoff_window attempt base cap + 1
      in if sint n \<le> 0 then None else Some (word_of_int (rnd (sint n))))"

text \<open>What \<open>rand.Int63n\<close> promises.\<close>

definition int63n_spec :: "(int \<Rightarrow> int) \<Rightarrow> bool" where
  "int63n_spec rnd \<longleftrightarrow> (\<forall>n. 0 < n \<longrightarrow> 0 \<le> rnd n \<and> rnd n < n)"

lemma sint_range64: "- (2 ^ 63) \<le> sint (w :: 64 word)" "sint (w :: 64 word) < 2 ^ 63"
  using sint_greater_eq [of w] sint_less [of w] by simp_all

lemma sint_plus_one:
  fixes w :: "64 word"
  assumes "sint w < 2 ^ 63 - 1"
  shows "sint (w + 1) = sint w + 1"
proof -
  have "sint (w + 1) = signed_take_bit 63 (sint w + 1)" by (simp add: sint_word_ariths)
  also have "\<dots> = sint w + 1"
    using assms sint_range64 [of w] by (intro signed_take_bit_int_eq_self) auto
  finally show ?thesis .
qed

lemma sint_of_int:
  assumes "- (2 ^ 63) \<le> i" and "i < 2 ^ 63"
  shows "sint (word_of_int i :: 64 word) = i"
  using assms by (simp add: sint_sbintrunc' signed_take_bit_int_eq_self)

lemma backoff_window_range:
  assumes "0 \<le> sint cap"
  shows "0 \<le> sint (backoff_window a base cap)" and "sint (backoff_window a base cap) \<le> sint cap"
  using assms by (auto simp: backoff_window_def Let_def)

lemma push_bit_sint:
  assumes "0 \<le> b" and "b * 2 ^ n < 2 ^ 63"
  shows "sint (push_bit n (word_of_int b :: 64 word)) = b * 2 ^ n"
proof -
  have "push_bit n (word_of_int b :: 64 word) = word_of_int (b * 2 ^ n)"
    by (simp add: push_bit_eq_mult)
  moreover have "0 \<le> b * 2 ^ n" using assms(1) by (rule mult_nonneg_nonneg) simp
  then have "- (2 ^ 63) \<le> b * 2 ^ n" by (rule order_trans [rotated]) simp
  ultimately show ?thesis using assms(2) sint_of_int [of "b * 2 ^ n"] by simp
qed

text \<open>What is shifted far to the left is a multiple of a large power of two or nothing.\<close>

lemma push_bit_multiple:
  assumes "k \<le> n" and "k < 63"
  shows "2 ^ k dvd sint (push_bit n (w :: 64 word))"
proof -
  have "take_bit k (sint (push_bit n w)) = take_bit k (uint (push_bit n w))"
  proof -
    have "take_bit k (sint (push_bit n w)) = take_bit k (signed_take_bit 63 (uint (push_bit n w)))"
      by (simp add: sint_uint)
    also have "\<dots> = take_bit k (uint (push_bit n w))"
      using assms(2) by (simp add: take_bit_signed_take_bit)
    finally show ?thesis .
  qed
  also have "uint (push_bit n w) = take_bit 64 (push_bit n (uint w))"
    by (simp add: unsigned_push_bit_eq)
  also have "take_bit k (take_bit 64 (push_bit n (uint w))) = take_bit k (push_bit n (uint w))"
    using assms(2) by (simp add: take_bit_take_bit min_def)
  also have "\<dots> = 0" using assms(1) by (simp add: take_bit_push_bit)
  finally show ?thesis by (simp add: take_bit_eq_0_iff)
qed


lemma seconds_word: "seconds k = word_of_int (int (k * 1000000000))"
  by (simp add: seconds_def)

lemma window_one_minute:
  assumes "n \<ge> 0"
  shows "sint (backoff_window (n + 1) (seconds 1) (seconds 60)) = min 60000000000 (1000000000 * 2 ^ nat n)"
proof (cases "nat n \<le> 33")
  case True
  have le: "(2::int) ^ nat n \<le> 2 ^ 33" using True by (intro power_increasing) simp_all
  have s: "sint (push_bit (nat n) (seconds 1)) = 1000000000 * 2 ^ nat n"
    using push_bit_sint [of 1000000000 "nat n"] le by (simp add: seconds_word)
  have c: "sint (seconds 60) = 60000000000" by (simp add: seconds_def)
  have "0 < (1000000000::int) * 2 ^ nat n" by simp
  then show ?thesis using assms s c by (auto simp: backoff_window_def Let_def min_def)
next
  case False
  let ?d = "sint (push_bit (nat n) (seconds 1))"
  have "2 ^ 36 dvd sint (push_bit (nat n) (seconds 1))"
  proof -
    have w: "seconds 1 = push_bit 9 (word_of_int 1953125)" by (simp add: seconds_def push_bit_eq_mult)
    have "push_bit (nat n) (seconds 1) = push_bit (nat n + 9) (word_of_int 1953125)"
      unfolding w push_bit_push_bit by (rule refl)
    then show ?thesis using push_bit_multiple [of 36 "nat n + 9" "word_of_int 1953125"] False by simp
  qed
  then obtain m where m: "?d = 2 ^ 36 * m" by (elim dvdE)
  have "m \<le> 0 \<or> 1 \<le> m" by linarith
  then have d: "?d \<le> 0 \<or> 60000000000 < ?d" unfolding m by auto
  have c: "sint (seconds 60) = 60000000000" by (simp add: seconds_def)
  have "(2::int) ^ 33 \<le> 2 ^ nat n" using False by (intro power_increasing) simp_all
  then have "min (60000000000::int) (1000000000 * 2 ^ nat n) = 60000000000" by simp
  then show ?thesis using assms d c by (auto simp: backoff_window_def Let_def)
qed


subsection \<open>Properties\<close>

text \<open>A batch whose events can be marshalled is sent, and the status of the answer is all that counts.\<close>

lemma classify_cases:
  "classify code = (if code \<in> {200..299} then Inr ()
     else if code \<in> {401, 403} then Inl (ErrUnauthorized (IngestReturned code))
     else if code \<in> {408, 429} \<union> {500..} then Inl (ErrRetryable (IngestReturned code))
     else Inl (ErrPermanent (IngestReturned code)))"
  by (auto simp: classify_def)

lemma Send_answered:
  assumes "evs \<noteq> []" and "\<forall>e\<in>set evs. marshal_event e \<noteq> None" and "netUrlOk net (sEndpoint s)"
    and "\<forall>n. format_time (fst (netNow net n)) \<noteq> None" and "\<forall>rq n. fst (netDo net rq n) = ans"
  shows "fst (Send net s evs n) = (case ans of None \<Rightarrow> Inl (ErrRetryable NoResponse) | Some code \<Rightarrow> classify code)"
proof -
  obtain now n1 where now: "netNow net n = (now, n1)" by force
  have "\<exists>js. sequence (map event_json evs) = Some js"
    using assms(2) by (induction evs) (auto simp: marshal_event_def)
  moreover have "format_time now \<noteq> None" using assms(4) now by (metis fst_conv)
  ultimately obtain body where b: "marshal_envelope (sAgentID s) now evs = Some body"
    by (auto simp: marshal_envelope_def envelope_json_def)
  have u: "rqURL (ingest_request net s body) = sEndpoint s" by (simp add: ingest_request_def split: option.split)
  obtain n2 where "netDo net (ingest_request net s body) n1 = (ans, n2)" using assms(5) by (metis prod.collapse)
  then show ?thesis using assms(1,3) now b u by (simp add: Send_def split: option.split)
qed

definition demo_net :: "(int list, bytes) net" where
  "demo_net = \<lparr>netNow = \<lambda>n. (0, n), netUrlOk = \<lambda>u. u \<noteq> [],
     netDo = \<lambda>_ n. (case n of [] \<Rightarrow> (None, []) | c # cs \<Rightarrow> (Some c, cs)), gzWrite = Some, gzClose = Some\<rparr>"

definition demo_event0 :: event where
  "demo_event0 = \<lparr>ID = ''i'', Source = ''s'', Timestamp = 0, CollectedAt = 1, Host = ''h'', Payload = Some []\<rparr>"

text \<open>
  C25. \<open>Backoff\<close> never panics and never leaves its range: for any attempt number, however large or
  negative, any base (the shift may overflow or shift everything out) and any non-negative cap below
  the largest duration, it returns a delay between zero and the cap.
\<close>

theorem backoff_in_range:
  assumes "int63n_spec rnd" and "0 \<le> sint cap" and "sint cap < 2 ^ 63 - 1"
  shows "\<exists>d. Backoff rnd attempt base cap = Some d \<and> 0 \<le> sint d \<and> sint d \<le> sint cap"
proof -
  let ?w = "backoff_window attempt base cap"
  have w: "0 \<le> sint ?w" "sint ?w \<le> sint cap" by (rule backoff_window_range [OF assms(2)])+
  then have n: "sint (?w + 1) = sint ?w + 1" using assms(3) by (intro sint_plus_one) simp
  then have r: "0 \<le> rnd (sint (?w + 1))" "rnd (sint (?w + 1)) \<le> sint ?w"
    using assms(1) [unfolded int63n_spec_def, rule_format, of "sint (?w + 1)"] w by simp_all
  have "sint (word_of_int (rnd (sint (?w + 1))) :: duration) = rnd (sint (?w + 1))"
    by (rule sint_of_int) (use r w assms(3) in auto)
  then show ?thesis using n r w by (auto simp: Backoff_def Let_def)
qed

lemma int63n_zero: "int63n_spec (\<lambda>_. 0)"
  by (simp add: int63n_spec_def)

theorem backoff_in_range_witness:
  "\<exists>d. Backoff (\<lambda>_. 0) 1000 (seconds 1) (seconds 60) = Some d \<and> sint d \<le> sint (seconds 60)"
proof -
  have "0 \<le> sint (seconds 60)" "sint (seconds 60) < 2 ^ 63 - 1" by (simp_all add: seconds_def)
  then show ?thesis using backoff_in_range [OF int63n_zero] by blast
qed

text \<open>
  With the configured base of one second and cap of one minute the window from which the delay is
  drawn is \<open>min (60 s) (2 ^ (n - 1) s)\<close> for every attempt \<open>n\<close>: although the 64-bit shift overflows
  from attempt 35 on, no wrapped value ever falls below the cap.
\<close>

theorem backoff_is_capped_doubling:
  assumes "int63n_spec rnd" and "1 \<le> attempt"
  shows "\<exists>d. Backoff rnd attempt (seconds 1) (seconds 60) = Some d
    \<and> sint d = rnd (min 60000000000 (1000000000 * 2 ^ nat (attempt - 1)) + 1)"
proof -
  let ?w = "backoff_window attempt (seconds 1) (seconds 60)"
  have w: "sint ?w = min 60000000000 (1000000000 * 2 ^ nat (attempt - 1))"
    using window_one_minute [of "attempt - 1"] assms(2) by simp
  have b: "0 \<le> sint ?w" "sint ?w \<le> 60000000000" unfolding w by simp_all
  then have n: "sint (?w + 1) = sint ?w + 1" by (intro sint_plus_one) simp
  then have r: "0 \<le> rnd (sint ?w + 1)" "rnd (sint ?w + 1) < sint ?w + 1"
    using assms(1) [unfolded int63n_spec_def, rule_format, of "sint ?w + 1"] b(1) by simp_all
  have "sint (word_of_int (rnd (sint ?w + 1)) :: duration) = rnd (sint ?w + 1)"
    by (rule sint_of_int) (use r b in auto)
  then show ?thesis using n b(1) unfolding w [symmetric] by (simp add: Backoff_def Let_def)
qed

theorem backoff_is_capped_doubling_witness:
  "\<exists>d. Backoff (\<lambda>n. n - 1) 4 (seconds 1) (seconds 60) = Some d \<and> sint d = 8000000000"
proof -
  have "int63n_spec (\<lambda>n. n - 1)" by (simp add: int63n_spec_def)
  from backoff_is_capped_doubling [OF this, of 4] show ?thesis by simp
qed

end
