(* ===== verification/Config.thy ===== *)
theory Config
  imports Transport Go_World
begin

text \<open>
  \<open>internal/config\<close>: the runtime configuration, its defaults and the environment variables that
  override them.  The environment is a function from names to values, the empty string standing for
  an unset variable, which is all the code distinguishes.
\<close>

record config =
  StateDir :: string
  QueueDir :: string
  MaxQueueEvents :: int
  MaxQueueBytes :: int
  BatchSize :: int
  FlushInterval :: duration
  IngestEndpoint :: string
  EnrollEndpoint :: string
  EnrollToken :: string
  CertDir :: string
  BackoffBase :: duration
  BackoffCap :: duration
  RenewEndpoint :: string
  RenewBefore :: duration
  RenewCheckInterval :: duration

type_synonym env = "string \<Rightarrow> string"

text \<open>\<open>os.UserHomeDir\<close> on Unix is \<open>$HOME\<close>, an error when that is empty.\<close>

definition user_home_dir :: "env \<Rightarrow> string option" where
  "user_home_dir env = (if env ''HOME'' = [] then None else Some (env ''HOME''))"

definition defaultStateDir :: "env \<Rightarrow> string" where
  "defaultStateDir env =
     (case user_home_dir env of
        None \<Rightarrow> ''.host-agent''
      | Some home \<Rightarrow> if home = [] then ''.host-agent'' else join_path [home, ''.host-agent''])"

definition Default :: "env \<Rightarrow> config" where
  "Default env =
     (let state = defaultStateDir env in
      \<lparr>StateDir = state,
       QueueDir = join_path [state, ''queue''],
       MaxQueueEvents = 100000,
       MaxQueueBytes = 256 * 2 ^ 20,
       BatchSize = 256,
       FlushInterval = seconds 1,
       IngestEndpoint = ''https://localhost:8443/ingest'',
       EnrollEndpoint = ''https://localhost:8443/enroll'',
       EnrollToken = [],
       CertDir = join_path [state, ''certs''],
       BackoffBase = seconds 1,
       BackoffCap = seconds 60,
       RenewEndpoint = ''https://localhost:8443/renew'',
       RenewBefore = seconds (30 * 24 * 3600),
       RenewCheckInterval = seconds (6 * 3600)\<rparr>)"

definition Load :: "env \<Rightarrow> config" where
  "Load env =
     (let c0 = Default env;
          v = env ''HOST_AGENT_STATE_DIR'';
          c1 = (if v \<noteq> [] then c0\<lparr>StateDir := v, QueueDir := join_path [v, ''queue''], CertDir := join_path [v, ''certs'']\<rparr>
                else c0);
          c2 = (if env ''INGEST_ENDPOINT'' \<noteq> [] then c1\<lparr>IngestEndpoint := env ''INGEST_ENDPOINT''\<rparr> else c1);
          c3 = (if env ''AGENT_ENROLL_ENDPOINT'' \<noteq> [] then c2\<lparr>EnrollEndpoint := env ''AGENT_ENROLL_ENDPOINT''\<rparr> else c2);
          c4 = (if env ''AGENT_ENROLL_TOKEN'' \<noteq> [] then c3\<lparr>EnrollToken := env ''AGENT_ENROLL_TOKEN''\<rparr> else c3);
          c5 = (if env ''AGENT_RENEW_ENDPOINT'' \<noteq> [] then c4\<lparr>RenewEndpoint := env ''AGENT_RENEW_ENDPOINT''\<rparr> else c4)
      in c5)"

definition EnsureStateDir :: "config \<Rightarrow> world \<Rightarrow> (errno + unit) \<times> world" where
  "EnsureStateDir c = os_mkdir_all (clean (StateDir c)) (7 * 8 * 8)"

definition EnsureCertDir :: "config \<Rightarrow> world \<Rightarrow> (errno + unit) \<times> world" where
  "EnsureCertDir c = os_mkdir_all (clean (CertDir c)) (7 * 8 * 8)"

subsection \<open>Paths\<close>

lemma defaultStateDir_nonempty: "defaultStateDir env \<noteq> []"
proof -
  have "clean p \<noteq> []" for p using is_clean_clean [of p] by (simp only: is_clean_def) simp
  then show ?thesis by (auto simp: defaultStateDir_def user_home_dir_def join_path.simps)
qed

lemma endpoints_keep_dirs:
  "sel (if b then c\<lparr>IngestEndpoint := x\<rparr> else c) = sel c" "sel (if b then c\<lparr>EnrollEndpoint := x\<rparr> else c) = sel c"
  "sel (if b then c\<lparr>EnrollToken := x\<rparr> else c) = sel c" "sel (if b then c\<lparr>RenewEndpoint := x\<rparr> else c) = sel c"
  if "sel \<in> {StateDir, QueueDir, CertDir}" for sel :: "config \<Rightarrow> string"
  using that by auto

lemmas dirs_kept_by_endpoints =
  endpoints_keep_dirs [of StateDir, simplified] endpoints_keep_dirs [of QueueDir, simplified] endpoints_keep_dirs [of CertDir, simplified]

lemma Load_paths:
  "StateDir (Load env) \<noteq> []"
  "QueueDir (Load env) = join_path [StateDir (Load env), ''queue'']"
  "CertDir (Load env) = join_path [StateDir (Load env), ''certs'']"
proof -
  let ?v = "env ''HOST_AGENT_STATE_DIR''"
  let ?c = "if ?v \<noteq> [] then (Default env)\<lparr>StateDir := ?v, QueueDir := join_path [?v, ''queue''], CertDir := join_path [?v, ''certs'']\<rparr>
    else Default env"
  have d: "StateDir (Default env) = defaultStateDir env" "QueueDir (Default env) = join_path [defaultStateDir env, ''queue'']"
    "CertDir (Default env) = join_path [defaultStateDir env, ''certs'']" by (simp_all only: Default_def Let_def config.simps)
  have "StateDir (Load env) = StateDir ?c \<and> QueueDir (Load env) = QueueDir ?c \<and> CertDir (Load env) = CertDir ?c"
    unfolding Load_def Let_def by (simp only: dirs_kept_by_endpoints simp_thms)
  then show "StateDir (Load env) \<noteq> []" "QueueDir (Load env) = join_path [StateDir (Load env), ''queue'']"
    "CertDir (Load env) = join_path [StateDir (Load env), ''certs'']"
    using d defaultStateDir_nonempty [of env] by (simp_all split: if_split)
qed

lemma join_clean: "d \<noteq> [] \<Longrightarrow> is_clean (join_path (d # es))"
  by (simp add: join_path.simps)

end
