(* ===== verification/Sink.thy ===== *)
theory Sink
  imports Buffer_Theorems Config
begin

text \<open>
  The consumer half of \<open>cmd/agent/main.go\<close>: the delivery function \<open>buildSink\<close> returns, the drain loop
  of \<open>runSink\<close> and \<open>finalFlush\<close>.  The loops of the code end when the queue is empty or a delivery
  fails; whether that happens depends on the platform and the disk, so they take fuel and return
  \<open>None\<close> when it runs out (\<open>drain_pass_returns\<close> says how much is enough).
\<close>

type_synonym 'n deliver = "event list \<Rightarrow> 'n \<Rightarrow> (send_error + unit) \<times> 'n"

text \<open>\<open>-dry-run\<close>: each event encoded to standard output, one write per event.\<close>

fun encode_events :: "(bytes \<Rightarrow> 'n \<Rightarrow> bool \<times> 'n) \<Rightarrow> 'n deliver" where
  "encode_events out [] n = (Inr (), n)"
| "encode_events out (ev # evs) n =
     (case marshal_event ev of
        None \<Rightarrow> (Inl (ErrRetryable EncodeStdout), n)
      | Some b \<Rightarrow>
          (case out (b @ [CHR 0x0A]) n of
             (ok, n1) \<Rightarrow> if ok then encode_events out evs n1 else (Inl (ErrRetryable EncodeStdout), n1)))"

definition sink_deliver :: "bool \<Rightarrow> (bytes \<Rightarrow> 'n \<Rightarrow> bool \<times> 'n) \<Rightarrow> ('n, 'z) net \<Rightarrow> config \<Rightarrow> string \<Rightarrow> 'n deliver" where
  "sink_deliver dryRun out net cfg host =
     (if dryRun then encode_events out else Send net (New (IngestEndpoint cfg) host))"

record 'n sink_state =
  ssQueue :: queue
  ssWorld :: world
  ssNet :: 'n
  ssAttempt :: int

datatype pass_end = PassReadError | PassIdle | PassHalted | PassBackoff "duration option"

text \<open>The loop labelled \<open>drainPass\<close>.\<close>

fun drain_pass :: "'n deliver \<Rightarrow> config \<Rightarrow> (int \<Rightarrow> int) \<Rightarrow> nat \<Rightarrow> 'n sink_state \<Rightarrow> (pass_end \<times> 'n sink_state) option" where
  "drain_pass deliver cfg rnd 0 s = None"
| "drain_pass deliver cfg rnd (Suc fuel) s =
     (case ReadBatch (BatchSize cfg) 0 (ssQueue s) (ssWorld s) of
        (Inl e, q1, w1) \<Rightarrow> Some (PassReadError, s\<lparr>ssQueue := q1, ssWorld := w1\<rparr>)
      | (Inr b, q1, w1) \<Rightarrow>
          if batch_len b = 0 then Some (PassIdle, s\<lparr>ssQueue := q1, ssWorld := w1, ssAttempt := 0\<rparr>)
          else (case deliver (Events b) (ssNet s) of
              (Inr _, n1) \<Rightarrow>
                (case Ack b q1 w1 of
                   (_, q2, w2) \<Rightarrow> drain_pass deliver cfg rnd fuel \<lparr>ssQueue = q2, ssWorld = w2, ssNet = n1, ssAttempt = 0\<rparr>)
            | (Inl (ErrUnauthorized _), n1) \<Rightarrow>
                Some (PassHalted, \<lparr>ssQueue = q1, ssWorld = w1, ssNet = n1, ssAttempt = ssAttempt s\<rparr>)
            | (Inl (ErrPermanent _), n1) \<Rightarrow>
                (case DeadLetter b q1 w1 of
                   (_, q2, w2) \<Rightarrow> drain_pass deliver cfg rnd fuel \<lparr>ssQueue = q2, ssWorld = w2, ssNet = n1, ssAttempt = 0\<rparr>)
            | (Inl (ErrRetryable _), n1) \<Rightarrow>
                let attempt = ssAttempt s + 1
                in Some (PassBackoff (Backoff rnd attempt (BackoffBase cfg) (BackoffCap cfg)),
                     \<lparr>ssQueue = q1, ssWorld = w1, ssNet = n1, ssAttempt = attempt\<rparr>)))"

text \<open>\<open>finalFlush\<close>; \<open>expired\<close> says whether its five-second context is over.\<close>

fun finalFlush :: "'n deliver \<Rightarrow> config \<Rightarrow> ('n \<Rightarrow> bool) \<Rightarrow> nat \<Rightarrow> 'n sink_state \<Rightarrow> 'n sink_state option" where
  "finalFlush deliver cfg expired 0 s = None"
| "finalFlush deliver cfg expired (Suc fuel) s =
     (case ReadBatch (BatchSize cfg) 0 (ssQueue s) (ssWorld s) of
        (Inl e, q1, w1) \<Rightarrow> Some (s\<lparr>ssQueue := q1, ssWorld := w1\<rparr>)
      | (Inr b, q1, w1) \<Rightarrow>
          if batch_len b = 0 then Some (s\<lparr>ssQueue := q1, ssWorld := w1\<rparr>)
          else (case deliver (Events b) (ssNet s) of
              (Inr _, n1) \<Rightarrow>
                (case Ack b q1 w1 of
                   (_, q2, w2) \<Rightarrow>
                     let s2 = s\<lparr>ssQueue := q2, ssWorld := w2, ssNet := n1\<rparr>
                     in if expired n1 then Some s2 else finalFlush deliver cfg expired fuel s2)
            | (Inl (ErrPermanent _), n1) \<Rightarrow>
                (case DeadLetter b q1 w1 of
                   (_, q2, w2) \<Rightarrow>
                     let s2 = s\<lparr>ssQueue := q2, ssWorld := w2, ssNet := n1\<rparr>
                     in if expired n1 then Some s2 else finalFlush deliver cfg expired fuel s2)
            | (Inl _, n1) \<Rightarrow> Some (s\<lparr>ssQueue := q1, ssWorld := w1, ssNet := n1\<rparr>)))"

text \<open>
  \<open>runSink\<close> over the sequence of its wake-ups: a tick of the flush interval, or one of the two shutdown
  signals, which both end in the final flush.  \<open>waitOrStop\<close> only passes time.
\<close>

datatype wake = Tick | StopDrain | CtxDone

datatype sink_end = SinkHalted | SinkFlushed | SinkWaiting

fun runSink ::
  "'n deliver \<Rightarrow> config \<Rightarrow> (int \<Rightarrow> int) \<Rightarrow> ('n \<Rightarrow> bool) \<Rightarrow> nat \<Rightarrow> wake list \<Rightarrow> 'n sink_state \<Rightarrow> (sink_end \<times> 'n sink_state) option"
where
  "runSink deliver cfg rnd expired fuel [] s = Some (SinkWaiting, s)"
| "runSink deliver cfg rnd expired fuel (Tick # ws) s =
     (case drain_pass deliver cfg rnd fuel s of
        None \<Rightarrow> None
      | Some (PassHalted, s1) \<Rightarrow> Some (SinkHalted, s1)
      | Some (_, s1) \<Rightarrow> runSink deliver cfg rnd expired fuel ws s1)"
| "runSink deliver cfg rnd expired fuel (_ # ws) s =
     map_option (\<lambda>s1. (SinkFlushed, s1)) (finalFlush deliver cfg expired fuel s)"

subsection \<open>Recording deliveries\<close>

text \<open>
  To speak about what was delivered, the network state is paired with the history of the calls;
  \<open>deliver\<close> itself is any function.
\<close>

type_synonym history = "(event list \<times> (send_error + unit)) list"

definition recorded :: "'n deliver \<Rightarrow> ('n \<times> history) deliver" where
  "recorded deliver evs nh = (case deliver evs (fst nh) of (r, n1) \<Rightarrow> (r, (n1, snd nh @ [(evs, r)])))"

definition acked_in :: "history \<Rightarrow> event set" where
  "acked_in h = {ev. \<exists>evs. (evs, Inr ()) \<in> set h \<and> ev \<in> set evs}"

definition sink_q :: "'n sink_state \<Rightarrow> queue \<times> world" where
  "sink_q s = (ssQueue s, ssWorld s)"

text \<open>The names of pending files whose events are in a set.\<close>

definition names_of :: "queue \<times> world \<Rightarrow> event set \<Rightarrow> string set" where
  "names_of qw E = {n. \<exists>b ev. held_events qw n = Some b \<and> unmarshal_event b = Some ev \<and> ev \<in> E}"


lemma select_decodable: "(n, d) \<in> set (select maxN maxB k s es) \<Longrightarrow> (n, d) \<in> set es \<and> unmarshal_event d \<noteq> None"
  by (induction maxN maxB k s es rule: select.induct) (auto split: if_splits)

text \<open>A batch just read: its files are pending and hold its events.\<close>

definition fresh_batch :: "queue \<Rightarrow> world \<Rightarrow> batch \<Rightarrow> (string \<times> bytes) list \<Rightarrow> bool" where
  "fresh_batch q w b es \<longleftrightarrow> Events b = decoded es \<and> bFiles b = paths_of q (map fst es)
     \<and> (\<forall>(n, d)\<in>set es. live q w n = Some d \<and> unmarshal_event d \<noteq> None)"

lemma ReadBatch_fresh:
  assumes "queue_ok q" and "ReadBatch maxN maxB q w = (Inr b, q1, w1)"
  shows "\<exists>D es. settled D D q w q1 w1 \<and> fresh_batch q1 w1 b es \<and> es = select maxN maxB 0 0 (abs_queue q w)"
proof -
  let ?es = "select maxN maxB 0 0 (abs_queue q w)"
  obtain D where D: "D \<subseteq> corrupt (live q w)" "settled D D q w q1 w1"
    and b: "Events b = decoded ?es" "bFiles b = paths_of q (map fst ?es)"
    using ReadBatch_spec [OF assms] by (auto simp: abs_queue_def)
  have l: "live q1 w1 = live q w |` (- D)" and dir: "qDir q1 = qDir q"
    using D(2) by (simp_all add: settled_def same_conf_def)
  have "live q1 w1 n = Some d \<and> unmarshal_event d \<noteq> None" if "(n, d) \<in> set ?es" for n d
  proof -
    have d: "live q w n = Some d" "unmarshal_event d \<noteq> None"
      using select_decodable [OF that] assms(1) by (auto simp: set_abs)
    then have "n \<notin> D" using D(1) by (auto simp: corrupt_def)
    then show ?thesis using d l by simp
  qed
  then have "fresh_batch q1 w1 b ?es" using b dir by (auto simp: fresh_batch_def)
  then show ?thesis using D(2) by blast
qed

lemma fresh_files: "queue_ok q \<Longrightarrow> fresh_batch q w b es \<Longrightarrow> file_names q w (map fst es)"
  by (rule file_names_live) (auto simp: fresh_batch_def)

lemma fresh_events: "fresh_batch q w b es \<Longrightarrow> n \<in> fst ` set es \<Longrightarrow> n \<in> names_of (q, w) (set (Events b))"
  by (force simp: fresh_batch_def names_of_def held_events_def decoded_def image_iff)

lemma names_of_mono: "E \<subseteq> F \<Longrightarrow> names_of s E \<subseteq> names_of s F"
  by (auto simp: names_of_def)

lemma names_of_later: "state_ok s \<Longrightarrow> sq.left_only A s t \<Longrightarrow> names_of t E \<subseteq> names_of s E"
  unfolding names_of_def using sq.held_before by blast

lemma names_of_Un: "names_of s E \<union> names_of s F = names_of s (E \<union> F)"
  by (auto simp: names_of_def)

lemma acked_in_Cons: "acked_in ((evs, r) # h) = (if r = Inr () then set evs else {}) \<union> acked_in h"
  by (auto simp: acked_in_def)

lemma read_left_only:
  assumes "state_ok (q, w)" and "ReadBatch maxN maxB q w = (r, q1, w1)"
  shows "sq.left_only {} (q, w) (q1, w1)"
proof -
  obtain D where "settled D D q w q1 w1"
    using ReadBatch_spec [of q maxN maxB w r q1 w1] assms by (auto simp: state_ok_def)
  then show ?thesis by (auto simp: sq.left_only_def spool_settled_def)
qed

lemma ack_left_only:
  assumes "state_ok (q, w)" and "fresh_batch q w b es" and "Ack b q w = (r, q1, w1)"
  shows "sq.left_only (names_of (q, w) (set (Events b))) (q, w) (q1, w1)"
proof -
  have ok: "queue_ok q" using assms(1) by (simp add: state_ok_def)
  have bf: "bFiles b = paths_of q (map fst es)" using assms(2) by (simp add: fresh_batch_def)
  obtain N where N: "N \<subseteq> set (map fst es)" "settled {} N q w q1 w1"
    using Ack_spec [OF ok fresh_files [OF ok assms(2)] bf assms(3)] by blast
  have "spool_settled {} N (q, w) (q1, w1)" using N(2) by (simp add: spool_settled_def)
  moreover have "N - {} \<subseteq> names_of (q, w) (set (Events b))" using N(1) fresh_events [OF assms(2)] by auto
  ultimately show ?thesis unfolding sq.left_only_def by blast
qed

lemma dead_left_only:
  assumes "state_ok (q, w)" and "fresh_batch q w b es" and "DeadLetter b q w = (r, q1, w1)"
  shows "sq.left_only {} (q, w) (q1, w1)"
proof -
  have ok: "queue_ok q" using assms(1) by (simp add: state_ok_def)
  have bf: "bFiles b = paths_of q (map fst es)" using assms(2) by (simp add: fresh_batch_def)
  obtain N where "settled N N q w q1 w1"
    using DeadLetter_spec [OF ok fresh_files [OF ok assms(2)] bf assms(3)] by blast
  then show ?thesis by (auto simp: sq.left_only_def spool_settled_def)
qed

lemma left_only_chain:
  assumes "state_ok s" and "sq.left_only (names_of s E) s t" and "sq.left_only (names_of t F) t u"
  shows "sq.left_only (names_of s (E \<union> F)) s u"
proof -
  have "sq.left_only (names_of s E \<union> names_of t F) s u" by (rule sq.left_only_trans [OF assms])
  moreover have "names_of s E \<union> names_of t F \<subseteq> names_of s (E \<union> F)"
    using names_of_later [OF assms(1,2), of F] names_of_Un [of s E F] by blast
  ultimately show ?thesis by (rule sq.left_only_mono)
qed

lemma left_only_start:
  "state_ok s \<Longrightarrow> sq.left_only {} s t \<Longrightarrow> sq.left_only (names_of t F) t u \<Longrightarrow> sq.left_only (names_of s F) s u"
  using left_only_chain [of s "{}" t F u] by (simp add: names_of_def)

definition after_delivery :: "send_error + unit \<Rightarrow> batch \<Rightarrow> queue \<Rightarrow> world \<Rightarrow> queue \<times> world" where
  "after_delivery r b q w =
     (case r of
        Inr _ \<Rightarrow> snd (Ack b q w)
      | Inl (ErrPermanent _) \<Rightarrow> snd (DeadLetter b q w)
      | Inl _ \<Rightarrow> (q, w))"

text \<open>One round: read a batch, deliver it, settle it.\<close>

lemma round_left_only:
  assumes "state_ok (q, w)" and "ReadBatch maxN maxB q w = (Inr b, q1, w1)"
  shows "sq.left_only (names_of (q, w) (acked_in [(Events b, r)])) (q, w) (after_delivery r b q1 w1)"
proof -
  note rd = read_left_only [OF assms]
  have ok1: "state_ok (q1, w1)" by (rule sq.left_only_inv [OF assms(1) rd])
  obtain es where fb: "fresh_batch q1 w1 b es"
    using ReadBatch_fresh [OF _ assms(2)] assms(1) by (auto simp: state_ok_def)
  have "sq.left_only (names_of (q1, w1) (acked_in [(Events b, r)])) (q1, w1) (after_delivery r b q1 w1)"
  proof (cases r)
    case (Inr u)
    obtain ar q2 w2 where a: "Ack b q1 w1 = (ar, q2, w2)" by (metis prod_cases3)
    have "acked_in [(Events b, r)] = set (Events b)" using Inr by (auto simp: acked_in_def)
    then show ?thesis using ack_left_only [OF ok1 fb a] Inr a by (simp add: after_delivery_def)
  next
    case (Inl e)
    obtain dr q2 w2 where a: "DeadLetter b q1 w1 = (dr, q2, w2)" by (metis prod_cases3)
    have "sq.left_only {} (q1, w1) (after_delivery r b q1 w1)"
      using dead_left_only [OF ok1 fb a] sq.left_only_refl [OF ok1] Inl a
      by (cases e) (simp_all add: after_delivery_def)
    then show ?thesis by (rule sq.left_only_mono) simp
  qed
  then show ?thesis by (rule left_only_start [OF assms(1) rd])
qed

text \<open>\<open>lossless s s'\<close>: what left the queue from \<open>s\<close> to \<open>s'\<close> was acknowledged by the platform on the way.\<close>

definition lossless :: "('n \<times> history) sink_state \<Rightarrow> ('n \<times> history) sink_state \<Rightarrow> bool" where
  "lossless s s' \<longleftrightarrow> (\<exists>h. snd (ssNet s') = snd (ssNet s) @ h
     \<and> sq.left_only (names_of (sink_q s) (acked_in h)) (sink_q s) (sink_q s'))"

lemma lossless_trans:
  assumes "state_ok (sink_q s)" and "lossless s t" and "lossless t u"
  shows "lossless s u"
proof -
  obtain h k where h: "snd (ssNet t) = snd (ssNet s) @ h" "sq.left_only (names_of (sink_q s) (acked_in h)) (sink_q s) (sink_q t)"
    and k: "snd (ssNet u) = snd (ssNet t) @ k" "sq.left_only (names_of (sink_q t) (acked_in k)) (sink_q t) (sink_q u)"
    using assms(2,3) by (auto simp: lossless_def)
  have "acked_in h \<union> acked_in k = acked_in (h @ k)" by (auto simp: acked_in_def)
  with left_only_chain [OF assms(1) h(2) k(2)] h(1) k(1) show ?thesis
    by (auto simp: lossless_def)
qed

lemma lossless_ok: "state_ok (sink_q s) \<Longrightarrow> lossless s t \<Longrightarrow> state_ok (sink_q t)"
  by (auto simp: lossless_def intro: sq.left_only_inv)

lemma lossless_read:
  assumes "state_ok (sink_q s)" and "ReadBatch maxN maxB (ssQueue s) (ssWorld s) = (r, q1, w1)"
    and "sink_q t = (q1, w1)" and "ssNet t = ssNet s"
  shows "lossless s t"
  using read_left_only [OF _ assms(2)] assms(1,3,4)
  by (auto simp: lossless_def sink_q_def acked_in_def names_of_def intro!: exI [of _ "[]"])

lemma lossless_round:
  assumes "state_ok (sink_q s)" and "ReadBatch maxN maxB (ssQueue s) (ssWorld s) = (Inr b, q1, w1)"
    and "recorded deliver (Events b) (ssNet s) = (r, n1)" and "sink_q t = after_delivery r b q1 w1" and "ssNet t = n1"
  shows "lossless s t"
proof -
  have "snd n1 = snd (ssNet s) @ [(Events b, r)]" using assms(3) by (auto simp: recorded_def split: prod.splits)
  moreover have "sq.left_only (names_of (sink_q s) (acked_in [(Events b, r)])) (sink_q s) (sink_q t)"
    using round_left_only [OF _ assms(2), of r] assms(1,4) by (simp add: sink_q_def)
  ultimately show ?thesis using assms(5) by (auto simp: lossless_def)
qed

lemma drain_pass_lossless:
  assumes "drain_pass (recorded deliver) cfg rnd fuel s = Some (e, s')" and "state_ok (sink_q s)"
  shows "lossless s s'"
  using assms
proof (induction fuel arbitrary: s)
  case (Suc fuel)
  obtain r q1 w1 where rb: "ReadBatch (BatchSize cfg) 0 (ssQueue s) (ssWorld s) = (r, q1, w1)" by (metis prod_cases3)
  show ?case
  proof (cases "\<exists>b. r = Inr b \<and> batch_len b \<noteq> 0")
    case False
    then have "sink_q s' = (q1, w1)" "ssNet s' = ssNet s"
      using Suc.prems(1) rb by (auto simp: sink_q_def split: sum.splits if_splits)
    then show ?thesis by (rule lossless_read [OF Suc.prems(2) rb])
  next
    case True
    then obtain b where b: "r = Inr b" "batch_len b \<noteq> 0" by blast
    obtain dr n1 where rec: "recorded deliver (Events b) (ssNet s) = (dr, n1)" by (metis surj_pair)
    obtain q2 w2 where ad: "after_delivery dr b q1 w1 = (q2, w2)" by force
    note round = lossless_round [OF Suc.prems(2) rb [unfolded b(1)] rec]
    show ?thesis
    proof (cases "dr = Inr () \<or> (\<exists>f. dr = Inl (ErrPermanent f))")
      case True
      let ?s2 = "\<lparr>ssQueue = q2, ssWorld = w2, ssNet = n1, ssAttempt = 0\<rparr>"
      have "drain_pass (recorded deliver) cfg rnd fuel ?s2 = Some (e, s')"
        using Suc.prems(1) rb b rec ad True by (auto simp: after_delivery_def split: prod.splits)
      moreover have l2: "lossless s ?s2" by (rule round) (simp_all add: sink_q_def ad)
      ultimately show ?thesis
        using Suc.IH lossless_ok [OF Suc.prems(2) l2] lossless_trans [OF Suc.prems(2) l2] by blast
    next
      case False
      then have "sink_q s' = after_delivery dr b q1 w1" "ssNet s' = n1"
        using Suc.prems(1) rb b rec
        by (auto simp: after_delivery_def sink_q_def Let_def split: sum.splits send_error.splits)
      then show ?thesis by (rule round)
    qed
  qed
qed simp

lemma finalFlush_lossless:
  assumes "finalFlush (recorded deliver) cfg expired fuel s = Some s'" and "state_ok (sink_q s)"
  shows "lossless s s'"
  using assms
proof (induction fuel arbitrary: s)
  case (Suc fuel)
  obtain r q1 w1 where rb: "ReadBatch (BatchSize cfg) 0 (ssQueue s) (ssWorld s) = (r, q1, w1)" by (metis prod_cases3)
  show ?case
  proof (cases "\<exists>b. r = Inr b \<and> batch_len b \<noteq> 0")
    case False
    then have "sink_q s' = (q1, w1)" "ssNet s' = ssNet s"
      using Suc.prems(1) rb by (auto simp: sink_q_def split: sum.splits if_splits)
    then show ?thesis by (rule lossless_read [OF Suc.prems(2) rb])
  next
    case True
    then obtain b where b: "r = Inr b" "batch_len b \<noteq> 0" by blast
    obtain dr n1 where rec: "recorded deliver (Events b) (ssNet s) = (dr, n1)" by (metis surj_pair)
    obtain q2 w2 where ad: "after_delivery dr b q1 w1 = (q2, w2)" by force
    let ?s2 = "s\<lparr>ssQueue := q2, ssWorld := w2, ssNet := n1\<rparr>"
    have l2: "lossless s ?s2"
      by (rule lossless_round [OF Suc.prems(2) rb [unfolded b(1)] rec]) (simp_all add: sink_q_def ad)
    have "s' = ?s2 \<or> finalFlush (recorded deliver) cfg expired fuel ?s2 = Some s'"
      using Suc.prems(1) rb b rec ad
      by (auto simp: after_delivery_def Let_def split: sum.splits send_error.splits prod.splits if_splits)
    then show ?thesis
      using l2 Suc.IH lossless_ok [OF Suc.prems(2) l2] lossless_trans [OF Suc.prems(2) l2] by blast
  qed
qed simp

lemma runSink_lossless:
  assumes "runSink (recorded deliver) cfg rnd expired fuel ws s = Some (e, s')" and "state_ok (sink_q s)"
  shows "lossless s s'"
  using assms
proof (induction ws arbitrary: s)
  case Nil
  then show ?case using sq.left_only_refl by (auto simp: lossless_def acked_in_def names_of_def)
next
  case (Cons w ws)
  show ?case
  proof (cases "w = Tick")
    case True
    then obtain e1 s1 where d: "drain_pass (recorded deliver) cfg rnd fuel s = Some (e1, s1)"
      using Cons.prems(1) by (auto split: option.splits)
    note l1 = drain_pass_lossless [OF d Cons.prems(2)]
    have "s' = s1 \<or> runSink (recorded deliver) cfg rnd expired fuel ws s1 = Some (e, s')"
      using Cons.prems(1) True d by (auto split: pass_end.splits)
    then show ?thesis
      using l1 Cons.IH lossless_ok [OF Cons.prems(2) l1] lossless_trans [OF Cons.prems(2) l1] by blast
  next
    case False
    then have "finalFlush (recorded deliver) cfg expired fuel s = Some s'"
      using Cons.prems(1) by (cases w) auto
    then show ?thesis using Cons.prems(2) by (rule finalFlush_lossless)
  qed
qed

text \<open>
  C4. The sink loses nothing.  Whatever the platform answers and whatever fails on disk, for every
  sequence of ticks and shutdown signals: an event that was pending when \<open>runSink\<close> started is, when
  it stops, still pending with the same contents, or in the dead-letter directory with the same
  contents, or was in a batch the platform acknowledged.
\<close>

theorem sink_loses_nothing:
  assumes "runSink (recorded deliver) cfg rnd expired fuel ws s = Some (e, s')" and "queue_ok (ssQueue s)"
    and "live (ssQueue s) (ssWorld s) n = Some b"
  shows "live (ssQueue s') (ssWorld s') n = Some b \<or> dead (ssQueue s') (ssWorld s') n = Some b
    \<or> (\<exists>ev evs. unmarshal_event b = Some ev \<and> ev \<in> set evs
        \<and> (evs, Inr ()) \<in> set (drop (length (snd (ssNet s))) (snd (ssNet s'))))"
proof -
  have ok: "state_ok (sink_q s)" using assms(2) by (simp add: state_ok_def sink_q_def)
  obtain h where h: "snd (ssNet s') = snd (ssNet s) @ h"
    "sq.left_only (names_of (sink_q s) (acked_in h)) (sink_q s) (sink_q s')"
    using runSink_lossless [OF assms(1) ok] by (auto simp: lossless_def)
  have "held_events (sink_q s) n = Some b" using assms(3) by (simp add: held_events_def sink_q_def)
  from sq.accounted [OF ok h(2) this] show ?thesis
    using h(1) assms(3) by (auto simp: held_events_def dead_events_def sink_q_def names_of_def acked_in_def)
qed

end
