(* ===== verification/Sink_Drain.thy ===== *)
theory Sink_Drain
  imports Sink
begin

text \<open>
  The drain loop on a working disk: it returns, it empties the queue into an accepting platform in
  order and exactly once, and it leaves the queue alone when the platform rejects the identity or
  cannot be reached.
\<close>

subsection \<open>Draining without failures\<close>

text \<open>A queue on a working disk: its directories exist and no directory has taken the place of a dead letter.\<close>

definition healthy :: "queue \<Rightarrow> world \<Rightarrow> bool" where
  "healthy q w \<longleftrightarrow> queue_ok q \<and> quiet w \<and> dirs_there q w
     \<and> (\<forall>n. event_name n \<longrightarrow> \<not> is_dir_in (w_files w) (join_path [qDeadDir q, n]))"

lemma settled_healthy:
  assumes "healthy q w" and "settled D N q w q' w'"
  shows "healthy q' w'"
  using assms settled_queue_ok [OF _ assms(2)]
  by (auto simp: healthy_def settled_def same_conf_def dirs_kept_def dirs_there_def)

lemma healthy_read:
  assumes "healthy q w"
  shows "\<exists>b q1 w1 D. ReadBatch maxN maxB q w = (Inr b, q1, w1) \<and> settled D D q w q1 w1 \<and> healthy q1 w1
    \<and> fresh_batch q1 w1 b (select maxN maxB 0 0 (abs_queue q w))"
proof -
  have ok: "queue_ok q" "quiet w" "dirs_there q w" using assms by (auto simp: healthy_def)
  obtain b q1 w1 where rb: "ReadBatch maxN maxB q w = (Inr b, q1, w1)" using quiet_ReadBatch [OF ok] by blast
  show ?thesis using rb ReadBatch_fresh [OF ok(1) rb] settled_healthy [OF assms] by blast
qed

lemma healthy_ack:
  assumes "healthy q w" and "fresh_batch q w b es"
  shows "\<exists>q1 w1 N. Ack b q w = (Inr (), q1, w1) \<and> settled {} N q w q1 w1 \<and> healthy q1 w1
    \<and> abs_queue q1 w1 = aq_remove (fst ` set es) (abs_queue q w)"
proof -
  have ok: "queue_ok q" "quiet w" using assms by (auto simp: healthy_def)
  have fn: "file_names q w (map fst es)" by (rule fresh_files [OF ok(1) assms(2)])
  have bf: "bFiles b = paths_of q (map fst es)" using assms(2) by (simp add: fresh_batch_def)
  obtain q1 w1 where a: "Ack b q w = (Inr (), q1, w1)"
    using quiet_ack_files [OF ok(1) fn ok(2), of None] bf by (auto simp: Ack_def as_result_def)
  obtain N where N: "N \<subseteq> set (map fst es)" "settled {} N q w q1 w1" "set (map fst es) \<inter> dom (live q1 w1) = {}"
    using Ack_spec [OF ok(1) fn bf a] by blast
  show ?thesis
    using a N settled_healthy [OF assms(1) N(2)] abs_removed [OF ok(1) N(2,1,3)] by auto
qed

lemma quiet_dead_one:
  assumes "healthy q w" and "live q w n = Some b"
  shows "\<exists>q1 w1. deadLetterFileLocked (join_path [qDir q, n]) sz q w = (Inr (), q1, w1)"
proof -
  have ok: "queue_ok q" "quiet w" using assms by (auto simp: healthy_def)
  have n: "event_name n" by (rule live_file(1) [OF ok(1) assms(2)])
  obtain a where f: "lookup w (join_path [qDir q, n]) = Some (File a b)" using live_file(2) [OF ok(1) assms(2)] by blast
  have "dir_name (join_path [qDeadDir q, n]) = qDeadDir q"
    using ok(1) n dir_name_join [of "qDeadDir q" n] by (auto simp: event_name_def)
  then obtain w1 where "os_rename (join_path [qDir q, n]) (join_path [qDeadDir q, n]) w = (Inr (), w1)"
    using quiet_rename [OF ok(2) f, of "join_path [qDeadDir q, n]"] assms(1) n by (auto simp: healthy_def dirs_there_def)
  then show ?thesis using dead_path [OF ok(1) n] by (simp add: deadLetterFileLocked_def)
qed

lemma quiet_dead_files:
  assumes "healthy q w" and "set ns \<subseteq> dom (live q w)" and "distinct ns"
  shows "\<exists>q1 w1. dead_files (paths_of q ns) fe q w = (as_result fe, q1, w1)"
  using assms
proof (induction ns arbitrary: q w)
  case (Cons n ns)
  let ?p = "join_path [qDir q, n]"
  obtain b where b: "live q w n = Some b" using Cons.prems(2) by auto
  have ok: "queue_ok q" "quiet w" using Cons.prems(1) by (auto simp: healthy_def)
  obtain sz w0 where fs: "fileSize ?p w = (sz, w0)" by force
  have f0: "w_files w0 = w_files w" using fs by (rule fileSize_frame)
  have h0: "healthy q w0"
    using Cons.prems(1) f0 fileSize_quiet [OF fs] by (auto simp: healthy_def dirs_there_def)
  have b0: "live q w0 n = Some b" using b f0 by simp
  have size_ok: "\<And>c. live q w0 n = Some c \<Longrightarrow> sz \<le> int (length c) \<and> (quiet w0 \<longrightarrow> sz = int (length c))"
    using size_of_live [OF ok(1) fs b0] ok(2) b0 by auto
  obtain q1 w1 where dl: "deadLetterFileLocked ?p sz q w0 = (Inr (), q1, w1)" using quiet_dead_one [OF h0 b0] by blast
  obtain M where M: "M \<subseteq> {n}" "settled M M q w0 q1 w1"
    using deadLetterFile_spec [OF ok(1) live_file(1) [OF ok(1) b] dl] size_ok by auto
  have "qDir q1 = qDir q" using M(2) by (simp add: settled_def same_conf_def)
  moreover have "set ns \<subseteq> dom (live q1 w1)" using settled_dom [OF M(2)] M(1) Cons.prems(2,3) f0 by auto
  moreover have "distinct ns" using Cons.prems(3) by simp
  ultimately show ?case using Cons.IH [OF settled_healthy [OF h0 M(2)]] fs dl by simp
qed simp

lemma distinct_batch: "queue_ok q \<Longrightarrow> distinct (map fst (select maxN maxB k s (abs_queue q w)))"
proof -
  obtain j where "select maxN maxB k s (abs_queue q w) = take j (filter (\<lambda>(n, d). unmarshal_event d \<noteq> None) (abs_queue q w))"
    using select_filter by blast
  moreover have "distinct (map fst (filter P (abs_queue q w)))" for P
    by (rule distinct_map_filter) simp
  ultimately show ?thesis by (simp add: take_map [symmetric] distinct_take)
qed

lemma healthy_dead:
  assumes "healthy q w" and "fresh_batch q w b es" and "distinct (map fst es)"
  shows "\<exists>q1 w1 N. DeadLetter b q w = (Inr (), q1, w1) \<and> settled N N q w q1 w1 \<and> healthy q1 w1
    \<and> fst ` set es \<inter> dom (live q1 w1) = {}"
proof -
  have ok: "queue_ok q" "dirs_there q w" using assms by (auto simp: healthy_def)
  have fn: "file_names q w (map fst es)" by (rule fresh_files [OF ok(1) assms(2)])
  have bf: "bFiles b = paths_of q (map fst es)" using assms(2) by (simp add: fresh_batch_def)
  have sub: "set (map fst es) \<subseteq> dom (live q w)" using assms(2) by (auto simp: fresh_batch_def)
  obtain q1 w1 where a: "DeadLetter b q w = (Inr (), q1, w1)"
    using quiet_dead_files [OF assms(1) sub assms(3), of None] bf by (auto simp: DeadLetter_def as_result_def)
  obtain N where "settled N N q w q1 w1" "set (map fst es) \<inter> dom (live q1 w1) = {}"
    using DeadLetter_spec [OF ok(1) fn bf a] ok(2) by (auto simp: dirs_there_def)
  then show ?thesis using a settled_healthy [OF assms(1)] by auto
qed

lemma fewer_live:
  assumes "queue_ok q" and "settled D N q w q1 w1" and "n \<in> dom (live q w)" and "n \<notin> dom (live q1 w1)"
  shows "card (dom (live q1 w1)) < card (dom (live q w))"
proof (rule psubset_card_mono)
  show "finite (dom (live q w))" using assms(1) by simp
  show "dom (live q1 w1) \<subset> dom (live q w)" using settled_dom [OF assms(2)] assms(3,4) by auto
qed


subsection \<open>One round\<close>

definition decodable :: "aqueue \<Rightarrow> aqueue" where
  "decodable es = filter (\<lambda>(n, d). unmarshal_event d \<noteq> None) es"

lemma select_nil: "select maxN maxB 0 0 es = [] \<Longrightarrow> decodable es = []"
  by (induction es) (auto simp: decodable_def split: if_splits)

lemma decodable_read:
  assumes "queue_ok q" and "settled D D q w q1 w1" and "D \<subseteq> corrupt (live q w)"
  shows "decodable (abs_queue q1 w1) = decodable (abs_queue q w)"
proof -
  have "n \<notin> D" if "(n, d) \<in> set (abs_queue q w)" "unmarshal_event d \<noteq> None" for n d
    using that assms(1,3) by (auto simp: set_abs corrupt_def)
  then show ?thesis
    unfolding decodable_def abs_settled [OF assms(1,2)] aq_remove_def filter_filter
    by (intro filter_cong) auto
qed

lemma remove_front:
  assumes "distinct (map fst es)" and "decodable es = xs @ ys"
  shows "decodable (aq_remove (fst ` set xs) es) = ys"
proof -
  have "distinct (map fst (decodable es))" unfolding decodable_def by (rule distinct_map_filter [OF assms(1)])
  then have d: "distinct (map fst xs @ map fst ys)" by (simp add: assms(2))
  have "decodable (aq_remove (fst ` set xs) es) = filter (\<lambda>(n, _). n \<notin> fst ` set xs) (decodable es)"
    by (simp add: decodable_def aq_remove_def conj_commute case_prod_beta)
  also have "\<dots> = filter (\<lambda>(n, _). n \<notin> fst ` set xs) xs @ filter (\<lambda>(n, _). n \<notin> fst ` set xs) ys"
    by (simp add: assms(2))
  also have "filter (\<lambda>(n, _). n \<notin> fst ` set xs) xs = []" by (force simp: filter_empty_conv)
  also have "filter (\<lambda>(n, _). n \<notin> fst ` set xs) ys = ys" using d by (intro filter_True) force
  also have "[] @ ys = ys" by simp
  finally show ?thesis .
qed

lemma healthy_round:
  assumes "healthy q w"
  obtains b q1 w1 es rest where "ReadBatch maxN maxB q w = (Inr b, q1, w1)" and "healthy q1 w1"
    and "fresh_batch q1 w1 b es" and "distinct (map fst es)" and "Events b = decoded es"
    and "decodable (abs_queue q w) = es @ rest" and "decodable (abs_queue q1 w1) = es @ rest"
    and "card (dom (live q1 w1)) \<le> card (dom (live q w))" and "es = [] \<longrightarrow> rest = []"
proof -
  let ?es = "select maxN maxB 0 0 (abs_queue q w)"
  have ok: "queue_ok q" using assms by (simp add: healthy_def)
  obtain b q1 w1 D where rb: "ReadBatch maxN maxB q w = (Inr b, q1, w1)" and h1: "healthy q1 w1"
    and fb: "fresh_batch q1 w1 b ?es" using healthy_read [OF assms] by metis
  obtain D where D: "D \<subseteq> corrupt (live q w)" "settled D D q w q1 w1"
    using ReadBatch_spec [OF ok rb] by blast
  obtain k where "?es = take k (decodable (abs_queue q w))"
    using select_filter unfolding decodable_def by blast
  then have split: "decodable (abs_queue q w) = ?es @ drop k (decodable (abs_queue q w))" by simp
  show thesis
  proof (rule that [of b q1 w1 ?es "drop k (decodable (abs_queue q w))"])
    show "decodable (abs_queue q1 w1) = ?es @ drop k (decodable (abs_queue q w))"
      using decodable_read [OF ok D(2,1)] split by simp
    show "card (dom (live q1 w1)) \<le> card (dom (live q w))" using settled_card [OF ok D(2)] by simp
  qed (use rb h1 fb distinct_batch [OF ok] split select_nil in \<open>auto simp: fresh_batch_def\<close>)
qed

lemma batch_names:
  assumes "fresh_batch q w b es" and "batch_len b \<noteq> 0"
  obtains n where "n \<in> fst ` set es" and "n \<in> dom (live q w)"
proof -
  have "es \<noteq> []" using assms by (auto simp: batch_len_def fresh_batch_def decoded_def)
  then obtain x where x: "x \<in> set es" by (cases es) auto
  then have "live q w (fst x) = Some (snd x)" using assms(1) by (auto simp: fresh_batch_def)
  then show thesis using that x by blast
qed

lemma accepted_batch:
  assumes "healthy q w" and "fresh_batch q w b es" and "batch_len b \<noteq> 0"
    and "decodable (abs_queue q w) = es @ rest"
  obtains q1 w1 where "Ack b q w = (Inr (), q1, w1)" and "healthy q1 w1"
    and "card (dom (live q1 w1)) < card (dom (live q w))" and "decodable (abs_queue q1 w1) = rest"
proof -
  have ok: "queue_ok q" using assms(1) by (simp add: healthy_def)
  obtain q1 w1 N where a: "Ack b q w = (Inr (), q1, w1)" "settled {} N q w q1 w1" "healthy q1 w1"
    and ab: "abs_queue q1 w1 = aq_remove (fst ` set es) (abs_queue q w)" using healthy_ack [OF assms(1,2)] by blast
  obtain n where n: "n \<in> fst ` set es" "n \<in> dom (live q w)" using batch_names [OF assms(2,3)] .
  have "n \<notin> dom (live q1 w1)"
  proof -
    have "queue_ok q1" using a(3) by (simp add: healthy_def)
    then have "dom (live q1 w1) = fst ` set (abs_queue q1 w1)" by (force simp: set_abs)
    also have "\<dots> \<inter> fst ` set es = {}" by (force simp: ab aq_remove_def)
    finally show ?thesis using n(1) by blast
  qed
  then have "card (dom (live q1 w1)) < card (dom (live q w))" using fewer_live [OF ok a(2) n(2)] by simp
  moreover have "decodable (abs_queue q1 w1) = rest"
    unfolding ab by (rule remove_front [OF _ assms(4)]) simp
  ultimately show thesis using that a(1,3) by blast
qed

lemma rejected_batch:
  assumes "healthy q w" and "fresh_batch q w b es" and "batch_len b \<noteq> 0" and "distinct (map fst es)"
  obtains q1 w1 where "DeadLetter b q w = (Inr (), q1, w1)" and "healthy q1 w1"
    and "card (dom (live q1 w1)) < card (dom (live q w))"
proof -
  have ok: "queue_ok q" using assms(1) by (simp add: healthy_def)
  obtain q1 w1 N where a: "DeadLetter b q w = (Inr (), q1, w1)" "settled N N q w q1 w1" "healthy q1 w1"
    "fst ` set es \<inter> dom (live q1 w1) = {}" using healthy_dead [OF assms(1,2,4)] by blast
  obtain n where n: "n \<in> fst ` set es" "n \<in> dom (live q w)" using batch_names [OF assms(2,3)] .
  have "n \<notin> dom (live q1 w1)" using a(4) n(1) by blast
  then have "card (dom (live q1 w1)) < card (dom (live q w))" using fewer_live [OF ok a(2) n(2)] by simp
  then show thesis using that a(1,3) by blast
qed

text \<open>A batch that was read and then acknowledged, or dead-lettered: its events and no others have left.\<close>

lemma settled_batch:
  assumes "healthy q w" and "fresh_batch q w b es" and "distinct (map fst es)" and "batch_len b \<noteq> 0"
    and "decodable (abs_queue q w) = es @ rest"
  obtains q1 w1 D where "(if keep then DeadLetter b q w else Ack b q w) = (Inr (), q1, w1)" and "healthy q1 w1"
    and "settled D (fst ` set es) q w q1 w1" and "D = (if keep then fst ` set es else {})"
    and "card (dom (live q1 w1)) < card (dom (live q w))" and "decodable (abs_queue q1 w1) = rest"
proof -
  have ok: "queue_ok q" "dirs_there q w" using assms(1) by (simp_all add: healthy_def)
  have fn: "file_names q w (map fst es)" by (rule fresh_files [OF ok(1) assms(2)])
  have bf: "bFiles b = paths_of q (map fst es)" using assms(2) by (simp add: fresh_batch_def)
  have sub: "fst ` set es \<subseteq> dom (live q w)" using assms(2) by (auto simp: fresh_batch_def)
  let ?op = "if keep then DeadLetter b q w else Ack b q w"
  obtain q1 w1 N where a: "?op = (Inr (), q1, w1)" "settled (if keep then N else {}) N q w q1 w1"
    "N \<subseteq> fst ` set es" "fst ` set es \<inter> dom (live q1 w1) = {}"
  proof (cases keep)
    case True
    obtain q1 w1 where d: "DeadLetter b q w = (Inr (), q1, w1)" using healthy_dead [OF assms(1-3)] by blast
    then show thesis using DeadLetter_spec [OF ok(1) fn bf d] ok(2) True that by (auto simp: dirs_there_def)
  next
    case False
    obtain q1 w1 where d: "Ack b q w = (Inr (), q1, w1)" using healthy_ack [OF assms(1,2)] by blast
    then show thesis using Ack_spec [OF ok(1) fn bf d] False that by auto
  qed
  have N: "N = fst ` set es"
  proof -
    have "dom (live q1 w1) = dom (live q w) - N" by (rule settled_dom [OF a(2)])
    then show ?thesis using a(3,4) sub by blast
  qed
  have "decodable (abs_queue q1 w1) = rest"
    unfolding abs_removed [OF ok(1) a(2,3,4)] by (rule remove_front [OF _ assms(5)]) simp
  moreover obtain n where "n \<in> fst ` set es" "n \<in> dom (live q w)" using batch_names [OF assms(2,4)] .
  then have "card (dom (live q1 w1)) < card (dom (live q w))" using fewer_live [OF ok(1) a(2)] a(4) by blast
  ultimately show thesis
    using that [of q1 w1 "if keep then N else {}"] a(1,2) settled_healthy [OF assms(1) a(2)] unfolding N by auto
qed

subsection \<open>A run\<close>

definition demo_dirs :: "string set" where
  "demo_dirs = {[slash], ''.'', ''/q'', ''/q/dead''}"

lemma demo_only_dirs: "is_dir_in (w_files (snd demo_written)) p \<Longrightarrow> p \<in> demo_dirs"
proof -
  have "list_all (\<lambda>(p, e). case e of Dir _ \<Rightarrow> p = ''/q'' \<or> p = ''/q/dead'' | _ \<Rightarrow> True) (w_files (snd demo_written))"
    by code_simp
  moreover assume "is_dir_in (w_files (snd demo_written)) p"
  ultimately show ?thesis unfolding demo_dirs_def is_dir_in_def by (fastforce dest: map_of_SomeD simp: list_all_iff)
qed

lemma demo_healthy:
  assumes "demo_written = (q, w)"
  shows "healthy q w"
proof -
  note st = demo_written_state [OF assms]
  have "qDeadDir (fst demo_written) = ''/q/dead''" by code_simp
  then have dead: "qDeadDir q = ''/q/dead''" unfolding assms fst_conv .
  have "\<not> is_dir_in (w_files w) (join_path [qDeadDir q, n])" if "event_name n" for n
  proof
    assume "is_dir_in (w_files w) (join_path [qDeadDir q, n])"
    then have d: "join_path [qDeadDir q, n] \<in> demo_dirs" by (rule demo_only_dirs [unfolded assms snd_conv])
    have "dir_name (join_path [qDeadDir q, n]) = qDeadDir q"
      using st(1) that dir_name_join [of "qDeadDir q" n] by (auto simp: event_name_def)
    then have "qDeadDir q \<in> dir_name ` demo_dirs" using d by (metis imageI)
    also have "dir_name ` demo_dirs = {[slash], ''.'', ''/q''}" by code_simp
    finally show False unfolding dead by simp
  qed
  then show ?thesis unfolding healthy_def using st(1,3,4) by blast
qed

lemma demo_one_pending:
  assumes "demo_written = (q, w)"
  shows "card (dom (live q w)) = 1" and "abs_queue q w = [(fileName demo_event, demo_bytes)]"
proof -
  note st = demo_written_state [OF assms]
  show "card (dom (live q w)) = 1" by (simp add: st(5))
  have "set (names q w) = {fileName demo_event}" using set_names [OF st(1), of w] st(5) by simp
  moreover have "sorted_wrt (<) (names q w)" by (simp add: strict_sorted_iff)
  ultimately have "names q w = [fileName demo_event]" by (cases "names q w" rule: list.exhaust; cases "tl (names q w)") auto
  then show "abs_queue q w = [(fileName demo_event, demo_bytes)]" by (simp add: abs_queue_def st(5))
qed

definition demo_config :: config where
  "demo_config = Load (\<lambda>k. if k = ''HOME'' then ''/root'' else [])"

text \<open>A platform that plays back a list of statuses.\<close>

definition demo_deliver :: "int list deliver" where
  "demo_deliver = Send demo_net (New (IngestEndpoint demo_config) ''web-1'')"

definition demo_sink :: "'n \<Rightarrow> 'n sink_state" where
  "demo_sink n = \<lparr>ssQueue = fst demo_written, ssWorld = snd demo_written, ssNet = n, ssAttempt = 0\<rparr>"

lemma demo_sink_state:
  "healthy (ssQueue (demo_sink n)) (ssWorld (demo_sink n))"
  "card (dom (live (ssQueue (demo_sink n)) (ssWorld (demo_sink n)))) = 1"
  "abs_queue (ssQueue (demo_sink n)) (ssWorld (demo_sink n)) = [(fileName demo_event, demo_bytes)]"
  using demo_healthy demo_one_pending by (cases demo_written; simp add: demo_sink_def)+

subsection \<open>Properties\<close>

lemma demo_first_round:
  obtains b q1 w1 where "ReadBatch (BatchSize cfg) 0 (ssQueue (demo_sink n)) (ssWorld (demo_sink n)) = (Inr b, q1, w1)"
    and "batch_len b = 1"
proof -
  obtain b q1 w1 es rest where r: "ReadBatch (BatchSize cfg) 0 (ssQueue (demo_sink n)) (ssWorld (demo_sink n)) = (Inr b, q1, w1)"
    "Events b = decoded es" "decodable [(fileName demo_event, demo_bytes)] = es @ rest" "es = [] \<longrightarrow> rest = []"
    using healthy_round [OF demo_sink_state(1) [of n], of "BatchSize cfg" 0] unfolding demo_sink_state(3) by metis
  have "es = [(fileName demo_event, demo_bytes)]"
    using r(3,4) demo_decode by (auto simp: decodable_def Cons_eq_append_conv)
  then show thesis using that r(1,2) by (simp add: batch_len_def decoded_def)
qed

theorem sink_loses_nothing_witness:
  "\<exists>s'. runSink (recorded (\<lambda>_ n. (Inl (ErrUnauthorized (IngestReturned 401)), n))) demo_config (\<lambda>_. 0) (\<lambda>_. False) 1
      [Tick] (demo_sink ((), [] :: history)) = Some (SinkHalted, s')
    \<and> (live (ssQueue s') (ssWorld s') (fileName demo_event) = Some demo_bytes
       \<or> dead (ssQueue s') (ssWorld s') (fileName demo_event) = Some demo_bytes)"
proof -
  let ?d = "\<lambda>_ n. (Inl (ErrUnauthorized (IngestReturned 401)), n)" and ?s = "demo_sink ((), [] :: history)"
  obtain b q1 w1 where rb: "ReadBatch (BatchSize demo_config) 0 (ssQueue ?s) (ssWorld ?s) = (Inr b, q1, w1)" "batch_len b = 1"
    by (rule demo_first_round [where cfg = demo_config and n = "((), [] :: history)"]) (rule that; assumption)
  then obtain s' where run: "runSink (recorded ?d) demo_config (\<lambda>_. 0) (\<lambda>_. False) 1 [Tick] ?s = Some (SinkHalted, s')"
    and h: "snd (ssNet s') = [(Events b, Inl (ErrUnauthorized (IngestReturned 401)))]"
    by (simp add: recorded_def) (simp add: demo_sink_def)
  have "healthy (ssQueue ?s) (ssWorld ?s)" by (rule demo_sink_state)
  then have ok: "queue_ok (ssQueue ?s)" by (simp add: healthy_def)
  have "(fileName demo_event, demo_bytes) \<in> set (abs_queue (ssQueue ?s) (ssWorld ?s))" by (simp add: demo_sink_state)
  then have "live (ssQueue ?s) (ssWorld ?s) (fileName demo_event) = Some demo_bytes" using ok by (simp add: set_abs)
  from sink_loses_nothing [OF run ok this] h run show ?thesis by (auto simp: demo_sink_def)
qed

text \<open>
  C21. A drain pass ends.  On a working disk, whatever the platform answers, a pass started with
  more fuel than there are pending events returns, never with a read error; the disk stays sound,
  and when the pass ends idle no readable event is left in the queue.
\<close>

theorem drain_pass_returns:
  assumes "healthy (ssQueue s) (ssWorld s)" and "card (dom (live (ssQueue s) (ssWorld s))) < fuel"
  shows "\<exists>e s'. drain_pass deliver cfg rnd fuel s = Some (e, s') \<and> e \<noteq> PassReadError
    \<and> healthy (ssQueue s') (ssWorld s') \<and> (e = PassIdle \<longrightarrow> decodable (abs_queue (ssQueue s') (ssWorld s')) = [])"
  using assms
proof (induction fuel arbitrary: s)
  case (Suc fuel)
  obtain b q1 w1 es rest where rb: "ReadBatch (BatchSize cfg) 0 (ssQueue s) (ssWorld s) = (Inr b, q1, w1)"
    and h1: "healthy q1 w1" and fb: "fresh_batch q1 w1 b es" and ds: "distinct (map fst es)" and ev: "Events b = decoded es"
    and d1: "decodable (abs_queue q1 w1) = es @ rest"
    and c1: "card (dom (live q1 w1)) \<le> card (dom (live (ssQueue s) (ssWorld s)))" and nil: "es = [] \<longrightarrow> rest = []"
    by (rule healthy_round [OF Suc.prems(1), of "BatchSize cfg" 0]) (rule that; assumption)
  obtain dr n' where dl: "deliver (Events b) (ssNet s) = (dr, n')" by force
  show ?case
  proof (cases "batch_len b = 0")
    case True
    then show ?thesis using rb h1 d1 ev nil by (simp add: batch_len_def decoded_def)
  next
    case ne: False
    consider (acc) "dr = Inr ()" | (perm) f where "dr = Inl (ErrPermanent f)"
      | (stop) f where "dr = Inl (ErrUnauthorized f) \<or> dr = Inl (ErrRetryable f)"
      by (cases dr; cases "projl dr") auto
    then show ?thesis
    proof cases
      case acc
      obtain q2 w2 where a: "Ack b q1 w1 = (Inr (), q2, w2)" "healthy q2 w2" "card (dom (live q2 w2)) < card (dom (live q1 w1))"
        by (rule accepted_batch [OF h1 fb ne d1]) (rule that; assumption)
      then show ?thesis
        using Suc.IH [of "\<lparr>ssQueue = q2, ssWorld = w2, ssNet = n', ssAttempt = 0\<rparr>"] c1 Suc.prems(2) rb ne dl acc by simp
    next
      case perm
      obtain q2 w2 where a: "DeadLetter b q1 w1 = (Inr (), q2, w2)" "healthy q2 w2" "card (dom (live q2 w2)) < card (dom (live q1 w1))"
        by (rule rejected_batch [OF h1 fb ne ds])
      then show ?thesis
        using Suc.IH [of "\<lparr>ssQueue = q2, ssWorld = w2, ssNet = n', ssAttempt = 0\<rparr>"] c1 Suc.prems(2) rb ne dl perm by simp
    qed (use rb ne dl h1 in \<open>auto simp: Let_def\<close>)
  qed
qed simp

theorem drain_pass_returns_witness:
  "\<exists>e s'. drain_pass demo_deliver demo_config (\<lambda>_. 0) 2 (demo_sink [503::int]) = Some (e, s') \<and> e \<noteq> PassReadError"
  using drain_pass_returns [of "demo_sink [503::int]" 2 demo_deliver demo_config "\<lambda>_. 0"] demo_sink_state [of "[503::int]"] by auto

text \<open>
  C10. A drain delivers in order and exactly once.  On a working disk and into a platform that accepts,
  one pass ends idle with no readable event left, and the batches it delivered, put one after the
  other, are exactly the readable pending events, oldest first: nothing twice, nothing skipped.
\<close>

theorem drain_delivers_in_order_once:
  assumes "healthy (ssQueue s) (ssWorld s)" and "card (dom (live (ssQueue s) (ssWorld s))) < fuel"
    and "\<forall>evs n. fst (deliver evs n) = Inr ()"
  shows "\<exists>s' h. drain_pass (recorded deliver) cfg rnd fuel s = Some (PassIdle, s') \<and> snd (ssNet s') = snd (ssNet s) @ h
    \<and> concat (map fst h) = decoded (decodable (abs_queue (ssQueue s) (ssWorld s)))
    \<and> decodable (abs_queue (ssQueue s') (ssWorld s')) = []"
  using assms(1,2)
proof (induction fuel arbitrary: s)
  case (Suc fuel)
  obtain b q1 w1 es rest where rb: "ReadBatch (BatchSize cfg) 0 (ssQueue s) (ssWorld s) = (Inr b, q1, w1)"
    and h1: "healthy q1 w1" and fb: "fresh_batch q1 w1 b es" and ev: "Events b = decoded es"
    and d0: "decodable (abs_queue (ssQueue s) (ssWorld s)) = es @ rest" and d1: "decodable (abs_queue q1 w1) = es @ rest"
    and c1: "card (dom (live q1 w1)) \<le> card (dom (live (ssQueue s) (ssWorld s)))" and nil: "es = [] \<longrightarrow> rest = []"
    by (rule healthy_round [OF Suc.prems(1), of "BatchSize cfg" 0]) (rule that; assumption)
  obtain n1 where n1: "deliver (Events b) (fst (ssNet s)) = (Inr (), n1)"
    using assms(3) by (metis prod.collapse)
  let ?n = "(n1, snd (ssNet s) @ [(Events b, Inr ())])"
  have dl: "recorded deliver (Events b) (ssNet s) = (Inr (), ?n)" by (simp add: recorded_def n1)
  show ?case
  proof (cases "batch_len b = 0")
    case True
    then have "es = []" "rest = []" using ev nil by (simp_all add: batch_len_def decoded_def)
    then show ?thesis using rb True d0 d1 by (simp add: decoded_def)
  next
    case ne: False
    obtain q2 w2 where a: "Ack b q1 w1 = (Inr (), q2, w2)" "healthy q2 w2" "card (dom (live q2 w2)) < card (dom (live q1 w1))"
      "decodable (abs_queue q2 w2) = rest" by (rule accepted_batch [OF h1 fb ne d1])
    let ?s2 = "\<lparr>ssQueue = q2, ssWorld = w2, ssNet = ?n, ssAttempt = 0\<rparr>"
    obtain s' h where ih: "drain_pass (recorded deliver) cfg rnd fuel ?s2 = Some (PassIdle, s')"
      "snd (ssNet s') = (snd (ssNet s) @ [(Events b, Inr ())]) @ h"
      "concat (map fst h) = decoded rest" "decodable (abs_queue (ssQueue s') (ssWorld s')) = []"
      using Suc.IH [of ?s2] a c1 Suc.prems(2) by auto
    have "drain_pass (recorded deliver) cfg rnd (Suc fuel) s = Some (PassIdle, s')" using rb ne dl a(1) ih(1) by simp
    moreover have "concat (map fst ((Events b, Inr ()) # h)) = decoded (es @ rest)" using ih(3) ev by (simp add: decoded_def)
    ultimately show ?thesis using ih(2,4) d0 by (intro exI [of _ s'] exI [of _ "(Events b, Inr ()) # h"]) simp
  qed
qed simp

theorem drain_delivers_in_order_once_witness:
  "\<exists>s' h. drain_pass (recorded (\<lambda>evs n. (Inr (), n))) demo_config (\<lambda>_. 0) 2 (demo_sink ((), [] :: history)) = Some (PassIdle, s')
    \<and> snd (ssNet s') = h \<and> concat (map fst h) = [demo_event]"
proof -
  have "decoded (decodable [(fileName demo_event, demo_bytes)]) = [demo_event]"
    by (simp add: decoded_def decodable_def demo_decode)
  then show ?thesis
    using drain_delivers_in_order_once [of "demo_sink ((), [] :: history)" 2 "\<lambda>evs n. (Inr (), n)" demo_config "\<lambda>_. 0"]
      demo_sink_state [of "((), [] :: history)"] by (auto simp: demo_sink_def)
qed

text \<open>
  A platform outage costs nothing.  While every delivery fails with a retryable error, the sink
  keeps waiting, tick after tick: each pass raises the attempt number that stretches the backoff by
  one, and the readable pending events stay the same, in the same order.
\<close>

theorem outage_keeps_the_queue:
  assumes "healthy (ssQueue s) (ssWorld s)" and "decodable (abs_queue (ssQueue s) (ssWorld s)) \<noteq> []"
    and "\<forall>evs n. evs \<noteq> [] \<longrightarrow> (\<exists>f. fst (deliver evs n) = Inl (ErrRetryable f))"
  shows "\<exists>s'. runSink deliver cfg rnd expired (Suc fuel) (replicate k Tick) s = Some (SinkWaiting, s')
    \<and> ssAttempt s' = ssAttempt s + int k \<and> healthy (ssQueue s') (ssWorld s')
    \<and> decodable (abs_queue (ssQueue s') (ssWorld s')) = decodable (abs_queue (ssQueue s) (ssWorld s))"
  using assms(1,2)
proof (induction k arbitrary: s)
  case (Suc k)
  obtain b q1 w1 es rest where rb: "ReadBatch (BatchSize cfg) 0 (ssQueue s) (ssWorld s) = (Inr b, q1, w1)"
    and h1: "healthy q1 w1" and ev: "Events b = decoded es"
    and d0: "decodable (abs_queue (ssQueue s) (ssWorld s)) = es @ rest" and d1: "decodable (abs_queue q1 w1) = es @ rest"
    and nil: "es = [] \<longrightarrow> rest = []"
    by (rule healthy_round [OF Suc.prems(1), of "BatchSize cfg" 0]) (rule that; assumption)
  have ne: "Events b \<noteq> []" using Suc.prems(2) d0 nil ev by (auto simp: decoded_def)
  obtain f n1 where n1: "deliver (Events b) (ssNet s) = (Inl (ErrRetryable f), n1)"
    using assms(3) ne by (metis prod.collapse)
  let ?s1 = "\<lparr>ssQueue = q1, ssWorld = w1, ssNet = n1, ssAttempt = ssAttempt s + 1\<rparr>"
  have "runSink deliver cfg rnd expired (Suc fuel) (replicate (Suc k) Tick) s
    = runSink deliver cfg rnd expired (Suc fuel) (replicate k Tick) ?s1"
    using rb ne n1 by (simp add: batch_len_def Let_def)
  then show ?case using Suc.IH [of ?s1] h1 d0 d1 Suc.prems(2) by (auto simp: add_ac)
qed simp

theorem outage_keeps_the_queue_witness:
  "\<exists>s'. runSink (\<lambda>_ n. (Inl (ErrRetryable NoResponse), n)) demo_config (\<lambda>_. 0) (\<lambda>_. False) 1 (replicate 3 Tick) (demo_sink ())
      = Some (SinkWaiting, s') \<and> ssAttempt s' = 3
    \<and> decodable (abs_queue (ssQueue s') (ssWorld s')) = [(fileName demo_event, demo_bytes)]"
proof -
  have d: "decodable [(fileName demo_event, demo_bytes)] = [(fileName demo_event, demo_bytes)]"
    by (simp add: decodable_def demo_decode)
  then have ne: "decodable (abs_queue (ssQueue (demo_sink ())) (ssWorld (demo_sink ()))) \<noteq> []"
    unfolding demo_sink_state(3) by simp
  have "ssAttempt (demo_sink ()) = 0" by (simp add: demo_sink_def)
  then show ?thesis
    using outage_keeps_the_queue [OF demo_sink_state(1) ne, of "\<lambda>_ n. (Inl (ErrRetryable NoResponse), n)" demo_config
      "\<lambda>_. 0" "\<lambda>_. False" 0 3] d unfolding demo_sink_state(3) by auto
qed

lemma halting_pass:
  assumes "healthy (ssQueue s) (ssWorld s)" and "decodable (abs_queue (ssQueue s) (ssWorld s)) \<noteq> []"
    and "\<And>evs. evs \<noteq> [] \<Longrightarrow> set evs \<subseteq> set (decoded (decodable (abs_queue (ssQueue s) (ssWorld s)))) \<Longrightarrow>
      \<exists>f. fst (deliver evs (fst (ssNet s))) = Inl (ErrUnauthorized f)"
  shows "\<exists>s' evs r. runSink (recorded deliver) cfg rnd expired (Suc fuel) (Tick # ws) s = Some (SinkHalted, s')
    \<and> snd (ssNet s') = snd (ssNet s) @ [(evs, r)] \<and> ssAttempt s' = ssAttempt s
    \<and> decodable (abs_queue (ssQueue s') (ssWorld s')) = decodable (abs_queue (ssQueue s) (ssWorld s))"
proof -
  obtain b q1 w1 es rest where rb: "ReadBatch (BatchSize cfg) 0 (ssQueue s) (ssWorld s) = (Inr b, q1, w1)"
    and ev: "Events b = decoded es"
    and d0: "decodable (abs_queue (ssQueue s) (ssWorld s)) = es @ rest" and d1: "decodable (abs_queue q1 w1) = es @ rest"
    and nil: "es = [] \<longrightarrow> rest = []"
    by (rule healthy_round [OF assms(1), of "BatchSize cfg" 0]) (rule that; assumption)
  have ne: "Events b \<noteq> []" using assms(2) d0 nil ev by (auto simp: decoded_def)
  have "set (Events b) \<subseteq> set (decoded (decodable (abs_queue (ssQueue s) (ssWorld s))))"
    unfolding d0 ev by (auto simp: decoded_def)
  then obtain f n1 where n1: "deliver (Events b) (fst (ssNet s)) = (Inl (ErrUnauthorized f), n1)"
    using assms(3) [OF ne] by (metis prod.collapse)
  then have "recorded deliver (Events b) (ssNet s)
    = (Inl (ErrUnauthorized f), n1, snd (ssNet s) @ [(Events b, Inl (ErrUnauthorized f))])" by (simp add: recorded_def)
  then show ?thesis using rb ne d0 d1 by (simp add: batch_len_def)
qed

text \<open>
  A rejected identity stops the sink.  When the platform answers 401 or 403, the next tick ends
  \<open>runSink\<close> in the halted state after one delivery, whatever wake-ups would have come later; nothing
  is removed from the queue, so the events wait for the operator to re-enrol the host.
\<close>

theorem rejected_identity_halts:
  assumes "healthy (ssQueue s) (ssWorld s)" and "decodable (abs_queue (ssQueue s) (ssWorld s)) \<noteq> []"
    and "\<forall>evs n. evs \<noteq> [] \<longrightarrow> (\<exists>f. fst (deliver evs n) = Inl (ErrUnauthorized f))"
  shows "\<exists>s' evs r. runSink (recorded deliver) cfg rnd expired (Suc fuel) (Tick # ws) s = Some (SinkHalted, s')
    \<and> snd (ssNet s') = snd (ssNet s) @ [(evs, r)] \<and> ssAttempt s' = ssAttempt s
    \<and> decodable (abs_queue (ssQueue s') (ssWorld s')) = decodable (abs_queue (ssQueue s) (ssWorld s))"
  using assms(3) by (intro halting_pass [OF assms(1,2)]) blast

theorem rejected_identity_halts_witness:
  "\<exists>s'. runSink (recorded (\<lambda>_ n. (Inl (ErrUnauthorized (IngestReturned 401)), n))) demo_config (\<lambda>_. 0) (\<lambda>_. False) 1
      [Tick, Tick, StopDrain] (demo_sink ((), [] :: history)) = Some (SinkHalted, s') \<and> length (snd (ssNet s')) = 1"
proof -
  have ne: "decodable (abs_queue (ssQueue (demo_sink ((), [] :: history))) (ssWorld (demo_sink ((), [] :: history)))) \<noteq> []"
    unfolding demo_sink_state(3) by (simp add: decodable_def demo_decode)
  have "snd (ssNet (demo_sink ((), [] :: history))) = []" by (simp add: demo_sink_def)
  then show ?thesis
    using rejected_identity_halts [OF demo_sink_state(1) ne, of "\<lambda>_ n. (Inl (ErrUnauthorized (IngestReturned 401)), n)"
      demo_config "\<lambda>_. 0" "\<lambda>_. False" 0 "[Tick, StopDrain]"] by auto
qed

subsection \<open>What an answer means for the events\<close>

text \<open>A pass in which every batch is acknowledged, or every batch is permanently rejected.\<close>

lemma settling_pass:
  assumes "healthy (ssQueue s) (ssWorld s)" and "card (dom (live (ssQueue s) (ssWorld s))) < fuel"
    and "E = decodable (abs_queue (ssQueue s) (ssWorld s))"
    and "\<And>evs n. evs \<noteq> [] \<Longrightarrow> set evs \<subseteq> set (decoded E) \<Longrightarrow> fst (deliver evs n) = (if keep then Inl (ErrPermanent f) else Inr ())"
  shows "\<exists>s' h. drain_pass (recorded deliver) cfg rnd fuel s = Some (PassIdle, s') \<and> snd (ssNet s') = snd (ssNet s) @ h
    \<and> concat (map fst h) = decoded E
    \<and> (\<forall>(n, d)\<in>set E. live (ssQueue s') (ssWorld s') n = None
         \<and> dead (ssQueue s') (ssWorld s') n = (if keep then Some d else dead (ssQueue s) (ssWorld s) n))
    \<and> (\<forall>n. live (ssQueue s) (ssWorld s) n = None \<longrightarrow>
         live (ssQueue s') (ssWorld s') n = None \<and> dead (ssQueue s') (ssWorld s') n = dead (ssQueue s) (ssWorld s) n)"
  using assms
proof (induction fuel arbitrary: s E)
  case (Suc fuel)
  let ?q = "ssQueue s" and ?w = "ssWorld s"
  have ok: "queue_ok ?q" using Suc.prems(1) by (simp add: healthy_def)
  obtain b q1 w1 es rest where rb: "ReadBatch (BatchSize cfg) 0 ?q ?w = (Inr b, q1, w1)"
    and h1: "healthy q1 w1" and fb: "fresh_batch q1 w1 b es" and ds: "distinct (map fst es)" and ev: "Events b = decoded es"
    and d0: "decodable (abs_queue ?q ?w) = es @ rest" and d1: "decodable (abs_queue q1 w1) = es @ rest"
    and c1: "card (dom (live q1 w1)) \<le> card (dom (live ?q ?w))" and nil: "es = [] \<longrightarrow> rest = []"
    by (rule healthy_round [OF Suc.prems(1), of "BatchSize cfg" 0]) (rule that; assumption)
  have E: "E = es @ rest" using Suc.prems(3) d0 by simp
  obtain D where D: "D \<subseteq> corrupt (live ?q ?w)" "settled D D ?q ?w q1 w1" using ReadBatch_spec [OF ok rb] by blast
  have l1: "live q1 w1 = live ?q ?w |` (- D)" "dead q1 w1 = dead ?q ?w ++ (live ?q ?w |` D)"
    using D(2) by (simp_all add: settled_def same_conf_def)
  have in_E: "live ?q ?w n = Some d \<and> n \<notin> D" if "(n, d) \<in> set E" for n d
  proof -
    have "live ?q ?w n = Some d" "unmarshal_event d \<noteq> None"
      using that Suc.prems(3) ok by (auto simp: decodable_def set_abs)
    then show ?thesis using D(1) by (auto simp: corrupt_def)
  qed
  have read: "live q1 w1 n = live ?q ?w n \<and> dead q1 w1 n = dead ?q ?w n" if "(n, d) \<in> set E \<or> live ?q ?w n = None" for n d
    using that in_E [of n d] by (auto simp: l1 restrict_map_def map_add_def)
  have dE: "distinct (map fst E)" unfolding Suc.prems(3) decodable_def by (rule distinct_map_filter) simp
  show ?case
  proof (cases "batch_len b = 0")
    case True
    then have "E = []" using ev nil E by (simp add: batch_len_def decoded_def)
    then show ?thesis
      using rb True read by (intro exI [of _ "s\<lparr>ssQueue := q1, ssWorld := w1, ssAttempt := 0\<rparr>"] exI [of _ "[]"]) (auto simp: decoded_def)
  next
    case ne: False
    let ?v = "if keep then Inl (ErrPermanent f) else Inr ()"
    have "Events b \<noteq> []" using ne by (auto simp: batch_len_def)
    moreover have "set (Events b) \<subseteq> set (decoded E)" unfolding E ev by (auto simp: decoded_def)
    ultimately have "fst (deliver (Events b) (fst (ssNet s))) = ?v" by (rule Suc.prems(4))
    then obtain n1 where "deliver (Events b) (fst (ssNet s)) = (?v, n1)" by (cases "deliver (Events b) (fst (ssNet s))") simp
    then have dl: "recorded deliver (Events b) (ssNet s) = (?v, n1, snd (ssNet s) @ [(Events b, ?v)])" by (simp add: recorded_def)
    obtain q2 w2 K where a: "(if keep then DeadLetter b q1 w1 else Ack b q1 w1) = (Inr (), q2, w2)" "healthy q2 w2"
      "settled K (fst ` set es) q1 w1 q2 w2" "K = (if keep then fst ` set es else {})"
      "card (dom (live q2 w2)) < card (dom (live q1 w1))" "decodable (abs_queue q2 w2) = rest"
      by (rule settled_batch [OF h1 fb ds ne d1, of keep]) (rule that; assumption)
    let ?s2 = "\<lparr>ssQueue = q2, ssWorld = w2, ssNet = (n1, snd (ssNet s) @ [(Events b, ?v)]), ssAttempt = 0\<rparr>"
    have l2: "live q2 w2 = live q1 w1 |` (- (fst ` set es))" "dead q2 w2 = dead q1 w1 ++ (live q1 w1 |` K)"
      using a(3) by (simp_all add: settled_def same_conf_def)
    have "set (decoded rest) \<subseteq> set (decoded E)" unfolding E by (auto simp: decoded_def)
    then have v2: "fst (deliver evs n) = ?v" if "evs \<noteq> []" "set evs \<subseteq> set (decoded rest)" for evs n
      using that by (intro Suc.prems(4)) auto
    have s2: "healthy (ssQueue ?s2) (ssWorld ?s2)" "card (dom (live (ssQueue ?s2) (ssWorld ?s2))) < fuel"
      "rest = decodable (abs_queue (ssQueue ?s2) (ssWorld ?s2))"
      using a(2,5,6) c1 Suc.prems(2) by simp_all
    from Suc.IH [OF s2 v2] obtain s' h where ih: "drain_pass (recorded deliver) cfg rnd fuel ?s2 = Some (PassIdle, s')"
      "snd (ssNet s') = (snd (ssNet s) @ [(Events b, ?v)]) @ h" "concat (map fst h) = decoded rest"
      "\<forall>(n, d)\<in>set rest. live (ssQueue s') (ssWorld s') n = None \<and> dead (ssQueue s') (ssWorld s') n = (if keep then Some d else dead q2 w2 n)"
      "\<forall>n. live q2 w2 n = None \<longrightarrow> live (ssQueue s') (ssWorld s') n = None \<and> dead (ssQueue s') (ssWorld s') n = dead q2 w2 n"
      by (simp only: sink_state.simps snd_conv) blast
    have pass: "drain_pass (recorded deliver) cfg rnd (Suc fuel) s = Some (PassIdle, s')"
      using rb ne dl a(1) ih(1) by (cases keep) simp_all
    have es_fate: "live q2 w2 n = None \<and> dead q2 w2 n = (if keep then Some d else dead ?q ?w n)" if "(n, d) \<in> set es" for n d
    proof -
      have "n \<in> fst ` set es" using that by force
      moreover have "live q1 w1 n = Some d" "dead q1 w1 n = dead ?q ?w n"
        using in_E [of n d] read [of n d] that E by simp_all
      ultimately show ?thesis by (simp add: l2 a(4) restrict_map_def map_add_def)
    qed
    have rest_fate: "dead q2 w2 n = dead ?q ?w n" if "(n, d) \<in> set rest" for n d
    proof -
      have "n \<notin> fst ` set es" using dE that unfolding E by force
      then show ?thesis using read [of n d] that E by (simp add: l2 a(4) restrict_map_def map_add_def)
    qed
    have none_fate: "live q2 w2 n = None \<and> dead q2 w2 n = dead ?q ?w n" if "live ?q ?w n = None" for n
      using read [of n] that by (auto simp: l2 restrict_map_def map_add_def)
    have "concat (map fst ((Events b, ?v) # h)) = decoded E" using ih(3) ev unfolding E by (simp add: decoded_def)
    moreover have "\<forall>(n, d)\<in>set E. live (ssQueue s') (ssWorld s') n = None
         \<and> dead (ssQueue s') (ssWorld s') n = (if keep then Some d else dead ?q ?w n)"
    proof clarify
      fix n d
      assume "(n, d) \<in> set E"
      then consider "(n, d) \<in> set es" | "(n, d) \<in> set rest" unfolding E by auto
      then show "live (ssQueue s') (ssWorld s') n = None
          \<and> dead (ssQueue s') (ssWorld s') n = (if keep then Some d else dead ?q ?w n)"
      proof cases
        case 1
        then show ?thesis using es_fate [OF 1] ih(5) by simp
      next
        case 2
        then show ?thesis using bspec [OF ih(4) 2] rest_fate [OF 2] by simp
      qed
    qed
    ultimately show ?thesis
    proof (rule_tac exI [of _ s'], rule_tac exI [of _ "(Events b, ?v) # h"], intro conjI pass)
      show "snd (ssNet s') = snd (ssNet s) @ (Events b, ?v) # h" using ih(2) by simp
      show "\<forall>n. live ?q ?w n = None \<longrightarrow> live (ssQueue s') (ssWorld s') n = None \<and> dead (ssQueue s') (ssWorld s') n = dead ?q ?w n"
        using ih(5) none_fate by simp
    qed
  qed
qed simp

text \<open>A pass whose first delivery says to stop or to wait.\<close>

lemma stopping_pass:
  assumes "healthy (ssQueue s) (ssWorld s)" and "E = decodable (abs_queue (ssQueue s) (ssWorld s))" and "E \<noteq> []"
    and "\<And>evs n. evs \<noteq> [] \<Longrightarrow> set evs \<subseteq> set (decoded E) \<Longrightarrow> fst (deliver evs n) = (if halt then Inl (ErrUnauthorized f) else Inl (ErrRetryable f))"
  shows "\<exists>s' evs r. drain_pass (recorded deliver) cfg rnd (Suc fuel) s
      = Some (if halt then PassHalted else PassBackoff (Backoff rnd (ssAttempt s + 1) (BackoffBase cfg) (BackoffCap cfg)), s')
    \<and> snd (ssNet s') = snd (ssNet s) @ [(evs, r)] \<and> ssAttempt s' = ssAttempt s + (if halt then 0 else 1)
    \<and> decodable (abs_queue (ssQueue s') (ssWorld s')) = E"
proof -
  obtain b q1 w1 es rest where rb: "ReadBatch (BatchSize cfg) 0 (ssQueue s) (ssWorld s) = (Inr b, q1, w1)"
    and ev: "Events b = decoded es"
    and d0: "decodable (abs_queue (ssQueue s) (ssWorld s)) = es @ rest" and d1: "decodable (abs_queue q1 w1) = es @ rest"
    and nil: "es = [] \<longrightarrow> rest = []"
    by (rule healthy_round [OF assms(1), of "BatchSize cfg" 0]) (rule that; assumption)
  have E: "E = es @ rest" using assms(2) d0 by simp
  have ne: "Events b \<noteq> []" using assms(3) E nil ev by (auto simp: decoded_def)
  moreover have "set (Events b) \<subseteq> set (decoded E)" unfolding E ev by (auto simp: decoded_def)
  ultimately have "fst (deliver (Events b) (fst (ssNet s))) = (if halt then Inl (ErrUnauthorized f) else Inl (ErrRetryable f))"
    by (rule assms(4))
  then obtain n1 where "deliver (Events b) (fst (ssNet s)) = (if halt then Inl (ErrUnauthorized f) else Inl (ErrRetryable f), n1)"
    by (cases "deliver (Events b) (fst (ssNet s))") simp
  then show ?thesis using rb ne d1 E by (cases halt) (simp_all add: recorded_def batch_len_def Let_def)
qed

text \<open>
  C16. The answer of the platform decides what becomes of the events.  Take a sink on a working disk with events in its
  queue as \<open>Write\<close> stored them, and a platform that gives the same answer to every request.  In one pass: a 2xx
  status, and every readable event was sent, oldest first, and is gone from the queue; 401 or 403, and the sink halts
  after one request with the queue unchanged; no answer, 408, 429, or 500 and above, and it waits for the backoff
  of the next attempt after one request with the queue unchanged; any other status, and every readable event
  was sent, oldest first, and now lies in the dead-letter directory with its contents.
\<close>

theorem answer_decides_the_fate:
  assumes "healthy (ssQueue s) (ssWorld s)" and "genuine (ssQueue s) (ssWorld s)"
    and "card (dom (live (ssQueue s) (ssWorld s))) < fuel"
    and "E = decodable (abs_queue (ssQueue s) (ssWorld s))" and "E \<noteq> []"
    and "netUrlOk net endpoint" and "\<forall>n. format_time (fst (netNow net n)) \<noteq> None" and "\<forall>rq n. fst (netDo net rq n) = ans"
  shows "\<exists>e s' h. drain_pass (recorded (Send net (New endpoint host))) cfg rnd fuel s = Some (e, s')
    \<and> snd (ssNet s') = snd (ssNet s) @ h
    \<and> (if ans \<in> Some ` {200..299} then e = PassIdle \<and> concat (map fst h) = decoded E
         \<and> (\<forall>(n, d)\<in>set E. live (ssQueue s') (ssWorld s') n = None
              \<and> dead (ssQueue s') (ssWorld s') n = dead (ssQueue s) (ssWorld s) n)
       else if ans \<in> {Some 401, Some 403} then e = PassHalted \<and> length h = 1 \<and> ssAttempt s' = ssAttempt s
         \<and> decodable (abs_queue (ssQueue s') (ssWorld s')) = E
       else if ans \<in> {None, Some 408, Some 429} \<union> Some ` {500..} then
         e = PassBackoff (Backoff rnd (ssAttempt s + 1) (BackoffBase cfg) (BackoffCap cfg)) \<and> length h = 1
         \<and> ssAttempt s' = ssAttempt s + 1 \<and> decodable (abs_queue (ssQueue s') (ssWorld s')) = E
       else e = PassIdle \<and> concat (map fst h) = decoded E
         \<and> (\<forall>(n, d)\<in>set E. live (ssQueue s') (ssWorld s') n = None \<and> dead (ssQueue s') (ssWorld s') n = Some d))"
proof -
  let ?deliver = "Send net (New endpoint host)"
  have ok: "queue_ok (ssQueue s)" using assms(1) by (simp add: healthy_def)
  have mar: "marshal_event e \<noteq> None" if mem: "e \<in> set (decoded E)" for e
  proof -
    obtain m d where md: "live (ssQueue s) (ssWorld s) m = Some d" "e = the (unmarshal_event d)"
      using mem assms(4) by (auto simp: decoded_def decodable_def set_abs [OF ok])
    obtain ev where ev: "marshal_event ev = Some d" "event_ok ev" using assms(2) md(1) by (auto simp: genuine_def)
    then have "e = ev" using unmarshal_marshal_event md(2) by fastforce
    then show ?thesis using ev by simp
  qed
  let ?v = "case ans of None \<Rightarrow> Inl (ErrRetryable NoResponse) | Some code \<Rightarrow> classify code"
  have v: "fst (?deliver evs n) = ?v" if "evs \<noteq> []" "set evs \<subseteq> set (decoded E)" for evs n
    by (rule Send_answered) (use that mar assms(6-8) in \<open>auto simp: New_def\<close>)
  obtain k where k: "fuel = Suc k" using assms(3) by (cases fuel) simp_all
  consider (acc) "ans \<in> Some ` {200..299}" "?v = Inr ()"
    | (halt) f where "ans \<in> {Some 401, Some 403}" "?v = Inl (ErrUnauthorized f)"
    | (retry) f where "ans \<in> {None, Some 408, Some 429} \<union> Some ` {500..}" "?v = Inl (ErrRetryable f)"
    | (perm) f where "ans \<notin> Some ` {200..299}" "ans \<notin> {Some 401, Some 403}" "ans \<notin> {None, Some 408, Some 429} \<union> Some ` {500..}"
        "?v = Inl (ErrPermanent f)"
  proof (cases ans)
    case None
    then show thesis using retry by simp
  next
    case (Some a)
    have i: "ans \<in> Some ` A \<longleftrightarrow> a \<in> A" for A using Some by auto
    consider "a \<in> {200..299}" | "a \<in> {401, 403}" | "a \<in> {408, 429} \<union> {500..}"
      | "a \<notin> {200..299} \<union> {401, 403} \<union> {408, 429} \<union> {500..}" by blast
    then show thesis
    proof cases
      case 1
      then show thesis using acc Some i by (simp add: classify_cases)
    next
      case 2
      then show thesis using halt [of "IngestReturned a"] Some by (auto simp: classify_cases)
    next
      case 3
      then have "classify a = Inl (ErrRetryable (IngestReturned a))" by (auto simp: classify_def)
      moreover have "ans \<in> {None, Some 408, Some 429} \<union> Some ` {500..}" using 3 Some by blast
      ultimately show thesis using retry Some by simp
    next
      case 4
      then show thesis using perm [of "IngestReturned a"] Some i by (simp add: classify_cases)
    qed
  qed
  then show ?thesis
  proof cases
    case acc
    have "fst (?deliver evs n) = (if False then Inl (ErrPermanent NoResponse) else Inr ())"
      if "evs \<noteq> []" "set evs \<subseteq> set (decoded E)" for evs n using v [OF that] acc(2) by simp
    from settling_pass [where keep = False and deliver = ?deliver and cfg = cfg and rnd = rnd, OF assms(1,3,4) this, unfolded if_False] obtain s' h where
      p: "drain_pass (recorded ?deliver) cfg rnd fuel s = Some (PassIdle, s')" "snd (ssNet s') = snd (ssNet s) @ h"
      "concat (map fst h) = decoded E"
      "\<forall>(n, d)\<in>set E. live (ssQueue s') (ssWorld s') n = None \<and> dead (ssQueue s') (ssWorld s') n = dead (ssQueue s) (ssWorld s) n"
      by blast
    show ?thesis unfolding if_P [OF acc(1)] by (rule exI [of _ PassIdle], rule exI [of _ s'], rule exI [of _ h], intro conjI refl p)
  next
    case halt
    have "fst (?deliver evs n) = (if True then Inl (ErrUnauthorized f) else Inl (ErrRetryable f))"
      if "evs \<noteq> []" "set evs \<subseteq> set (decoded E)" for evs n using v [OF that] halt(2) by simp
    from stopping_pass [where halt = True and deliver = ?deliver and cfg = cfg and rnd = rnd and fuel = k, OF assms(1,4,5) this, unfolded if_True]
    obtain s' evs r where p: "drain_pass (recorded ?deliver) cfg rnd fuel s = Some (PassHalted, s')"
      "snd (ssNet s') = snd (ssNet s) @ [(evs, r)]" "ssAttempt s' = ssAttempt s + 0" "decodable (abs_queue (ssQueue s') (ssWorld s')) = E"
      unfolding k by blast
    have no: "ans \<notin> Some ` {200..299}" using halt(1) by auto
    show ?thesis
      unfolding if_not_P [OF no] if_P [OF halt(1)]
      by (rule exI [of _ PassHalted], rule exI [of _ s'], rule exI [of _ "[(evs, r)]"], use p in simp)
  next
    case retry
    let ?e = "PassBackoff (Backoff rnd (ssAttempt s + 1) (BackoffBase cfg) (BackoffCap cfg))"
    have "fst (?deliver evs n) = (if False then Inl (ErrUnauthorized f) else Inl (ErrRetryable f))"
      if "evs \<noteq> []" "set evs \<subseteq> set (decoded E)" for evs n using v [OF that] retry(2) by simp
    from stopping_pass [where halt = False and deliver = ?deliver and cfg = cfg and rnd = rnd and fuel = k, OF assms(1,4,5) this, unfolded if_False]
    obtain s' evs r where p: "drain_pass (recorded ?deliver) cfg rnd fuel s = Some (?e, s')"
      "snd (ssNet s') = snd (ssNet s) @ [(evs, r)]" "ssAttempt s' = ssAttempt s + 1" "decodable (abs_queue (ssQueue s') (ssWorld s')) = E"
      unfolding k by blast
    have no: "ans \<notin> Some ` {200..299}" "ans \<notin> {Some 401, Some 403}" using retry(1) by auto
    show ?thesis
      unfolding if_not_P [OF no(1)] if_not_P [OF no(2)] if_P [OF retry(1)]
      by (rule exI [of _ ?e], rule exI [of _ s'], rule exI [of _ "[(evs, r)]"], use p in simp)
  next
    case perm
    have "fst (?deliver evs n) = (if True then Inl (ErrPermanent f) else Inr ())"
      if "evs \<noteq> []" "set evs \<subseteq> set (decoded E)" for evs n using v [OF that] perm(4) by simp
    from settling_pass [where keep = True and deliver = ?deliver and cfg = cfg and rnd = rnd, OF assms(1,3,4) this, unfolded if_True] obtain s' h where
      p: "drain_pass (recorded ?deliver) cfg rnd fuel s = Some (PassIdle, s')" "snd (ssNet s') = snd (ssNet s) @ h"
      "concat (map fst h) = decoded E"
      "\<forall>(n, d)\<in>set E. live (ssQueue s') (ssWorld s') n = None \<and> dead (ssQueue s') (ssWorld s') n = Some d"
      by blast
    show ?thesis unfolding if_not_P [OF perm(1)] if_not_P [OF perm(2)] if_not_P [OF perm(3)]
      by (rule exI [of _ PassIdle], rule exI [of _ s'], rule exI [of _ h], intro conjI refl p)
  qed
qed

text \<open>A platform that answers every request with the same status, met with one event in the queue.\<close>

definition fixed_net :: "int \<Rightarrow> (unit, bytes) net" where
  "fixed_net code = \<lparr>netNow = \<lambda>n. (0, n), netUrlOk = \<lambda>u. u \<noteq> [], netDo = \<lambda>_ n. (Some code, n), gzWrite = Some, gzClose = Some\<rparr>"

theorem answer_decides_the_fate_witness:
  "(\<exists>s'. drain_pass (recorded (Send (fixed_net 404) (New ''https://p/ingest'' ''web-1''))) demo_config (\<lambda>_. 0) 2
        (demo_sink ((), [] :: history)) = Some (PassIdle, s')
      \<and> live (ssQueue s') (ssWorld s') (fileName demo_event) = None \<and> dead (ssQueue s') (ssWorld s') (fileName demo_event) = Some demo_bytes)
    \<and> (\<exists>s'. drain_pass (recorded (Send (fixed_net 403) (New ''https://p/ingest'' ''web-1''))) demo_config (\<lambda>_. 0) 2
        (demo_sink ((), [] :: history)) = Some (PassHalted, s')
      \<and> decodable (abs_queue (ssQueue s') (ssWorld s')) = [(fileName demo_event, demo_bytes)])"
proof -
  let ?s = "demo_sink ((), [] :: history)"
  have E: "[(fileName demo_event, demo_bytes)] = decodable (abs_queue (ssQueue ?s) (ssWorld ?s))"
    unfolding demo_sink_state(3) by (simp add: decodable_def demo_decode)
  have g: "genuine (ssQueue ?s) (ssWorld ?s)" using demo_genuine by (cases demo_written) (simp add: demo_sink_def)
  have "format_time 0 \<noteq> None" by code_simp
  then have net: "netUrlOk (fixed_net code) ''https://p/ingest''" "\<forall>n. format_time (fst (netNow (fixed_net code) n)) \<noteq> None"
    "\<forall>rq n. fst (netDo (fixed_net code) rq n) = Some code" for code by (simp_all add: fixed_net_def)
  have two: "card (dom (live (ssQueue ?s) (ssWorld ?s))) < 2" by (simp add: demo_sink_state)
  note t = answer_decides_the_fate [where host = "''web-1''" and cfg = demo_config and rnd = "\<lambda>_. 0",
      OF demo_sink_state(1) g two E not_Cons_self2 net]
  have no: "Some (404 :: int) \<notin> Some ` {200..299}" "Some (404 :: int) \<notin> {Some 401, Some 403}"
    "Some (404 :: int) \<notin> {None, Some 408, Some 429} \<union> Some ` {500..}" "Some (403 :: int) \<notin> Some ` {200..299}"
    "Some (403 :: int) \<in> {Some 401, Some 403}" by auto
  show ?thesis
    using t [of 404, unfolded if_not_P [OF no(1)] if_not_P [OF no(2)] if_not_P [OF no(3)]]
      t [of 403, unfolded if_not_P [OF no(4)] if_P [OF no(5)]] by (intro conjI) (elim exE conjE, force)+
qed

end
