(* ===== verification/Refinement.thy ===== *)
theory Refinement
  imports Go_Prelude
begin

text \<open>
  Runs of operations that reply, and the contract between a state and a simpler one that predicts its
  replies: the data refinement used for the durable queue, and the growth of a state over a run, used for
  the deny list of the platform.
\<close>

subsection \<open>Runs\<close>

fun run_ops :: "('op \<Rightarrow> 's \<Rightarrow> 'r \<times> 's) \<Rightarrow> 'op list \<Rightarrow> 's \<Rightarrow> 'r list \<times> 's" where
  "run_ops f [] s = ([], s)"
| "run_ops f (x # xs) s = (case f x s of (r, t) \<Rightarrow> (case run_ops f xs t of (rs, u) \<Rightarrow> (r # rs, u)))"

lemma run_ops_append:
  "run_ops f (xs @ ys) s = (case run_ops f xs s of (rs, t) \<Rightarrow> (case run_ops f ys t of (rs', u) \<Rightarrow> (rs @ rs', u)))"
  by (induction xs arbitrary: s) (simp_all add: case_prod_beta)

lemma length_run_ops [simp]: "length (fst (run_ops f xs s)) = length xs"
  by (induction xs arbitrary: s) (simp_all add: case_prod_beta)

text \<open>Every operation of the run is allowed where it is applied.\<close>

fun ops_ok :: "('op \<Rightarrow> 's \<Rightarrow> bool) \<Rightarrow> ('op \<Rightarrow> 's \<Rightarrow> 'r \<times> 's) \<Rightarrow> 'op list \<Rightarrow> 's \<Rightarrow> bool" where
  "ops_ok ok f [] s \<longleftrightarrow> True"
| "ops_ok ok f (x # xs) s \<longleftrightarrow> ok x s \<and> ops_ok ok f xs (snd (f x s))"

subsection \<open>Data refinement\<close>

locale data_refinement =
  fixes inv :: "'c \<Rightarrow> bool"
    and abst :: "'c \<Rightarrow> 'a"
    and conc_do :: "'op \<Rightarrow> 'c \<Rightarrow> 'r \<times> 'c"
    and spec_do :: "'op \<Rightarrow> 'a \<Rightarrow> 'r \<times> 'a"
    and allowed :: "'op \<Rightarrow> 'a \<Rightarrow> bool"
  assumes step_refines: "inv c \<Longrightarrow> allowed x (abst c) \<Longrightarrow> conc_do x c = (r, d) \<Longrightarrow> inv d \<and> spec_do x (abst c) = (r, abst d)"
begin

text \<open>What holds for one operation holds for a run: the same replies, and states that correspond.\<close>

lemma run_refines:
  assumes "inv c" and "ops_ok allowed spec_do xs (abst c)" and "run_ops conc_do xs c = (rs, d)"
  shows "inv d \<and> run_ops spec_do xs (abst c) = (rs, abst d)"
  using assms
proof (induction xs arbitrary: c rs)
  case (Cons x xs)
  obtain r c1 where c1: "conc_do x c = (r, c1)" by force
  obtain rs1 where rs: "rs = r # rs1" "run_ops conc_do xs c1 = (rs1, d)"
    using Cons.prems(3) c1 by (auto split: prod.splits)
  have st: "inv c1" "spec_do x (abst c) = (r, abst c1)" using step_refines [OF Cons.prems(1) _ c1] Cons.prems(2) by auto
  then have "ops_ok allowed spec_do xs (abst c1)" using Cons.prems(2) by simp
  then show ?case using Cons.IH [OF st(1) _ rs(2)] rs(1) st(2) by simp
qed simp

text \<open>Two states that look the same cannot be told apart by any allowed run.\<close>

lemma same_view_same_replies:
  assumes "inv c" and "inv d" and "abst c = abst d" and "ops_ok allowed spec_do xs (abst c)"
  shows "fst (run_ops conc_do xs c) = fst (run_ops conc_do xs d)"
  using run_refines [OF assms(1,4) prod.collapse [symmetric]] run_refines [OF assms(2) _ prod.collapse [symmetric], of xs] assms(3,4)
  by (metis fst_conv)

end

subsection \<open>A state that only grows\<close>

locale growing =
  fixes act :: "'op \<Rightarrow> 's \<Rightarrow> 'r \<times> 's"
    and le :: "'s \<Rightarrow> 's \<Rightarrow> bool"
  assumes le_refl: "le s s"
    and le_trans: "le s t \<Longrightarrow> le t u \<Longrightarrow> le s u"
    and act_le: "act x s = (r, t) \<Longrightarrow> le s t"
begin

lemma run_le: "run_ops act xs s = (rs, t) \<Longrightarrow> le s t"
proof (induction xs arbitrary: s rs)
  case (Cons x xs)
  obtain r s1 where s1: "act x s = (r, s1)" by force
  obtain rs1 where "run_ops act xs s1 = (rs1, t)" using Cons.prems s1 by (auto split: prod.splits)
  then show ?case using Cons.IH le_trans [OF act_le [OF s1]] by blast
qed (simp add: le_refl)

text \<open>A fact that growth preserves is final.\<close>

lemma final:
  assumes "\<And>s t. le s t \<Longrightarrow> P s \<Longrightarrow> P t" and "P s" and "run_ops act xs s = (rs, t)"
  shows "P t"
  using assms(1) [OF run_le [OF assms(3)] assms(2)] .

end

end
