(* ===== verification/Buffer_Simulation.thy ===== *)
theory Buffer_Simulation
  imports Sink_Drain Refinement
begin

text \<open>
  The durable queue on a working disk as a list: for any sequence of operations, restarts of the agent
  included, it replies what a list of named records replies.
\<close>

subsection \<open>The operations of a client\<close>

datatype queue_op =
    PutEvent event
  | TakeBatch int int
  | RejectBatch int int
  | CountPending
  | CountDropped
  | Reopen

datatype queue_reply = Done | Refused | Batch "event list" | Count int

definition settle_batch :: "(batch \<Rightarrow> queue \<Rightarrow> world \<Rightarrow> (buf_error + unit) \<times> queue \<times> world) \<Rightarrow> int \<Rightarrow> int
    \<Rightarrow> queue \<times> world \<Rightarrow> queue_reply \<times> queue \<times> world" where
  "settle_batch settle maxN maxB s =
     (case ReadBatch maxN maxB (fst s) (snd s) of
        (Inl _, s1) \<Rightarrow> (Refused, s1)
      | (Inr b, s1) \<Rightarrow>
          (case settle b (fst s1) (snd s1) of
             (Inl _, s2) \<Rightarrow> (Refused, s2)
           | (Inr _, s2) \<Rightarrow> (Batch (Events b), s2)))"

definition queue_do :: "queue_op \<Rightarrow> queue \<times> world \<Rightarrow> queue_reply \<times> queue \<times> world" where
  "queue_do x s =
     (case x of
        PutEvent ev \<Rightarrow> (case Write ev (fst s) (snd s) of (r, s1) \<Rightarrow> (if is_ok r then Done else Refused, s1))
      | TakeBatch maxN maxB \<Rightarrow> settle_batch Ack maxN maxB s
      | RejectBatch maxN maxB \<Rightarrow> settle_batch DeadLetter maxN maxB s
      | CountPending \<Rightarrow> (Count (queue_len (fst s)), s)
      | CountDropped \<Rightarrow> (Count (queue_dropped (fst s)), s)
      | Reopen \<Rightarrow> (case Open (qDir (fst s)) (qLimits (fst s)) (snd s) of
          (Inl _, w1) \<Rightarrow> (Refused, fst s, w1)
        | (Inr q1, w1) \<Rightarrow> (Done, q1, w1)))"

subsection \<open>The list\<close>

record aq_state =
  aqEvents :: aqueue
  aqDead :: "string \<Rightarrow> bytes option"
  aqDropped :: int

definition aq_take :: "int \<Rightarrow> int \<Rightarrow> aq_state \<Rightarrow> aqueue" where
  "aq_take maxN maxB a = select maxN maxB 0 0 (aqEvents a)"

definition aq_do :: "limits \<Rightarrow> queue_op \<Rightarrow> aq_state \<Rightarrow> queue_reply \<times> aq_state" where
  "aq_do lim x a =
     (case x of
        PutEvent ev \<Rightarrow>
          (case marshal_event ev of
             None \<Rightarrow> (Refused, a)
           | Some b \<Rightarrow>
               let es = aq_write lim (fileName ev) b (aqEvents a)
               in (Done, a\<lparr>aqEvents := es, aqDropped := aqDropped a + (int (length (aqEvents a)) + 1 - int (length es))\<rparr>))
      | TakeBatch maxN maxB \<Rightarrow>
          (Batch (decoded (aq_take maxN maxB a)), a\<lparr>aqEvents := aq_remove (fst ` set (aq_take maxN maxB a)) (aqEvents a)\<rparr>)
      | RejectBatch maxN maxB \<Rightarrow>
          (Batch (decoded (aq_take maxN maxB a)),
           a\<lparr>aqEvents := aq_remove (fst ` set (aq_take maxN maxB a)) (aqEvents a), aqDead := aqDead a ++ map_of (aq_take maxN maxB a)\<rparr>)
      | CountPending \<Rightarrow> (Count (int (length (aqEvents a))), a)
      | CountDropped \<Rightarrow> (Count (aqDropped a), a)
      | Reopen \<Rightarrow> (Done, a\<lparr>aqDropped := 0\<rparr>))"

text \<open>An event that is put has UTF-8 fields and an ID that is new, and is no path.\<close>

definition aq_ok :: "queue_op \<Rightarrow> aq_state \<Rightarrow> bool" where
  "aq_ok x a = (case x of PutEvent ev \<Rightarrow> event_ok ev \<and> slash \<notin> set (ID ev) \<and> fileName ev \<notin> fst ` set (aqEvents a) | _ \<Rightarrow> True)"

subsection \<open>The correspondence\<close>

definition queue_view :: "queue \<times> world \<Rightarrow> aq_state" where
  "queue_view s = \<lparr>aqEvents = abs_queue (fst s) (snd s), aqDead = dead (fst s) (snd s), aqDropped = qDropped (fst s)\<rparr>"

text \<open>A working queue: its disk does not fail, its directories are in place, its counters are exact and its files can be read.\<close>

definition dirs_fine :: "queue \<Rightarrow> world \<Rightarrow> bool" where
  "dirs_fine q w \<longleftrightarrow> (\<forall>p\<in>set (dir_chain (qDeadDir q)). is_dir_in (w_files w) p) \<and> dirs_there q w
     \<and> (\<forall>n. event_name n \<longrightarrow> clear_for q w n \<and> \<not> is_dir_in (w_files w) (join_path [qDeadDir q, n]))"

definition working :: "limits \<Rightarrow> queue \<times> world \<Rightarrow> bool" where
  "working lim s \<longleftrightarrow> queue_ok (fst s) \<and> qLimits (fst s) = lim \<and> quiet (snd s) \<and> dirs_fine (fst s) (snd s) \<and> exact (fst s) (snd s)
     \<and> corrupt (live (fst s) (snd s)) = {}"

lemma working_healthy: "working lim (q, w) \<Longrightarrow> healthy q w"
  by (simp add: working_def healthy_def dirs_fine_def)

lemma dirs_fine_kept: "dirs_fine q w \<Longrightarrow> dirs_kept w w' \<Longrightarrow> qDir q' = qDir q \<Longrightarrow> qDeadDir q' = qDeadDir q \<Longrightarrow> dirs_fine q' w'"
  by (simp add: dirs_fine_def dirs_kept_def dirs_there_def clear_for_def)

lemma working_settled:
  assumes "working lim (q, w)" and "settled D N q w q' w'"
  shows "working lim (q', w')"
proof -
  have w: "queue_ok q" "qLimits q = lim" "quiet w" "dirs_fine q w" "exact q w" "corrupt (live q w) = {}"
    using assms(1) by (simp_all add: working_def)
  have s: "dirs_kept w w'" "quiet w'" "same_conf q q'" "live q' w' = live q w |` (- N)"
    using assms(2) w(3) by (simp_all add: settled_def same_conf_def)
  have "corrupt (live q' w') = {}" using w(6) by (auto simp: s(4) corrupt_def restrict_map_def split: if_splits)
  then show ?thesis
    using settled_queue_ok [OF w(1) assms(2)] settled_exact [OF w(1,5) assms(2) w(3)] w(2) s(1-3) dirs_fine_kept [OF w(4)]
    by (simp add: working_def same_conf_def)
qed

subsection \<open>Each operation\<close>

lemma put_refines:
  assumes "working lim (q, w)" and "aq_ok (PutEvent ev) (queue_view (q, w))" and "queue_do (PutEvent ev) (q, w) = (r, t)"
  shows "working lim t \<and> aq_do lim (PutEvent ev) (queue_view (q, w)) = (r, queue_view t)"
proof -
  have w: "queue_ok q" "qLimits q = lim" "quiet w" "dirs_fine q w" "exact q w" "corrupt (live q w) = {}"
    using assms(1) by (simp_all add: working_def)
  have ev: "event_ok ev" "slash \<notin> set (ID ev)" and fresh: "live q w (fileName ev) = None"
    using assms(2) w(1) by (auto simp: aq_ok_def queue_view_def set_abs image_iff)
  show ?thesis
  proof (cases "marshal_event ev")
    case None
    then show ?thesis using assms(1,3) by (auto simp: queue_do_def Write_def aq_do_def)
  next
    case (Some b)
    have cl: "dirs_there q w" "clear_for q w (fileName ev)"
      using w(4) event_name_fileName [OF ev(2)] by (simp_all add: dirs_fine_def)
    obtain q1 w1 where wr: "Write ev q w = (Inr (), q1, w1)"
      "abs_queue q1 w1 = aq_write (qLimits q) (fileName ev) b (abs_queue q w)"
      "qDropped q1 = qDropped q + (int (length (abs_queue q w)) + 1 - int (length (abs_queue q1 w1)))"
      using Write_refines [OF w(1,5,3) cl ev(2) Some fresh] by blast
    have t: "r = Done" "t = (q1, w1)" using assms(3) wr(1) by (simp_all add: queue_do_def)
    from w(1) ev(2) wr(1) have k: "queue_ok q1 \<and> qLimits q1 = lim \<and> dirs_fine q1 w1 \<and> dead q1 w1 = dead q w \<and> corrupt (live q1 w1) = {}"
    proof (cases rule: Write_cases)
      case (stored b' k q2 w2)
      have s: "same_conf q q2" "dirs_kept w w2" "dead q2 w2 = dead q w" "live q2 w2 = live q w |` (- set (take k (names q w)))"
        using stored(4) by (simp_all add: settled_def same_conf_def)
      have q1: "qDir q1 = qDir q" "qDeadDir q1 = qDeadDir q" "qLimits q1 = qLimits q" using s(1) stored(9) by (simp_all add: same_conf_def)
      have "unmarshal_event b' = Some ev" using unmarshal_marshal_event [OF ev(1)] stored(2) by blast
      then have "corrupt (live q1 w1) = {}"
        using w(6) by (auto simp: stored(7) s(4) corrupt_def restrict_map_def split: if_splits)
      then show ?thesis
        using dirs_fine_kept [OF w(4) dirs_kept_trans [OF s(2) stored(11)] q1(1,2)] w(1,2) q1 s(3) stored(8)
        by (simp add: queue_ok_def)
    qed simp
    have "exact q1 w1 \<and> quiet w1" using Write_exact [OF w(1,5,3) ev(2) wr(1) fresh] by blast
    then show ?thesis
      using k t wr(2,3) Some w(2) by (simp add: working_def aq_do_def queue_view_def Let_def)
  qed
qed

text \<open>A batch, and what the list says of it.\<close>

lemma read_refines:
  assumes "working lim (q, w)"
  obtains b q1 w1 es where "ReadBatch maxN maxB q w = (Inr b, q1, w1)" and "working lim (q1, w1)"
    and "queue_view (q1, w1) = queue_view (q, w)" and "es = aq_take maxN maxB (queue_view (q, w))"
    and "Events b = decoded es" and "bFiles b = paths_of q1 (map fst es)" and "file_names q1 w1 (map fst es)"
    and "fst ` set es \<subseteq> dom (live q1 w1)" and "map_of es = live q1 w1 |` (fst ` set es)" and "distinct (map fst es)"
proof -
  let ?es = "select maxN maxB 0 0 (abs_queue q w)"
  have h: "healthy q w" and ok: "queue_ok q" using assms working_healthy by (simp_all add: working_def)
  obtain b q1 w1 where rb: "ReadBatch maxN maxB q w = (Inr b, q1, w1)" and fb: "fresh_batch q1 w1 b ?es"
    using healthy_read [OF h] by metis
  obtain D where D: "D \<subseteq> corrupt (live q w)" "settled D D q w q1 w1" "qDropped q1 = qDropped q"
    using ReadBatch_spec [OF ok rb] by blast
  then have s: "settled {} {} q w q1 w1" using assms by (simp add: working_def)
  have ok1: "queue_ok q1" by (rule settled_queue_ok [OF ok s])
  have v: "queue_view (q1, w1) = queue_view (q, w)"
    using abs_settled [OF ok s] s D(3) by (simp add: queue_view_def aq_remove_def settled_def same_conf_def)
  have di: "distinct (map fst ?es)" by (rule distinct_batch [OF ok])
  have l: "live q1 w1 n = Some d" if "(n, d) \<in> set ?es" for n d using fb that by (auto simp: fresh_batch_def)
  have sub: "fst ` set ?es \<subseteq> dom (live q1 w1)" using l by auto
  have "map_of ?es n = (live q1 w1 |` (fst ` set ?es)) n" for n
  proof (cases "n \<in> fst ` set ?es")
    case True
    then obtain d where d: "(n, d) \<in> set ?es" by auto
    then show ?thesis using map_of_is_SomeI [OF di d] l [OF d] True by simp
  next
    case False
    then show ?thesis by (simp add: map_of_eq_None_iff)
  qed
  then have "map_of ?es = live q1 w1 |` (fst ` set ?es)" by (rule ext)
  moreover have "file_names q1 w1 (map fst ?es)" by (rule fresh_files [OF ok1 fb])
  ultimately show thesis
    using that [of b q1 w1 ?es] rb working_settled [OF assms s] v fb sub di by (simp add: aq_take_def queue_view_def fresh_batch_def)
qed

lemma take_refines:
  assumes "working lim (q, w)" and "queue_do (TakeBatch maxN maxB) (q, w) = (r, t)"
  shows "working lim t \<and> aq_do lim (TakeBatch maxN maxB) (queue_view (q, w)) = (r, queue_view t)"
proof -
  obtain b q1 w1 es where b: "ReadBatch maxN maxB q w = (Inr b, q1, w1)" "working lim (q1, w1)"
    "queue_view (q1, w1) = queue_view (q, w)" "es = aq_take maxN maxB (queue_view (q, w))"
    "Events b = decoded es" "bFiles b = paths_of q1 (map fst es)" "file_names q1 w1 (map fst es)"
    by (rule read_refines [OF assms(1), of maxN maxB]) blast
  have ok: "queue_ok q1" "quiet w1" using b(2) by (simp_all add: working_def)
  obtain q2 w2 where a: "Ack b q1 w1 = (Inr (), q2, w2)"
    using quiet_ack_files [OF ok(1) b(7) ok(2), of None] b(6) by (auto simp: Ack_def as_result_def)
  obtain N where N: "N \<subseteq> set (map fst es)" "settled {} N q1 w1 q2 w2" "qDropped q2 = qDropped q1" "set (map fst es) \<inter> dom (live q2 w2) = {}"
    using Ack_spec [OF ok(1) b(7,6) a] by blast
  have "queue_view (q2, w2) = (queue_view (q1, w1))\<lparr>aqEvents := aq_remove (fst ` set es) (abs_queue q1 w1)\<rparr>"
    using abs_removed [OF ok(1) N(2,1,4)] N(2,3) by (simp add: queue_view_def settled_def same_conf_def)
  moreover have "aqEvents (queue_view (q, w)) = abs_queue q1 w1" unfolding b(3) [symmetric] by (simp add: queue_view_def)
  moreover have "r = Batch (decoded es)" "t = (q2, w2)" using assms(2) b(1,5) a by (simp_all add: queue_do_def settle_batch_def)
  ultimately show ?thesis using working_settled [OF b(2) N(2)] b(3,4) by (simp add: aq_do_def)
qed

lemma reject_refines:
  assumes "working lim (q, w)" and "queue_do (RejectBatch maxN maxB) (q, w) = (r, t)"
  shows "working lim t \<and> aq_do lim (RejectBatch maxN maxB) (queue_view (q, w)) = (r, queue_view t)"
proof -
  obtain b q1 w1 es where b: "ReadBatch maxN maxB q w = (Inr b, q1, w1)" "working lim (q1, w1)"
    "queue_view (q1, w1) = queue_view (q, w)" "es = aq_take maxN maxB (queue_view (q, w))"
    "Events b = decoded es" "bFiles b = paths_of q1 (map fst es)" "file_names q1 w1 (map fst es)"
    "fst ` set es \<subseteq> dom (live q1 w1)" "map_of es = live q1 w1 |` (fst ` set es)" "distinct (map fst es)"
    by (rule read_refines [OF assms(1), of maxN maxB]) blast
  have ok: "queue_ok q1" "dirs_there q1 w1" using b(2) by (simp_all add: working_def dirs_fine_def)
  have "set (map fst es) \<subseteq> dom (live q1 w1)" using b(8) by simp
  then obtain q2 w2 where a: "DeadLetter b q1 w1 = (Inr (), q2, w2)"
    using quiet_dead_files [OF working_healthy [OF b(2)] _ b(10), of None] b(6) by (auto simp: DeadLetter_def as_result_def)
  obtain N where N: "N \<subseteq> set (map fst es)" "settled N N q1 w1 q2 w2" "qDropped q2 = qDropped q1" "set (map fst es) \<inter> dom (live q2 w2) = {}"
    using DeadLetter_spec [OF ok(1) b(7,6) a] ok(2) by (auto simp: dirs_there_def)
  have cover: "A \<subseteq> M \<Longrightarrow> A \<inter> (M - N) = {} \<Longrightarrow> N \<subseteq> A \<Longrightarrow> N = A" for A M :: "string set" by blast
  have "N = fst ` set es"
    by (rule cover [OF b(8)]) (use N(1,4) settled_dom [OF N(2)] in \<open>simp_all only: set_map\<close>)
  then have "queue_view (q2, w2) = (queue_view (q1, w1))\<lparr>aqEvents := aq_remove (fst ` set es) (abs_queue q1 w1), aqDead := dead q1 w1 ++ map_of es\<rparr>"
    using abs_settled [OF ok(1) N(2)] N(2,3) b(9) by (simp add: queue_view_def settled_def same_conf_def)
  moreover have "aqEvents (queue_view (q, w)) = abs_queue q1 w1" "aqDead (queue_view (q, w)) = dead q1 w1"
    unfolding b(3) [symmetric] by (simp_all add: queue_view_def)
  moreover have "r = Batch (decoded es)" "t = (q2, w2)" using assms(2) b(1,5) a by (simp_all add: queue_do_def settle_batch_def)
  ultimately show ?thesis using working_settled [OF b(2) N(2)] b(3,4) by (simp add: aq_do_def)
qed

lemma Open_dirs_kept:
  assumes "is_clean d" and "Open d lim w = (Inr q, w')" and "\<forall>p\<in>set (dir_chain (join_path [d, deadDirName])). is_dir_in (w_files w) p"
  shows "dirs_kept w w'"
proof -
  let ?q = "\<lparr>qDir = d, qDeadDir = join_path [d, deadDirName], qLimits = lim, qCount = 0, qBytes = 0, qDropped = 0\<rparr>"
  obtain u w1 es w2 c b where mk: "os_mkdir_all (join_path [d, deadDirName]) dirPerm w = (Inr u, w1)"
    and rd: "os_read_dir d w1 = (Inr es, w2)" and sc: "init_scan ?q es 0 0 w2 = (Inr (c, b), w')"
    using assms(2) by (auto simp: Open_def initLocked_def Let_def split: prod.splits sum.splits)
  have "fold (add_dir a) ds t = t" if "\<forall>p\<in>set ds. is_dir_in t p" for a ds t
    using that by (induction ds) (simp_all add: add_dir_def)
  then have f1: "w_files w1 = w_files w"
    using sys_Inr [OF mk [unfolded os_mkdir_all_def Let_def]] assms(3) by simp
  have f2: "w_files w2 = w_files w" using rd f1 by (simp add: frame_simps)
  have okq: "queue_ok ?q" using assms(1) by (simp add: queue_ok_def)
  have cl: "clean d = d" using assms(1) by (simp add: is_clean_def)
  have es: "es = map (\<lambda>n. (n, is_dir_in (w_files w1) (join_path [d, n]))) (names_in (w_files w1) d)"
    using os_read_dir_ok [OF rd] cl by simp
  have "map fst es = names_in (w_files w1) d" unfolding es by (simp add: o_def)
  then have "listed ?q w2 es" "distinct (map fst es)" using os_read_dir_mem [OF rd] f1 f2 by (auto simp: listed_def)
  from init_scan_spec [OF okq this sc] have "dirs_kept w2 w'" by blast
  then show ?thesis using f2 by (simp add: dirs_kept_def)
qed

lemma reopen_refines:
  assumes "working lim (q, w)" and "queue_do Reopen (q, w) = (r, t)"
  shows "working lim t \<and> aq_do lim Reopen (queue_view (q, w)) = (r, queue_view t)"
proof -
  have w: "queue_ok q" "qLimits q = lim" "quiet w" "dirs_fine q w" "corrupt (live q w) = {}"
    using assms(1) by (simp_all add: working_def)
  have d: "is_clean (qDir q)" "qDeadDir q = join_path [qDir q, deadDirName]" using w(1) by (simp_all add: queue_ok_def)
  have ch: "\<forall>p\<in>set (dir_chain (join_path [qDir q, deadDirName])). is_dir_in (w_files w) p" using w(4) d(2) by (simp add: dirs_fine_def)
  obtain q1 w1 where op: "Open (qDir q) lim w = (Inr q1, w1)" using quiet_Open [OF d(1) w(3) ch] by blast
  note o = Open_spec [OF d(1) op]
  have q1: "qDir q1 = qDir q" "qDeadDir q1 = qDeadDir q" using o(1) d(2) by (auto simp: queue_ok_def)
  have l: "live q1 w1 = live q w" "dead q1 w1 = dead q w" using o(2,3) d(2) by simp_all
  have "working lim (q1, w1)"
    using o(1,4) o(6) [OF w(3)] dirs_fine_kept [OF w(4) Open_dirs_kept [OF d(1) op ch] q1] w(5) l by (simp add: working_def)
  moreover have "names q1 w1 = names q w" using l(1) by (simp add: pending_def)
  then have "queue_view (q1, w1) = (queue_view (q, w))\<lparr>aqDropped := 0\<rparr>"
    using l o(1) by (simp add: queue_view_def abs_queue_def)
  moreover have "r = Done" "t = (q1, w1)" using assms(2) op w(2) by (simp_all add: queue_do_def)
  ultimately show ?thesis by (simp add: aq_do_def)
qed

lemma queue_do_refines:
  assumes "working lim s" and "aq_ok x (queue_view s)" and "queue_do x s = (r, t)"
  shows "working lim t \<and> aq_do lim x (queue_view s) = (r, queue_view t)"
proof (cases x)
  case (PutEvent ev)
  then show ?thesis using put_refines [of lim "fst s" "snd s"] assms by simp
next
  case (TakeBatch maxN maxB)
  then show ?thesis using take_refines [of lim "fst s" "snd s"] assms by simp
next
  case (RejectBatch maxN maxB)
  then show ?thesis using reject_refines [of lim "fst s" "snd s"] assms by simp
next
  case CountPending
  have "queue_len (fst s) = int (length (abs_queue (fst s) (snd s)))"
    using assms(1) length_abs by (simp add: working_def exact_def queue_len_def)
  then show ?thesis using assms CountPending by (auto simp: queue_do_def aq_do_def queue_view_def)
next
  case CountDropped
  then show ?thesis using assms by (auto simp: queue_do_def aq_do_def queue_view_def queue_dropped_def)
next
  case Reopen
  then show ?thesis using reopen_refines [of lim "fst s" "snd s"] assms by simp
qed

interpretation spool: data_refinement "working lim" queue_view queue_do "aq_do lim" aq_ok
  for lim
  by unfold_locales (rule queue_do_refines)

subsection \<open>Any sequence of operations\<close>

text \<open>
  C9. On a working disk the durable queue is a list.  For any sequence of writes of events with new IDs, batches taken and
  acknowledged, batches taken and dead-lettered, counts and restarts, the queue gives exactly the replies of a list of
  named records that drops its oldest members when it is over its limits: the same outcomes, the same events in the same
  batches, the same counts; and afterwards pending and dead-lettered files are those of the list.
\<close>

theorem queue_is_a_bounded_list:
  assumes "working lim s" and "ops_ok aq_ok (aq_do lim) xs (queue_view s)" and "run_ops queue_do xs s = (rs, t)"
  shows "run_ops (aq_do lim) xs (queue_view s) = (rs, queue_view t) \<and> working lim t"
  using spool.run_refines [OF assms] by simp

lemma demo_working: "working demo_limits (demo_queue, demo_opened)"
proof -
  have top: "p \<in> {[slash], ''.'', ''/q'', ''/q/dead''}" if "is_dir_in (w_files demo_opened) p" for p
  proof (rule ccontr)
    assume n: "p \<notin> {[slash], ''.'', ''/q'', ''/q/dead''}"
    then have "p \<notin> set (map fst (w_files demo_opened))" unfolding demo_files by simp
    then have "lookup demo_opened p = None" by (simp add: map_of_eq_None_iff)
    then show False using that n by (simp add: is_dir_in_def)
  qed
  have chain: "list_all (is_dir_in (w_files demo_opened)) (dir_chain (qDeadDir demo_queue))" by code_simp
  have name: "\<not> is_dir_in (w_files demo_opened) (join_path [d, n] @ x)"
    if n: "event_name n" and d: "d = ''/q'' \<or> d = ''/q/dead''" and x: "x = [] \<or> x = tmpSuffix" for n d x
  proof -
    have cl: "is_clean d" using d by (elim disjE) (simp, code_simp)+
    have pre: "dir_prefix d = d @ [slash]" using d by (elim disjE) (simp, code_simp)+
    have len: "5 \<le> length n" and suf: "has_suffix n fileSuffix" using n by (auto simp: event_name_def has_suffix_def fileSuffix_def)
    have "join_path [d, n] = d @ [slash] @ n" using join_path_name [OF cl] n pre by (simp add: event_name_def)
    moreover have "n @ x \<noteq> ''dead''" using len by (auto dest: arg_cong [of _ _ length])
    ultimately have "join_path [d, n] @ x \<notin> {[slash], ''.'', ''/q'', ''/q/dead''}"
      using d len by (auto dest: arg_cong [of _ _ length])
    then show ?thesis using top by blast
  qed
  have "dirs_fine demo_queue demo_opened"
    using chain demo_state(3) name [of _ "''/q''" "[]"] name [of _ "''/q''" tmpSuffix] name [of _ "''/q/dead''" "[]"]
    by (simp add: dirs_fine_def clear_for_def list_all_iff demo_queue_def)
  then show ?thesis using demo_state demo_live by (simp add: working_def corrupt_def demo_queue_def)
qed

theorem queue_is_a_bounded_list_witness:
  "\<exists>t. run_ops queue_do [PutEvent demo_event, CountPending, Reopen, TakeBatch 10 0, CountPending] (demo_queue, demo_opened)
    = ([Done, Count 1, Done, Batch [demo_event], Count 0], t)"
proof -
  let ?xs = "[PutEvent demo_event, CountPending, Reopen, TakeBatch 10 0, CountPending]"
  obtain rs t where r: "run_ops queue_do ?xs (demo_queue, demo_opened) = (rs, t)" by (rule prod.exhaust)
  have v: "queue_view (demo_queue, demo_opened) = \<lparr>aqEvents = [], aqDead = dead demo_queue demo_opened, aqDropped = 0\<rparr>"
  proof -
    have "names demo_queue demo_opened = []" using demo_live by (simp add: pending_def)
    then show ?thesis by (simp add: queue_view_def abs_queue_def demo_queue_def)
  qed
  have w: "aq_write demo_limits n b [] = [(n, b)]" for n b by (simp add: aq_write_def)
  have sel: "select 10 0 0 0 [(fileName demo_event, demo_bytes)] = [(fileName demo_event, demo_bytes)]" by (simp add: demo_decode)
  have "ops_ok aq_ok (aq_do demo_limits) ?xs (queue_view (demo_queue, demo_opened))"
    using demo_event_ok demo_id_plain by (simp add: v aq_ok_def)
  from queue_is_a_bounded_list [OF demo_working this r] have "rs = fst (run_ops (aq_do demo_limits) ?xs (queue_view (demo_queue, demo_opened)))"
    by simp
  also have "\<dots> = [Done, Count 1, Done, Batch [demo_event], Count 0]"
    using demo_marshal by (simp add: v aq_do_def w aq_take_def sel decoded_def demo_decode aq_remove_def Let_def)
  finally show ?thesis using r by blast
qed

end
