(* ===== verification/Pki.thy ===== *)
theory Pki
  imports Transport
begin

text \<open>
  \<open>internal/pki\<close>: key pairs, signing requests, the certificate pool and the small CA.  The code is glue
  around \<open>crypto/ecdsa\<close>, \<open>crypto/x509\<close>, \<open>crypto/tls\<close> and \<open>encoding/pem\<close>; these primitives are the fields
  of a record, private and public keys, certificate pools and IP addresses are type variables, and
  \<open>crypto_ok\<close> collects the documented behaviour that some of the theorems assume.  The outside state
  \<open>'n\<close> holds the random source and the clock.
\<close>

subsection \<open>What the standard library provides\<close>

record pkix_name =
  CommonName :: string
  OtherNames :: "(string \<times> string) list"

datatype key_usage = KeyUsageCertSign | KeyUsageCRLSign | KeyUsageDigitalSignature

datatype ext_key_usage = ExtKeyUsageClientAuth | ExtKeyUsageServerAuth

text \<open>The fields of \<open>x509.Certificate\<close> the code sets, and a certificate with its public key.\<close>

record 'i template =
  SerialNumber :: nat
  Subject :: pkix_name
  NotBefore :: time
  NotAfter :: time
  KeyUsage :: "key_usage list"
  ExtKeyUsage :: "ext_key_usage list"
  BasicConstraintsValid :: bool
  IsCA :: bool
  IPAddresses :: "'i list"
  DNSNames :: "string list"

record ('i, 'p) certificate = "'i template" +
  PublicKey :: 'p

record 'p csr =
  csrSubject :: pkix_name
  csrPublicKey :: 'p
  csrSignatureOk :: bool

datatype 'k private_key = EcdsaKey 'k | OtherKey

record ('k, 'p, 'i, 'pool, 'n) crypto =
  cryNow :: "'n \<Rightarrow> time \<times> 'n"
  cryGenerate :: "'n \<Rightarrow> 'k option \<times> 'n"
  cryInt :: "nat \<Rightarrow> 'n \<Rightarrow> nat option \<times> 'n"
  cryPublic :: "'k \<Rightarrow> 'p"
  cryMarshalPKCS8 :: "'k \<Rightarrow> bytes option"
  cryParsePKCS8 :: "bytes \<Rightarrow> 'k private_key option"
  cryCreateCSR :: "pkix_name \<Rightarrow> 'k \<Rightarrow> 'n \<Rightarrow> bytes option \<times> 'n"
  cryParseCSR :: "bytes \<Rightarrow> 'p csr option"
  cryCreateCert :: "'i template \<Rightarrow> 'i template \<Rightarrow> 'p \<Rightarrow> 'k \<Rightarrow> 'n \<Rightarrow> bytes option \<times> 'n"
  cryParseCert :: "bytes \<Rightarrow> ('i, 'p) certificate option"
  cryKeyPair :: "bytes \<Rightarrow> bytes \<Rightarrow> bytes list option"
  cryPool :: "bytes \<Rightarrow> 'pool option"
  cryParseIP :: "string \<Rightarrow> 'i option"
  pemEncode :: "string \<Rightarrow> bytes \<Rightarrow> bytes"
  pemDecode :: "bytes \<Rightarrow> bytes option"

definition pemTypeKey :: string where "pemTypeKey = ''PRIVATE KEY''"
definition pemTypeCSR :: string where "pemTypeCSR = ''CERTIFICATE REQUEST''"
definition pemTypeCert :: string where "pemTypeCert = ''CERTIFICATE''"

text \<open>A certificate keeps its times to the second.\<close>

definition whole_seconds :: "time \<Rightarrow> time" where
  "whole_seconds t = t div ns_per_s * ns_per_s"

definition with_key :: "'i template \<Rightarrow> 'p \<Rightarrow> ('i, 'p) certificate" where
  "with_key t p = \<lparr>SerialNumber = SerialNumber t, Subject = Subject t, NotBefore = whole_seconds (NotBefore t),
     NotAfter = whole_seconds (NotAfter t), KeyUsage = KeyUsage t, ExtKeyUsage = ExtKeyUsage t, BasicConstraintsValid = BasicConstraintsValid t, IsCA = IsCA t,
     IPAddresses = IPAddresses t, DNSNames = DNSNames t, PublicKey = p\<rparr>"

text \<open>
  Documented behaviour: what is encoded decodes to the same value, a signature made by \<open>x509\<close>
  checks, \<open>rand.Int\<close> stays below its bound, and \<open>tls.X509KeyPair\<close> accepts a certificate with exactly
  the private keys that belong to it.
\<close>

definition crypto_ok :: "('k, 'p, 'i, 'pool, 'n) crypto \<Rightarrow> bool" where
  "crypto_ok cr \<longleftrightarrow>
     (\<forall>t b. pemDecode cr (pemEncode cr t b) = Some b)
     \<and> (\<forall>k d. cryMarshalPKCS8 cr k = Some d \<longrightarrow> cryParsePKCS8 cr d = Some (EcdsaKey k))
     \<and> (\<forall>s k n d n'. cryCreateCSR cr s k n = (Some d, n') \<longrightarrow> cryParseCSR cr d = Some \<lparr>csrSubject = s, csrPublicKey = cryPublic cr k, csrSignatureOk = True\<rparr>)
     \<and> (\<forall>t u p k n d n'. cryCreateCert cr t u p k n = (Some d, n') \<longrightarrow> cryParseCert cr d = Some (with_key t p))
     \<and> (\<forall>m n v n'. cryInt cr m n = (Some v, n') \<longrightarrow> v < m)
     \<and> (\<forall>c d k kd. cryParseCert cr d = Some c \<and> cryParsePKCS8 cr kd = Some (EcdsaKey k) \<longrightarrow>
          cryKeyPair cr (pemEncode cr pemTypeCert d) (pemEncode cr pemTypeKey kd)
            = (if PublicKey c = cryPublic cr k then Some [d] else None))"

subsection \<open>Keys and requests\<close>

datatype pki_error =
    GenerateKeyFailed | SerialFailed | MarshalKeyFailed | NoPemInKey | ParseKeyFailed | KeyNotEcdsa
  | CreateCSRFailed | LoadKeypairFailed | NoCACertificate | CreateCAFailed | ParseCAFailed
  | NoPemInCSR | ParseCSRFailed | CSRSignatureInvalid | SignCSRFailed | NoHosts | CreateServerFailed

definition GenerateKey :: "('k, 'p, 'i, 'pool, 'n) crypto \<Rightarrow> 'n \<Rightarrow> (pki_error + 'k) \<times> 'n" where
  "GenerateKey cr n =
     (case cryGenerate cr n of
        (None, n1) \<Rightarrow> (Inl GenerateKeyFailed, n1)
      | (Some k, n1) \<Rightarrow> (Inr k, n1))"

definition MarshalKeyPEM :: "('k, 'p, 'i, 'pool, 'n) crypto \<Rightarrow> 'k \<Rightarrow> pki_error + bytes" where
  "MarshalKeyPEM cr key =
     (case cryMarshalPKCS8 cr key of
        None \<Rightarrow> Inl MarshalKeyFailed
      | Some der \<Rightarrow> Inr (pemEncode cr pemTypeKey der))"

definition ParseKeyPEM :: "('k, 'p, 'i, 'pool, 'n) crypto \<Rightarrow> bytes \<Rightarrow> pki_error + 'k" where
  "ParseKeyPEM cr p =
     (case pemDecode cr p of
        None \<Rightarrow> Inl NoPemInKey
      | Some blk \<Rightarrow>
          (case cryParsePKCS8 cr blk of
             None \<Rightarrow> Inl ParseKeyFailed
           | Some OtherKey \<Rightarrow> Inl KeyNotEcdsa
           | Some (EcdsaKey k) \<Rightarrow> Inr k))"

definition MarshalCSRPEM :: "('k, 'p, 'i, 'pool, 'n) crypto \<Rightarrow> 'k \<Rightarrow> string \<Rightarrow> 'n \<Rightarrow> (pki_error + bytes) \<times> 'n" where
  "MarshalCSRPEM cr key commonName n =
     (case cryCreateCSR cr \<lparr>CommonName = commonName, OtherNames = []\<rparr> key n of
        (None, n1) \<Rightarrow> (Inl CreateCSRFailed, n1)
      | (Some der, n1) \<Rightarrow> (Inr (pemEncode cr pemTypeCSR der), n1))"

definition CAPool :: "('k, 'p, 'i, 'pool, 'n) crypto \<Rightarrow> bytes \<Rightarrow> pki_error + 'pool" where
  "CAPool cr caPEM = (case cryPool cr caPEM of None \<Rightarrow> Inl NoCACertificate | Some pool \<Rightarrow> Inr pool)"

text \<open>A TLS configuration: the trusted roots and the certificate chain presented, if any.\<close>

record 'pool tls_config =
  tlsRoots :: 'pool
  tlsChain :: "bytes list option"

definition ClientConfig :: "('k, 'p, 'i, 'pool, 'n) crypto \<Rightarrow> bytes \<Rightarrow> bytes \<Rightarrow> bytes \<Rightarrow> pki_error + 'pool tls_config" where
  "ClientConfig cr certPEM keyPEM caPEM =
     (case cryKeyPair cr certPEM keyPEM of
        None \<Rightarrow> Inl LoadKeypairFailed
      | Some chain \<Rightarrow>
          (case CAPool cr caPEM of
             Inl e \<Rightarrow> Inl e
           | Inr pool \<Rightarrow> Inr \<lparr>tlsRoots = pool, tlsChain = Some chain\<rparr>))"

subsection \<open>The certificate authority\<close>

record ('k, 'p, 'i) ca =
  caCert :: "('i, 'p) certificate"
  caKey :: 'k
  caCertPEM :: bytes

definition randomSerial :: "('k, 'p, 'i, 'pool, 'n) crypto \<Rightarrow> 'n \<Rightarrow> (pki_error + nat) \<times> 'n" where
  "randomSerial cr n =
     (case cryInt cr (2 ^ 128) n of
        (None, n1) \<Rightarrow> (Inl SerialFailed, n1)
      | (Some s, n1) \<Rightarrow> (Inr s, n1))"

text \<open>\<open>Time.AddDate\<close> by whole years, on a clock in UTC; the 29th of February becomes the 1st of March.\<close>

definition add_years :: "nat \<Rightarrow> time \<Rightarrow> time" where
  "add_years k t =
     (let day = nat ((t div ns_per_s) div 86400 + epoch_days);
          y = year_of_day day; lp = leap y; j = day - year_start y; m = month_of lp j;
          day' = year_start (y + k) + month_start (leap (y + k)) m + (j - month_start lp m)
      in t + (int day' - int day) * 86400 * ns_per_s)"

definition minute :: time where
  "minute = 60 * ns_per_s"

definition NewCA :: "('k, 'p, 'i, 'pool, 'n) crypto \<Rightarrow> string \<Rightarrow> 'n \<Rightarrow> (pki_error + ('k, 'p, 'i) ca) \<times> 'n" where
  "NewCA cr commonName n =
     (case GenerateKey cr n of
        (Inl e, n1) \<Rightarrow> (Inl e, n1)
      | (Inr key, n1) \<Rightarrow>
          (case randomSerial cr n1 of
             (Inl e, n2) \<Rightarrow> (Inl e, n2)
           | (Inr serial, n2) \<Rightarrow>
               let (t1, n3) = cryNow cr n2; (t2, n4) = cryNow cr n3;
                   tmpl = \<lparr>SerialNumber = serial, Subject = \<lparr>CommonName = commonName, OtherNames = []\<rparr>,
                     NotBefore = t1 - minute, NotAfter = add_years 10 t2,
                     KeyUsage = [KeyUsageCertSign, KeyUsageCRLSign], ExtKeyUsage = [],
                     BasicConstraintsValid = True, IsCA = True, IPAddresses = [], DNSNames = []\<rparr>
               in (case cryCreateCert cr tmpl tmpl (cryPublic cr key) key n4 of
                     (None, n5) \<Rightarrow> (Inl CreateCAFailed, n5)
                   | (Some der, n5) \<Rightarrow>
                       (case cryParseCert cr der of
                          None \<Rightarrow> (Inl ParseCAFailed, n5)
                        | Some cert \<Rightarrow> (Inr \<lparr>caCert = cert, caKey = key, caCertPEM = pemEncode cr pemTypeCert der\<rparr>, n5)))))"

definition client_template :: "nat \<Rightarrow> pkix_name \<Rightarrow> time \<Rightarrow> time \<Rightarrow> 'i template" where
  "client_template serial subject from_t to_t =
     \<lparr>SerialNumber = serial, Subject = subject, NotBefore = from_t, NotAfter = to_t,
      KeyUsage = [KeyUsageDigitalSignature], ExtKeyUsage = [ExtKeyUsageClientAuth],
      BasicConstraintsValid = False, IsCA = False, IPAddresses = [], DNSNames = []\<rparr>"

definition SignCSR ::
  "('k, 'p, 'i, 'pool, 'n) crypto \<Rightarrow> ('k, 'p, 'i) ca \<Rightarrow> bytes \<Rightarrow> duration \<Rightarrow> 'n \<Rightarrow> (pki_error + bytes) \<times> 'n"
where
  "SignCSR cr ca csrPEM ttl n =
     (case pemDecode cr csrPEM of
        None \<Rightarrow> (Inl NoPemInCSR, n)
      | Some blk \<Rightarrow>
          (case cryParseCSR cr blk of
             None \<Rightarrow> (Inl ParseCSRFailed, n)
           | Some csr \<Rightarrow>
               if \<not> csrSignatureOk csr then (Inl CSRSignatureInvalid, n)
               else (case randomSerial cr n of
                   (Inl e, n1) \<Rightarrow> (Inl e, n1)
                 | (Inr serial, n1) \<Rightarrow>
                     let (t1, n2) = cryNow cr n1; (t2, n3) = cryNow cr n2;
                         tmpl = client_template serial (csrSubject csr) (t1 - minute) (t2 + sint ttl)
                     in (case cryCreateCert cr tmpl (template.truncate (caCert ca)) (csrPublicKey csr) (caKey ca) n3 of
                           (None, n4) \<Rightarrow> (Inl SignCSRFailed, n4)
                         | (Some der, n4) \<Rightarrow> (Inr (pemEncode cr pemTypeCert der), n4)))))"

text \<open>The subject alternative names of a server certificate.\<close>

definition add_host :: "('k, 'p, 'i, 'pool, 'n) crypto \<Rightarrow> 'i template \<Rightarrow> string \<Rightarrow> 'i template" where
  "add_host cr t h =
     (case cryParseIP cr h of
        Some ip \<Rightarrow> t\<lparr>IPAddresses := IPAddresses t @ [ip]\<rparr>
      | None \<Rightarrow> t\<lparr>DNSNames := DNSNames t @ [h]\<rparr>)"

definition IssueServerCert ::
  "('k, 'p, 'i, 'pool, 'n) crypto \<Rightarrow> ('k, 'p, 'i) ca \<Rightarrow> string list \<Rightarrow> duration \<Rightarrow> 'n \<Rightarrow> (pki_error + bytes \<times> bytes) \<times> 'n"
where
  "IssueServerCert cr ca hosts ttl n =
     (if hosts = [] then (Inl NoHosts, n)
      else case GenerateKey cr n of
          (Inl e, n1) \<Rightarrow> (Inl e, n1)
        | (Inr key, n1) \<Rightarrow>
            (case randomSerial cr n1 of
               (Inl e, n2) \<Rightarrow> (Inl e, n2)
             | (Inr serial, n2) \<Rightarrow>
                 let (t1, n3) = cryNow cr n2; (t2, n4) = cryNow cr n3;
                     tmpl0 = \<lparr>SerialNumber = serial, Subject = \<lparr>CommonName = hd hosts, OtherNames = []\<rparr>,
                       NotBefore = t1 - minute, NotAfter = t2 + sint ttl,
                       KeyUsage = [KeyUsageDigitalSignature], ExtKeyUsage = [ExtKeyUsageServerAuth],
                       BasicConstraintsValid = False, IsCA = False, IPAddresses = [], DNSNames = []\<rparr>;
                     tmpl = foldl (add_host cr) tmpl0 hosts
                 in (case cryCreateCert cr tmpl (template.truncate (caCert ca)) (cryPublic cr key) (caKey ca) n4 of
                       (None, n5) \<Rightarrow> (Inl CreateServerFailed, n5)
                     | (Some der, n5) \<Rightarrow>
                         (case MarshalKeyPEM cr key of
                            Inl e \<Rightarrow> (Inl e, n5)
                          | Inr keyPEM \<Rightarrow> (Inr (pemEncode cr pemTypeCert der, keyPEM), n5)))))"

end
