(* ===== verification/Atomic_File.thy ===== *)
theory Atomic_File
  imports Go_World
begin

text \<open>
  The contract of a file that is replaced as a whole (written beside and renamed into place): a call
  that reports success has stored the value, a call that does not has left the old contents, also
  when the process dies in it.  Inside the locale this is lifted to any sequence of calls.
\<close>

locale atomic_store =
  fixes put :: "'v \<Rightarrow> 's \<Rightarrow> bool \<times> 's"
    and view :: "'s \<Rightarrow> 'c"
    and stored :: "'v \<Rightarrow> 'c"
  assumes put_done: "put v s = (True, t) \<Longrightarrow> view t = stored v"
    and put_failed: "put v s = (False, t) \<Longrightarrow> view t = view s"
begin

fun puts :: "'v list \<Rightarrow> 's \<Rightarrow> ('v \<times> bool) list \<times> 's" where
  "puts [] s = ([], s)"
| "puts (v # vs) s = (case put v s of (b, t) \<Rightarrow> (case puts vs t of (bs, u) \<Rightarrow> ((v, b) # bs, u)))"

text \<open>What is stored is the value of the last call that succeeded.\<close>

definition last_done :: "'c \<Rightarrow> ('v \<times> bool) list \<Rightarrow> 'c" where
  "last_done old log = (case filter snd (rev log) of [] \<Rightarrow> old | x # _ \<Rightarrow> stored (fst x))"

lemma last_done_Cons: "last_done old ((v, b) # log) = last_done (if b then stored v else old) log"
  by (auto simp: last_done_def split: list.splits)

lemma puts_view: "puts vs s = (log, t) \<Longrightarrow> view t = last_done (view s) log"
proof (induction vs arbitrary: s log t)
  case (Cons v vs)
  obtain b s1 where p: "put v s = (b, s1)" by force
  obtain log1 t1 where q: "puts vs s1 = (log1, t1)" by force
  have "view s1 = (if b then stored v else view s)"
    using put_done put_failed p by (cases b) auto
  with Cons.IH [OF q] Cons.prems p q show ?case by (auto simp: last_done_Cons)
qed (simp add: last_done_def)

lemma puts_old_or_new: "puts vs s = (log, t) \<Longrightarrow> view t = view s \<or> (\<exists>v\<in>set vs. view t = stored v)"
proof (induction vs arbitrary: s log t)
  case (Cons v vs)
  obtain b s1 where p: "put v s = (b, s1)" by force
  obtain log1 t1 where q: "puts vs s1 = (log1, t1)" by force
  have "view s1 = view s \<or> view s1 = stored v" using put_done put_failed p by (cases b) auto
  with Cons.IH [OF q] Cons.prems p q show ?case by auto
qed simp

end

text \<open>The contents of a regular file, and the two steps on it.\<close>

definition contents :: "string \<Rightarrow> world \<Rightarrow> bytes option" where
  "contents p w = (case lookup w p of Some (File _ b) \<Rightarrow> Some b | _ \<Rightarrow> None)"

lemma contents_same: "w_files w' = w_files w \<Longrightarrow> contents p w' = contents p w"
  by (simp add: contents_def)

lemma contents_update: "w_files w' = AList.update q (File a b) (w_files w) \<Longrightarrow>
    contents p w' = (if p = q then Some b else contents p w)"
  by (simp add: contents_def map_of_update)

lemma write_other_file:
  assumes "os_write_file q b m w = (r, w')" and "p \<noteq> q"
  shows "contents p w' = contents p w"
proof (cases r)
  case (Inl e)
  then consider "w_files w' = w_files w" | a n where "w_files w' = AList.update q (File a (take n b)) (w_files w)"
    using os_write_file_err [of q b m w e w'] assms(1) by auto
  then show ?thesis
  proof cases
    case 1
    then show ?thesis by (rule contents_same)
  next
    case 2
    then show ?thesis using contents_update assms(2) by simp
  qed
next
  case (Inr u)
  then obtain a where "w_files w' = AList.update q (File a b) (w_files w)"
    using os_write_file_ok [of q b m w u w'] assms(1) by auto
  then show ?thesis using contents_update assms(2) by simp
qed

lemma write_then_rename:
  assumes "os_write_file q b m w = (Inr u, w1)" and "os_rename q p w1 = (Inr v, w')"
  shows "contents p w' = Some b"
proof -
  obtain a where "lookup w1 q = Some (File a b)"
    using os_write_file_ok [OF assms(1)] by (auto simp: map_of_update)
  then show ?thesis using os_rename_ok [OF assms(2)] by (auto simp: contents_def map_of_update)
qed

lemma rename_failed_contents: "os_rename q p w = (Inl e, w') \<Longrightarrow> contents x w' = contents x w"
  by (rule contents_same) (rule os_rename_err)

lemma remove_other_file:
  assumes "os_remove q w = (r, w')" and "p \<noteq> q"
  shows "contents p w' = contents p w"
proof (cases r)
  case (Inl e)
  then have "w_files w' = w_files w" using assms(1) os_remove_err by blast
  then show ?thesis by (rule contents_same)
next
  case (Inr u)
  with os_remove_ok [of q w u w'] assms show ?thesis by (simp add: contents_def map_of_delete)
qed

end
