(* ===== verification/Enroll.thy ===== *)
theory Enroll
  imports Pki Config Atomic_File
begin

text \<open>
  \<open>internal/enroll\<close>: the client identity, enrolment with a token, renewal over the current identity, and
  the files they are kept in, together with \<open>renewalLoop\<close> of \<open>cmd/agent/main.go\<close>.  The file table, its
  failures and crashes are the \<open>world\<close>; the network, the clock and the random source are the outside
  state \<open>'n\<close>.
\<close>

subsection \<open>JSON structs of strings\<close>

text \<open>\<open>decode_fields\<close> decodes members into a struct whose fields are all strings.\<close>

definition field :: "(string \<times> string) list \<Rightarrow> string \<Rightarrow> string" where
  "field st f = (case map_of st f of None \<Rightarrow> [] | Some v \<Rightarrow> v)"

fun decode_fields :: "string list \<Rightarrow> (string \<times> string) list \<Rightarrow> (string \<times> json) list \<Rightarrow> (string \<times> string) list option" where
  "decode_fields names st [] = Some st"
| "decode_fields names st ((k, j) # ms) =
     (case find (key_is k) names of
        None \<Rightarrow> decode_fields names st ms
      | Some f \<Rightarrow>
          (case into_string (field st f) j of
             None \<Rightarrow> None
           | Some v \<Rightarrow> decode_fields names ((f, v) # st) ms))"

definition decode_struct :: "string list \<Rightarrow> json option \<Rightarrow> (string \<times> string) list option" where
  "decode_struct names j =
     (case j of
        Some (JObj ms) \<Rightarrow> decode_fields names [] ms
      | Some JNull \<Rightarrow> Some []
      | _ \<Rightarrow> None)"

subsection \<open>Files\<close>

definition keyFile :: string where "keyFile = ''client.key''"
definition certFile :: string where "certFile = ''client.crt''"
definition caFile :: string where "caFile = ''ca.crt''"

datatype enroll_error =
    ReadFailed errno | LoadKeypair | ParseCertificate | PkiError pki_error
  | StoredExpired | NoPlatformCA errno | NoToken | CertDirFailed errno
  | BuildPost | PostFailed | PostReturned int | DecodeResponse | NoCertificate
  | WriteFailed string errno | CommitFailed string errno
  | RenewPost enroll_error | RenewKeypair | RenewParse

definition fileExists :: "string \<Rightarrow> world \<Rightarrow> bool \<times> world" where
  "fileExists p w = (case os_stat p w of (r, w1) \<Rightarrow> (is_ok r, w1))"

definition readPEMs :: "string \<Rightarrow> string \<Rightarrow> string \<Rightarrow> world \<Rightarrow> (errno + bytes \<times> bytes \<times> bytes) \<times> world" where
  "readPEMs certPath keyPath caPath w =
     (case os_read_file certPath w of
        (Inl e, w1) \<Rightarrow> (Inl e, w1)
      | (Inr cert, w1) \<Rightarrow>
          (case os_read_file keyPath w1 of
             (Inl e, w2) \<Rightarrow> (Inl e, w2)
           | (Inr key, w2) \<Rightarrow>
               (case os_read_file caPath w2 of
                  (Inl e, w3) \<Rightarrow> (Inl e, w3)
                | (Inr ca, w3) \<Rightarrow> (Inr (cert, key, ca), w3))))"

definition writeFileAtomic :: "string \<Rightarrow> bytes \<Rightarrow> perm \<Rightarrow> world \<Rightarrow> (enroll_error + unit) \<times> world" where
  "writeFileAtomic path data m w =
     (let tmp = path @ ''.tmp'' in
      case os_write_file tmp data m w of
        (Inl e, w1) \<Rightarrow> (Inl (WriteFailed (base_name path) e), w1)
      | (Inr _, w1) \<Rightarrow>
          (case os_rename tmp path w1 of
             (Inl e, w2) \<Rightarrow> (Inl (CommitFailed (base_name path) e), snd (os_remove tmp w2))
           | (Inr _, w2) \<Rightarrow> (Inr (), w2)))"

subsection \<open>Identities\<close>

record ('k, 'p, 'i, 'pool) identity =
  idKey :: 'k
  idKeyPEM :: bytes
  idChain :: "bytes list"
  idLeaf :: "('i, 'p) certificate"
  idPool :: 'pool
  idCertPath :: string

definition newIdentity ::
  "('k, 'p, 'i, 'pool, 'n) crypto \<Rightarrow> bytes \<Rightarrow> bytes \<Rightarrow> bytes \<Rightarrow> string \<Rightarrow> enroll_error + ('k, 'p, 'i, 'pool) identity"
where
  "newIdentity cr certPEM keyPEM caPEM certPath =
     (case cryKeyPair cr certPEM keyPEM of
        None \<Rightarrow> Inl LoadKeypair
      | Some chain \<Rightarrow>
          (case cryParseCert cr (hd chain) of
             None \<Rightarrow> Inl ParseCertificate
           | Some leaf \<Rightarrow>
               (case ParseKeyPEM cr keyPEM of
                  Inl e \<Rightarrow> Inl (PkiError e)
                | Inr key \<Rightarrow>
                    (case CAPool cr caPEM of
                       Inl e \<Rightarrow> Inl (PkiError e)
                     | Inr pool \<Rightarrow>
                         Inr \<lparr>idKey = key, idKeyPEM = keyPEM, idChain = chain, idLeaf = leaf, idPool = pool, idCertPath = certPath\<rparr>))))"

text \<open>\<open>TLSConfig\<close> fetches the certificate at each handshake: it is the configuration of the identity as it is then.\<close>

definition TLSConfig :: "('k, 'p, 'i, 'pool) identity \<Rightarrow> 'pool tls_config" where
  "TLSConfig i = \<lparr>tlsRoots = idPool i, tlsChain = Some (idChain i)\<rparr>"

definition identity_NotAfter :: "('k, 'p, 'i, 'pool) identity \<Rightarrow> time" where
  "identity_NotAfter i = NotAfter (idLeaf i)"

text \<open>\<open>time.Until\<close> is a 64-bit duration that stops at its bounds.\<close>

definition clamp64 :: "int \<Rightarrow> int" where
  "clamp64 d = max (- (2 ^ 63)) (min (2 ^ 63 - 1) d)"

definition NeedsRenewal :: "time \<Rightarrow> ('k, 'p, 'i, 'pool) identity \<Rightarrow> duration \<Rightarrow> bool" where
  "NeedsRenewal now i before = (clamp64 (identity_NotAfter i - now) \<le> sint before)"

subsection \<open>Asking for a certificate\<close>

text \<open>
  The HTTPS client: \<open>webDo\<close> makes one request under a TLS configuration and returns the status and the
  body of the response (as much of it as could be read), or \<open>None\<close>.
\<close>

record ('pool, 'n) web =
  webUrlOk :: "string \<Rightarrow> bool"
  webDo :: "'pool tls_config \<Rightarrow> request \<Rightarrow> 'n \<Rightarrow> (int \<times> bytes) option \<times> 'n"
  webHostname :: "string option"

definition agentID :: "('pool, 'n) web \<Rightarrow> string" where
  "agentID web = (case webHostname web of None \<Rightarrow> ''unknown-host'' | Some h \<Rightarrow> if h \<noteq> [] then h else ''unknown-host'')"

definition csr_body :: "bytes \<Rightarrow> string \<Rightarrow> bytes" where
  "csr_body csrPEM agent = print_json (JObj [(''csr_pem'', JStr csrPEM), (''agent_id'', JStr agent)])"

definition csr_request :: "string \<Rightarrow> string \<Rightarrow> bytes \<Rightarrow> string \<Rightarrow> request" where
  "csr_request endpoint token csrPEM agent =
     \<lparr>rqMethod = ''POST'', rqURL = endpoint,
      rqHeader =
        (let h = map_put ''Content-Type'' ''application/json'' []
         in if token \<noteq> [] then map_put ''Authorization'' (''Bearer '' @ token) h else h),
      rqBody = csr_body csrPEM agent\<rparr>"

definition postCSR ::
  "('pool, 'n) web \<Rightarrow> 'pool tls_config \<Rightarrow> string \<Rightarrow> string \<Rightarrow> bytes \<Rightarrow> 'n \<Rightarrow> (enroll_error + bytes) \<times> 'n"
where
  "postCSR web conf endpoint token csrPEM n =
     (if \<not> webUrlOk web endpoint then (Inl BuildPost, n)
      else case webDo web conf (csr_request endpoint token csrPEM (agentID web)) n of
          (None, n1) \<Rightarrow> (Inl PostFailed, n1)
        | (Some (status, body), n1) \<Rightarrow>
            if status \<noteq> 200 then (Inl (PostReturned status), n1)
            else (case decode_struct [''cert_pem'', ''ca_pem''] (json_parse (read_limited (2 ^ 20) body)) of
                None \<Rightarrow> (Inl DecodeResponse, n1)
              | Some st \<Rightarrow>
                  let certPEM = field st ''cert_pem''
                  in if certPEM = [] then (Inl NoCertificate, n1) else (Inr certPEM, n1)))"

subsection \<open>Enrolment\<close>

text \<open>
  The first half of \<open>EnsureIdentity\<close>: the stored identity if there is one that is still valid, \<open>None\<close> if
  the agent has to enrol.
\<close>

definition stored_identity ::
  "('k, 'p, 'i, 'pool, 'n) crypto \<Rightarrow> config \<Rightarrow> world \<Rightarrow> 'n \<Rightarrow> (enroll_error + ('k, 'p, 'i, 'pool) identity option) \<times> world \<times> 'n"
where
  "stored_identity cr cfg w n =
     (let keyPath = join_path [CertDir cfg, keyFile]; certPath = join_path [CertDir cfg, certFile];
          caPath = join_path [CertDir cfg, caFile];
          (k, w1) = fileExists keyPath w;
          (c, w2) = (if k then fileExists certPath w1 else (False, w1));
          (a, w3) = (if c then fileExists caPath w2 else (False, w2))
      in if \<not> a then (Inr None, w3, n)
         else case readPEMs certPath keyPath caPath w3 of
             (Inl e, w4) \<Rightarrow> (Inl (ReadFailed e), w4, n)
           | (Inr (certPEM, keyPEM, caPEM), w4) \<Rightarrow>
               (case newIdentity cr certPEM keyPEM caPEM certPath of
                  Inl e \<Rightarrow> (Inl e, w4, n)
                | Inr i \<Rightarrow>
                    let (now, n1) = cryNow cr n
                    in if now < identity_NotAfter i then (Inr (Some i), w4, n1)
                       else if EnrollToken cfg = [] then (Inl StoredExpired, w4, n1)
                       else (Inr None, w4, n1)))"

text \<open>Enrolling: a fresh key and the certificate the platform issues for it,\<close>

definition request_certificate ::
  "('k, 'p, 'i, 'pool, 'n) crypto \<Rightarrow> ('pool, 'n) web \<Rightarrow> config \<Rightarrow> bytes \<Rightarrow> 'n \<Rightarrow> (enroll_error + bytes \<times> bytes) \<times> 'n"
where
  "request_certificate cr web cfg caPEM n =
     (case GenerateKey cr n of
        (Inl e, n1) \<Rightarrow> (Inl (PkiError e), n1)
      | (Inr key, n1) \<Rightarrow>
          (case MarshalKeyPEM cr key of
             Inl e \<Rightarrow> (Inl (PkiError e), n1)
           | Inr keyPEM \<Rightarrow>
               (case MarshalCSRPEM cr key (agentID web) n1 of
                  (Inl e, n2) \<Rightarrow> (Inl (PkiError e), n2)
                | (Inr csrPEM, n2) \<Rightarrow>
                    (case CAPool cr caPEM of
                       Inl e \<Rightarrow> (Inl (PkiError e), n2)
                     | Inr pool \<Rightarrow>
                         (case postCSR web \<lparr>tlsRoots = pool, tlsChain = None\<rparr> (EnrollEndpoint cfg) (EnrollToken cfg) csrPEM n2 of
                            (Inl e, n3) \<Rightarrow> (Inl e, n3)
                          | (Inr certPEM, n3) \<Rightarrow> (Inr (keyPEM, certPEM), n3))))))"

text \<open>and both stored, the key first.\<close>

definition store_identity :: "config \<Rightarrow> bytes \<Rightarrow> bytes \<Rightarrow> world \<Rightarrow> (enroll_error + unit) \<times> world" where
  "store_identity cfg keyPEM certPEM w =
     (case writeFileAtomic (join_path [CertDir cfg, keyFile]) keyPEM (6 * 8 * 8) w of
        (Inl e, w1) \<Rightarrow> (Inl e, w1)
      | (Inr _, w1) \<Rightarrow> writeFileAtomic (join_path [CertDir cfg, certFile]) certPEM (6 * 8 * 8 + 4 * 8 + 4) w1)"

definition enrol ::
  "('k, 'p, 'i, 'pool, 'n) crypto \<Rightarrow> ('pool, 'n) web \<Rightarrow> config \<Rightarrow> world \<Rightarrow> 'n
    \<Rightarrow> (enroll_error + ('k, 'p, 'i, 'pool) identity) \<times> world \<times> 'n"
where
  "enrol cr web cfg w n =
     (case os_read_file (join_path [CertDir cfg, caFile]) w of
        (Inl e, w1) \<Rightarrow> (Inl (NoPlatformCA e), w1, n)
      | (Inr caPEM, w1) \<Rightarrow>
          if EnrollToken cfg = [] then (Inl NoToken, w1, n)
          else case EnsureCertDir cfg w1 of
              (Inl e, w2) \<Rightarrow> (Inl (CertDirFailed e), w2, n)
            | (Inr _, w2) \<Rightarrow>
                (case request_certificate cr web cfg caPEM n of
                   (Inl e, n1) \<Rightarrow> (Inl e, w2, n1)
                 | (Inr (keyPEM, certPEM), n1) \<Rightarrow>
                     (case store_identity cfg keyPEM certPEM w2 of
                        (Inl e, w3) \<Rightarrow> (Inl e, w3, n1)
                      | (Inr _, w3) \<Rightarrow>
                          (newIdentity cr certPEM keyPEM caPEM (join_path [CertDir cfg, certFile]), w3, n1))))"

definition EnsureIdentity ::
  "('k, 'p, 'i, 'pool, 'n) crypto \<Rightarrow> ('pool, 'n) web \<Rightarrow> config \<Rightarrow> world \<Rightarrow> 'n
    \<Rightarrow> (enroll_error + ('k, 'p, 'i, 'pool) identity) \<times> world \<times> 'n"
where
  "EnsureIdentity cr web cfg w n =
     (case stored_identity cr cfg w n of
        (Inl e, w1, n1) \<Rightarrow> (Inl e, w1, n1)
      | (Inr (Some i), w1, n1) \<Rightarrow> (Inr i, w1, n1)
      | (Inr None, w1, n1) \<Rightarrow> enrol cr web cfg w1 n1)"

subsection \<open>Renewal\<close>

definition Renew ::
  "('k, 'p, 'i, 'pool, 'n) crypto \<Rightarrow> ('pool, 'n) web \<Rightarrow> config \<Rightarrow> ('k, 'p, 'i, 'pool) identity \<Rightarrow> world \<Rightarrow> 'n
    \<Rightarrow> (enroll_error + unit) \<times> ('k, 'p, 'i, 'pool) identity \<times> world \<times> 'n"
where
  "Renew cr web cfg i w n =
     (case MarshalCSRPEM cr (idKey i) (agentID web) n of
        (Inl e, n1) \<Rightarrow> (Inl (PkiError e), i, w, n1)
      | (Inr csrPEM, n1) \<Rightarrow>
          (case postCSR web (TLSConfig i) (RenewEndpoint cfg) [] csrPEM n1 of
             (Inl e, n2) \<Rightarrow> (Inl (RenewPost e), i, w, n2)
           | (Inr certPEM, n2) \<Rightarrow>
               (case cryKeyPair cr certPEM (idKeyPEM i) of
                  None \<Rightarrow> (Inl RenewKeypair, i, w, n2)
                | Some chain \<Rightarrow>
                    (case cryParseCert cr (hd chain) of
                       None \<Rightarrow> (Inl RenewParse, i, w, n2)
                     | Some leaf \<Rightarrow>
                         let i1 = i\<lparr>idChain := chain, idLeaf := leaf\<rparr>;
                             (r, w1) = writeFileAtomic (idCertPath i) certPEM (6 * 8 * 8 + 4 * 8 + 4) w
                         in (r, i1, w1, n2)))))"

text \<open>
  \<open>renewalLoop\<close>: the check at start-up and one for each tick of the interval until the context is
  cancelled; between two checks the outside moves on as \<open>elapse\<close> says.
\<close>

definition renewal_check ::
  "('k, 'p, 'i, 'pool, 'n) crypto \<Rightarrow> ('pool, 'n) web \<Rightarrow> config \<Rightarrow> ('k, 'p, 'i, 'pool) identity \<times> world \<times> 'n
    \<Rightarrow> ('k, 'p, 'i, 'pool) identity \<times> world \<times> 'n"
where
  "renewal_check cr web cfg s =
     (case s of
        (i, w, n) \<Rightarrow>
          (case cryNow cr n of
             (now, n1) \<Rightarrow>
               if NeedsRenewal now i (RenewBefore cfg) then snd (Renew cr web cfg i w n1) else (i, w, n1)))"

fun renewalLoop ::
  "('k, 'p, 'i, 'pool, 'n) crypto \<Rightarrow> ('pool, 'n) web \<Rightarrow> config \<Rightarrow> (world \<times> 'n \<Rightarrow> world \<times> 'n) list
    \<Rightarrow> ('k, 'p, 'i, 'pool) identity \<times> world \<times> 'n \<Rightarrow> ('k, 'p, 'i, 'pool) identity \<times> world \<times> 'n"
where
  "renewalLoop cr web cfg [] s = renewal_check cr web cfg s"
| "renewalLoop cr web cfg (elapse # ticks) s =
     (case renewal_check cr web cfg s of
        (i, wn) \<Rightarrow> renewalLoop cr web cfg ticks (i, elapse wn))"

end
