(* ===== verification/Mock_Platform.thy ===== *)
theory Mock_Platform
  imports Enroll
begin

text \<open>
  \<open>cmd/mock-platform/main.go\<close>: the platform's agent-facing endpoints.  A handler takes the server, the
  request as the HTTP server hands it over (with the verified client certificates) and the outside
  state, and returns the response; each request is handled as one step.  The lines the handlers log
  are kept in \<open>srvLog\<close>; the text of a signing error is left out of its response.
\<close>

subsection \<open>Requests, responses, the server\<close>

record ('i, 'p) incoming =
  inMethod :: string
  inHeader :: "string gomap"
  inBody :: bytes
  inPeers :: "('i, 'p) certificate list"

record response =
  rsStatus :: int
  rsType :: string
  rsBody :: bytes

datatype log_line =
    LogAccepted nat string string
  | LogEvent "json option" "json option"
  | LogRefused string string
  | LogRevoked string
  | LogIssued string string

record ('k, 'p, 'i) server =
  srvCA :: "('k, 'p, 'i) ca"
  srvToken :: string
  srvRevoked :: "string list"
  srvLog :: "log_line list"

definition certTTL :: duration where
  "certTTL = seconds (90 * 24 * 3600)"

definition header :: "string gomap \<Rightarrow> string \<Rightarrow> string" where
  "header h k = (case map_of h k of None \<Rightarrow> [] | Some v \<Rightarrow> v)"

definition http_error :: "string \<Rightarrow> int \<Rightarrow> response" where
  "http_error msg code = \<lparr>rsStatus = code, rsType = ''text/plain; charset=utf-8'', rsBody = msg @ [CHR 0x0A]\<rparr>"

definition log_to :: "('k, 'p, 'i) server \<Rightarrow> log_line list \<Rightarrow> ('k, 'p, 'i) server" where
  "log_to srv ls = srv\<lparr>srvLog := srvLog srv @ ls\<rparr>"

definition isRevoked :: "('k, 'p, 'i) server \<Rightarrow> string \<Rightarrow> bool" where
  "isRevoked srv cn \<longleftrightarrow> cn \<in> set (srvRevoked srv)"

definition clientCN :: "('i, 'p) incoming \<Rightarrow> string option" where
  "clientCN r = (case inPeers r of [] \<Rightarrow> None | c # _ \<Rightarrow> Some (CommonName (Subject c)))"

text \<open>\<open>decodeCSR\<close>: the CSR and the agent ID of the body, \<open>None\<close> after a 400.\<close>

definition decodeCSR :: "('i, 'p) incoming \<Rightarrow> (string \<times> string) option" where
  "decodeCSR r =
     (case decode_struct [''csr_pem'', ''agent_id''] (json_first (take (2 ^ 20) (inBody r))) of
        None \<Rightarrow> None
      | Some st \<Rightarrow> if field st ''csr_pem'' = [] then None else Some (field st ''csr_pem'', field st ''agent_id''))"

subsection \<open>Handlers\<close>

definition handleCA :: "('k, 'p, 'i) server \<Rightarrow> response" where
  "handleCA srv = \<lparr>rsStatus = 200, rsType = ''application/x-pem-file'', rsBody = caCertPEM (srvCA srv)\<rparr>"

definition issue ::
  "('k, 'p, 'i, 'pool, 'n) crypto \<Rightarrow> ('k, 'p, 'i) server \<Rightarrow> string \<Rightarrow> string \<Rightarrow> string \<Rightarrow> 'n \<Rightarrow> response \<times> ('k, 'p, 'i) server \<times> 'n"
where
  "issue cr srv csrPEM kind who n =
     (case SignCSR cr (srvCA srv) csrPEM certTTL n of
        (Inl _, n1) \<Rightarrow> (http_error ''sign failed'' 400, srv, n1)
      | (Inr certPEM, n1) \<Rightarrow>
          (\<lparr>rsStatus = 200, rsType = ''application/json'',
            rsBody = print_json (JObj [(''ca_pem'', JStr (caCertPEM (srvCA srv))), (''cert_pem'', JStr certPEM)]) @ [CHR 0x0A]\<rparr>,
           log_to srv [LogIssued kind who], n1))"

definition handleEnroll ::
  "('k, 'p, 'i, 'pool, 'n) crypto \<Rightarrow> ('k, 'p, 'i) server \<Rightarrow> ('i, 'p) incoming \<Rightarrow> 'n \<Rightarrow> response \<times> ('k, 'p, 'i) server \<times> 'n"
where
  "handleEnroll cr srv r n =
     (if inMethod r \<noteq> ''POST'' then (http_error ''POST only'' 405, srv, n)
      else if header (inHeader r) ''Authorization'' \<noteq> ''Bearer '' @ srvToken srv then
        (http_error ''invalid enroll token'' 401, srv, n)
      else case decodeCSR r of
          None \<Rightarrow> (http_error ''bad request'' 400, srv, n)
        | Some (csrPEM, agent) \<Rightarrow> issue cr srv csrPEM ''enroll'' agent n)"

definition handleRenew ::
  "('k, 'p, 'i, 'pool, 'n) crypto \<Rightarrow> ('k, 'p, 'i) server \<Rightarrow> ('i, 'p) incoming \<Rightarrow> 'n \<Rightarrow> response \<times> ('k, 'p, 'i) server \<times> 'n"
where
  "handleRenew cr srv r n =
     (if inMethod r \<noteq> ''POST'' then (http_error ''POST only'' 405, srv, n)
      else case clientCN r of
          None \<Rightarrow> (http_error ''client certificate required'' 401, srv, n)
        | Some cn \<Rightarrow>
            if isRevoked srv cn then (http_error ''agent revoked'' 403, log_to srv [LogRefused ''renew'' cn], n)
            else (case decodeCSR r of
                None \<Rightarrow> (http_error ''bad request'' 400, srv, n)
              | Some (csrPEM, _) \<Rightarrow> issue cr srv csrPEM ''renew'' cn n))"

text \<open>
  The body of \<open>/ingest\<close>: an agent ID and a list of maps.  A second \<open>events\<close> member is decoded into the
  maps of the first, as \<open>encoding/json\<close> does.
\<close>

definition into_events :: "json gomap option list \<Rightarrow> json \<Rightarrow> json gomap option list option" where
  "into_events old j =
     (case j of
        JArr js \<Rightarrow> sequence (map (\<lambda>(k, e). into_map (if k < length old then old ! k else None) e) (enumerate 0 js))
      | JNull \<Rightarrow> Some []
      | _ \<Rightarrow> None)"

fun decode_envelope :: "string \<times> json gomap option list \<Rightarrow> (string \<times> json) list \<Rightarrow> (string \<times> json gomap option list) option" where
  "decode_envelope st [] = Some st"
| "decode_envelope (agent, evs) ((k, j) # ms) =
     (if key_is k ''agent_id'' then
        (case into_string agent j of None \<Rightarrow> None | Some a \<Rightarrow> decode_envelope (a, evs) ms)
      else if key_is k ''events'' then
        (case into_events evs j of None \<Rightarrow> None | Some es \<Rightarrow> decode_envelope (agent, es) ms)
      else decode_envelope (agent, evs) ms)"

definition read_envelope :: "bytes \<Rightarrow> (string \<times> json gomap option list) option" where
  "read_envelope b =
     (case json_first b of
        Some (JObj ms) \<Rightarrow> decode_envelope ([], []) ms
      | Some JNull \<Rightarrow> Some ([], [])
      | _ \<Rightarrow> None)"

text \<open>\<open>gunzip\<close>: the bytes a gzip reader yields, \<open>None\<close> when it rejects the header.\<close>

definition ingest_body :: "(bytes \<Rightarrow> bytes option) \<Rightarrow> ('i, 'p) incoming \<Rightarrow> bytes option" where
  "ingest_body gunzip r =
     (if header (inHeader r) ''Content-Encoding'' = ''gzip'' then gunzip (inBody r) else Some (inBody r))"

definition entry :: "json gomap option \<Rightarrow> string \<Rightarrow> json option" where
  "entry ev k = (case ev of None \<Rightarrow> None | Some m \<Rightarrow> map_of m k)"

definition handleIngest ::
  "(bytes \<Rightarrow> bytes option) \<Rightarrow> ('k, 'p, 'i) server \<Rightarrow> ('i, 'p) incoming \<Rightarrow> response \<times> ('k, 'p, 'i) server"
where
  "handleIngest gunzip srv r =
     (if inMethod r \<noteq> ''POST'' then (http_error ''POST only'' 405, srv)
      else case clientCN r of
          None \<Rightarrow> (http_error ''client certificate required'' 401, srv)
        | Some cn \<Rightarrow>
            if isRevoked srv cn then (http_error ''agent revoked'' 403, log_to srv [LogRefused ''ingest'' cn])
            else (case ingest_body gunzip r of
                None \<Rightarrow> (http_error ''bad gzip'' 400, srv)
              | Some body \<Rightarrow>
                  (case read_envelope body of
                     None \<Rightarrow> (http_error ''bad body'' 400, srv)
                   | Some (agent, evs) \<Rightarrow>
                       (\<lparr>rsStatus = 202, rsType = [], rsBody = []\<rparr>,
                        log_to srv (LogAccepted (length evs) agent cn # map (\<lambda>ev. LogEvent (entry ev ''id'') (entry ev ''source'')) evs)))))"

definition handleRevoke :: "('k, 'p, 'i) server \<Rightarrow> ('i, 'p) incoming \<Rightarrow> response \<times> ('k, 'p, 'i) server" where
  "handleRevoke srv r =
     (if inMethod r \<noteq> ''POST'' then (http_error ''POST only'' 405, srv)
      else if header (inHeader r) ''Authorization'' \<noteq> ''Bearer '' @ srvToken srv then (http_error ''invalid admin token'' 401, srv)
      else case decode_struct [''agent_id''] (json_first (take (2 ^ 16) (inBody r))) of
          None \<Rightarrow> (http_error ''bad request (need agent_id)'' 400, srv)
        | Some st \<Rightarrow>
            let agent = field st ''agent_id'' in
            if agent = [] then (http_error ''bad request (need agent_id)'' 400, srv)
            else (\<lparr>rsStatus = 204, rsType = [], rsBody = []\<rparr>,
                  log_to (srv\<lparr>srvRevoked := agent # srvRevoked srv\<rparr>) [LogRevoked agent]))"

text \<open>The routes of the mux.\<close>

definition serve ::
  "('k, 'p, 'i, 'pool, 'n) crypto \<Rightarrow> (bytes \<Rightarrow> bytes option) \<Rightarrow> ('k, 'p, 'i) server \<Rightarrow> string \<Rightarrow> ('i, 'p) incoming \<Rightarrow> 'n
    \<Rightarrow> response \<times> ('k, 'p, 'i) server \<times> 'n"
where
  "serve cr gunzip srv path r n =
     (if path = ''/ca'' then (handleCA srv, srv, n)
      else if path = ''/enroll'' then handleEnroll cr srv r n
      else if path = ''/renew'' then handleRenew cr srv r n
      else if path = ''/ingest'' then (case handleIngest gunzip srv r of (rsp, s) \<Rightarrow> (rsp, s, n))
      else if path = ''/revoke'' then (case handleRevoke srv r of (rsp, s) \<Rightarrow> (rsp, s, n))
      else (http_error ''404 page not found'' 404, srv, n))"

text \<open>The server's hosts from the \<open>-host\<close> flag, and \<open>main\<close> up to the point where it listens.\<close>

definition server_hosts :: "string \<Rightarrow> string list" where
  "server_hosts host =
     [''localhost'', ''127.0.0.1''] @ filter (\<lambda>h. h \<noteq> []) (map trim_space (split_on (CHR '','') host))"

datatype start_error = CreateCA pki_error | WriteCA errno | IssueServer pki_error | LoadServerPair | ClientPool pki_error

definition mock_start ::
  "('k, 'p, 'i, 'pool, 'n) crypto \<Rightarrow> string \<Rightarrow> string \<Rightarrow> string \<Rightarrow> world \<Rightarrow> 'n
    \<Rightarrow> (start_error + ('k, 'p, 'i) server \<times> bytes list \<times> 'pool) \<times> world \<times> 'n"
where
  "mock_start cr token caOut host w n =
     (case NewCA cr ''ShadowTwin Mock Platform CA'' n of
        (Inl e, n1) \<Rightarrow> (Inl (CreateCA e), w, n1)
      | (Inr ca, n1) \<Rightarrow>
          (case os_write_file (clean caOut) (caCertPEM ca) (6 * 8 * 8 + 4 * 8 + 4) w of
             (Inl e, w1) \<Rightarrow> (Inl (WriteCA e), w1, n1)
           | (Inr _, w1) \<Rightarrow>
               (case IssueServerCert cr ca (server_hosts host) (seconds (24 * 3600)) n1 of
                  (Inl e, n2) \<Rightarrow> (Inl (IssueServer e), w1, n2)
                | (Inr (certPEM, keyPEM), n2) \<Rightarrow>
                    (case cryKeyPair cr certPEM keyPEM of
                       None \<Rightarrow> (Inl LoadServerPair, w1, n2)
                     | Some chain \<Rightarrow>
                         (case CAPool cr (caCertPEM ca) of
                            Inl e \<Rightarrow> (Inl (ClientPool e), w1, n2)
                          | Inr clientCAs \<Rightarrow>
                              (Inr (\<lparr>srvCA = ca, srvToken = token, srvRevoked = [], srvLog = []\<rparr>, chain, clientCAs), w1, n2))))))"

end
