(* ===== verification/Pki_Instance.thy ===== *)
theory Pki_Instance
  imports Pki
begin

text \<open>
  A concrete, executable instance of the cryptographic interface, on which the examples run: a key is
  a number and its own public key, and encodings are numbers in decimal followed by a name.  It
  encodes certificate authorities, client certificates and server certificates for one host, and satisfies \<open>crypto_ok\<close>.
\<close>

record desk =
  dkClock :: time
  dkRandom :: nat
  dkAnswers :: "int list"

fun put_nums :: "nat list \<Rightarrow> string \<Rightarrow> string" where
  "put_nums [] s = s"
| "put_nums (n # ns) s = itoa n @ CHR '','' # put_nums ns s"

fun get_nums :: "nat \<Rightarrow> string \<Rightarrow> (nat list \<times> string) option" where
  "get_nums 0 s = Some ([], s)"
| "get_nums (Suc k) s =
     (case cut (CHR '','') s of
        None \<Rightarrow> None
      | Some (a, r) \<Rightarrow> map_option (\<lambda>(ns, t). (dval a # ns, t)) (get_nums k r))"

lemma get_put_nums: "get_nums (length ns) (put_nums ns s) = Some (ns, s)"
proof (induction ns)
  case (Cons n ns)
  have "CHR '','' \<notin> set (itoa n)" using itoa_digits [of "CHR '',''" n] by (auto simp: is_digit_def)
  with Cons show ?case by (simp add: cut_append)
qed simp

definition desk_template :: "nat \<Rightarrow> nat \<Rightarrow> time \<Rightarrow> time \<Rightarrow> string \<Rightarrow> unit template" where
  "desk_template kind serial nb na cn =
     (let name = \<lparr>CommonName = cn, OtherNames = []\<rparr> in
      if kind = 0 then client_template serial name nb na
      else if kind = 2 then (client_template serial name nb na)\<lparr>ExtKeyUsage := [ExtKeyUsageServerAuth], DNSNames := [cn]\<rparr>
      else \<lparr>SerialNumber = serial, Subject = name, NotBefore = nb, NotAfter = na,
        KeyUsage = [KeyUsageCertSign, KeyUsageCRLSign], ExtKeyUsage = [], BasicConstraintsValid = True, IsCA = True,
        IPAddresses = [], DNSNames = []\<rparr>)"

definition desk_create :: "unit template \<Rightarrow> nat \<Rightarrow> bytes option" where
  "desk_create t p =
     (let nb = NotBefore t div ns_per_s; na = NotAfter t div ns_per_s; cn = CommonName (Subject t);
          kind = (if IsCA t then 1 else if ExtKeyUsage t = [ExtKeyUsageServerAuth] then 2 else 0)
      in if 0 \<le> nb \<and> 0 \<le> na \<and> t = desk_template kind (SerialNumber t) (NotBefore t) (NotAfter t) cn
         then Some (put_nums [kind, SerialNumber t, nat nb, nat na, p] cn) else None)"

definition desk_parse_cert :: "bytes \<Rightarrow> (unit, nat) certificate option" where
  "desk_parse_cert d =
     (case get_nums 5 d of
        Some ([kind, serial, nb, na, p], cn) \<Rightarrow>
          Some (with_key (desk_template kind serial (int nb * ns_per_s) (int na * ns_per_s) cn) p)
      | _ \<Rightarrow> None)"

definition desk_pem :: "string \<Rightarrow> bytes \<Rightarrow> bytes" where
  "desk_pem t b = put_nums [length t] (t @ b)"

definition desk_unpem :: "bytes \<Rightarrow> bytes option" where
  "desk_unpem s = (case get_nums 1 s of Some ([n], r) \<Rightarrow> Some (drop n r) | _ \<Rightarrow> None)"

definition desk_parse_key :: "bytes \<Rightarrow> nat private_key option" where
  "desk_parse_key d = (case get_nums 1 d of Some ([k], []) \<Rightarrow> Some (EcdsaKey k) | _ \<Rightarrow> None)"

definition desk_key_pair :: "bytes \<Rightarrow> bytes \<Rightarrow> bytes list option" where
  "desk_key_pair cp kp =
     (case (desk_unpem cp, desk_unpem kp) of
        (Some d, Some kd) \<Rightarrow>
          (case (desk_parse_cert d, desk_parse_key kd) of
             (Some c, Some (EcdsaKey k)) \<Rightarrow> if PublicKey c = k then Some [d] else None
           | _ \<Rightarrow> None)
      | _ \<Rightarrow> None)"

definition desk_crypto :: "(nat, nat, unit, bytes, desk) crypto" where
  "desk_crypto =
     \<lparr>cryNow = \<lambda>n. (dkClock n, n),
      cryGenerate = \<lambda>n. (Some (dkRandom n), n\<lparr>dkRandom := Suc (dkRandom n)\<rparr>),
      cryInt = \<lambda>m n. ((if m = 0 then None else Some (dkRandom n mod m)), n\<lparr>dkRandom := Suc (dkRandom n)\<rparr>),
      cryPublic = \<lambda>k. k,
      cryMarshalPKCS8 = \<lambda>k. Some (put_nums [k] []),
      cryParsePKCS8 = desk_parse_key,
      cryCreateCSR = \<lambda>s k n. ((if OtherNames s = [] then Some (put_nums [k] (CommonName s)) else None), n),
      cryParseCSR = \<lambda>d. (case get_nums 1 d of
          Some ([k], cn) \<Rightarrow> Some \<lparr>csrSubject = \<lparr>CommonName = cn, OtherNames = []\<rparr>, csrPublicKey = k, csrSignatureOk = True\<rparr>
        | _ \<Rightarrow> None),
      cryCreateCert = \<lambda>t u p k n. (desk_create t p, n),
      cryParseCert = desk_parse_cert,
      cryKeyPair = desk_key_pair,
      cryPool = \<lambda>b. (if desk_unpem b = None then None else Some b),
      cryParseIP = \<lambda>s. None,
      pemEncode = desk_pem,
      pemDecode = desk_unpem\<rparr>"

lemma get_one: "get_nums 1 (put_nums [n] s) = Some ([n], s)"
  using get_put_nums [of "[n]" s] by (simp only: length_Cons list.size One_nat_def)

lemma desk_unpem_pem [simp]: "desk_unpem (desk_pem t b) = Some b"
  unfolding desk_unpem_def desk_pem_def get_one by simp

lemma desk_parse_created: "desk_create t p = Some d \<Longrightarrow> desk_parse_cert d = Some (with_key t p)"
proof -
  assume c: "desk_create t p = Some d"
  let ?k = "if IsCA t then 1 else if ExtKeyUsage t = [ExtKeyUsageServerAuth] then 2 else 0 :: nat"
  have t: "0 \<le> NotBefore t div ns_per_s" "0 \<le> NotAfter t div ns_per_s"
    "t = desk_template ?k (SerialNumber t) (NotBefore t) (NotAfter t) (CommonName (Subject t))"
    and d: "d = put_nums [?k, SerialNumber t, nat (NotBefore t div ns_per_s), nat (NotAfter t div ns_per_s), p] (CommonName (Subject t))"
    using c by (auto simp: desk_create_def Let_def split: if_splits)
  have five: "length [a, b, c, e, f] = 5" for a b c e f :: nat by simp
  have "get_nums 5 d = Some ([?k, SerialNumber t, nat (NotBefore t div ns_per_s), nat (NotAfter t div ns_per_s), p], CommonName (Subject t))"
    using get_put_nums [of "[?k, SerialNumber t, nat (NotBefore t div ns_per_s), nat (NotAfter t div ns_per_s), p]"
      "CommonName (Subject t)"] five by (simp only: d)
  moreover have "with_key (desk_template ?k (SerialNumber t) (NotBefore t div ns_per_s * ns_per_s) (NotAfter t div ns_per_s * ns_per_s)
      (CommonName (Subject t))) p = with_key (desk_template ?k (SerialNumber t) (NotBefore t) (NotAfter t) (CommonName (Subject t))) p"
    by (simp add: with_key_def desk_template_def client_template_def whole_seconds_def ns_per_s_def)
  ultimately show ?thesis using t(1,2) t(3) [symmetric] by (simp add: desk_parse_cert_def)
qed

lemma desk_crypto_ok: "crypto_ok desk_crypto"
  unfolding crypto_ok_def
proof (intro conjI)
  show "\<forall>s k n d n'. cryCreateCSR desk_crypto s k n = (Some d, n') \<longrightarrow>
      cryParseCSR desk_crypto d = Some \<lparr>csrSubject = s, csrPublicKey = cryPublic desk_crypto k, csrSignatureOk = True\<rparr>"
    using get_one by (auto simp: desk_crypto_def split: if_splits)
  show "\<forall>k d. cryMarshalPKCS8 desk_crypto k = Some d \<longrightarrow> cryParsePKCS8 desk_crypto d = Some (EcdsaKey k)"
    using get_one [of _ "[]"] by (auto simp: desk_crypto_def desk_parse_key_def)
  show "\<forall>m n v n'. cryInt desk_crypto m n = (Some v, n') \<longrightarrow> v < m" by (auto simp: desk_crypto_def split: if_splits)
qed (auto simp: desk_crypto_def desk_key_pair_def desk_parse_created split: private_key.splits)

end
