(* ===== verification/Pki_Theorems.thy ===== *)
theory Pki_Theorems
  imports Pki_Instance
begin

text \<open>What the certificates that \<open>internal/pki\<close> issues promise.\<close>

lemma crypto_okD:
  assumes "crypto_ok cr"
  shows "pemDecode cr (pemEncode cr t b) = Some b"
    and "cryMarshalPKCS8 cr k = Some d \<Longrightarrow> cryParsePKCS8 cr d = Some (EcdsaKey k)"
    and "cryCreateCSR cr s k n = (Some d, n') \<Longrightarrow>
      cryParseCSR cr d = Some \<lparr>csrSubject = s, csrPublicKey = cryPublic cr k, csrSignatureOk = True\<rparr>"
    and "cryCreateCert cr tm u p k n = (Some d, n') \<Longrightarrow> cryParseCert cr d = Some (with_key tm p)"
    and "cryInt cr m n = (Some v, n') \<Longrightarrow> v < m"
    and "cryParseCert cr d = Some c \<Longrightarrow> cryParsePKCS8 cr kd = Some (EcdsaKey k) \<Longrightarrow>
      cryKeyPair cr (pemEncode cr pemTypeCert d) (pemEncode cr pemTypeKey kd)
        = (if PublicKey c = cryPublic cr k then Some [d] else None)"
proof -
  note ok = assms [unfolded crypto_ok_def]
  show "pemDecode cr (pemEncode cr t b) = Some b" using ok by simp
  show "cryMarshalPKCS8 cr k = Some d \<Longrightarrow> cryParsePKCS8 cr d = Some (EcdsaKey k)" using ok by simp
  show "cryCreateCSR cr s k n = (Some d, n') \<Longrightarrow>
      cryParseCSR cr d = Some \<lparr>csrSubject = s, csrPublicKey = cryPublic cr k, csrSignatureOk = True\<rparr>"
    using ok by (elim conjE) blast
  show "cryCreateCert cr tm u p k n = (Some d, n') \<Longrightarrow> cryParseCert cr d = Some (with_key tm p)"
    using ok by (elim conjE) blast
  show "cryInt cr m n = (Some v, n') \<Longrightarrow> v < m" using ok by (elim conjE) blast
  show "cryParseCert cr d = Some c \<Longrightarrow> cryParsePKCS8 cr kd = Some (EcdsaKey k) \<Longrightarrow>
      cryKeyPair cr (pemEncode cr pemTypeCert d) (pemEncode cr pemTypeKey kd)
        = (if PublicKey c = cryPublic cr k then Some [d] else None)"
    using ok by (elim conjE) simp
qed

lemma SignCSR_ok:
  assumes "SignCSR cr ca csrPEM ttl n = (Inr certPEM, n')"
  obtains blk csr serial n1 t1 n2 t2 n3 der where "pemDecode cr csrPEM = Some blk" and "cryParseCSR cr blk = Some csr"
    and "csrSignatureOk csr" and "cryInt cr (2 ^ 128) n = (Some serial, n1)"
    and "cryNow cr n1 = (t1, n2)" and "cryNow cr n2 = (t2, n3)"
    and "cryCreateCert cr (client_template serial (csrSubject csr) (t1 - minute) (t2 + sint ttl))
      (template.truncate (caCert ca)) (csrPublicKey csr) (caKey ca) n3 = (Some der, n')"
    and "certPEM = pemEncode cr pemTypeCert der"
  using assms
  by (auto simp: SignCSR_def randomSerial_def Let_def split: option.splits if_splits prod.splits sum.splits)

text \<open>
  A certificate says what was asked for and no more.  Whatever CSR \<open>SignCSR\<close> accepts, its signature
  is valid, and the certificate it issues carries the subject and the public key of the request, is
  good for client authentication only, is no certificate authority, has a serial number below
  \<open>2 ^ 128\<close> and is valid from one minute before the clock reading to \<open>ttl\<close> after it.
\<close>

theorem signed_certificate_binds_the_request:
  assumes "crypto_ok cr" and "SignCSR cr ca csrPEM ttl n = (Inr certPEM, n')"
  shows "\<exists>blk csr der c t1 n1 t2 n2 m. pemDecode cr csrPEM = Some blk \<and> cryParseCSR cr blk = Some csr \<and> csrSignatureOk csr
    \<and> pemDecode cr certPEM = Some der \<and> cryParseCert cr der = Some c
    \<and> Subject c = csrSubject csr \<and> PublicKey c = csrPublicKey csr
    \<and> ExtKeyUsage c = [ExtKeyUsageClientAuth] \<and> KeyUsage c = [KeyUsageDigitalSignature] \<and> \<not> IsCA c
    \<and> IPAddresses c = [] \<and> DNSNames c = [] \<and> SerialNumber c < 2 ^ 128
    \<and> cryNow cr m = (t1, n1) \<and> NotBefore c = whole_seconds (t1 - minute)
    \<and> cryNow cr n1 = (t2, n2) \<and> NotAfter c = whole_seconds (t2 + sint ttl)"
proof -
  from assms(2) obtain blk csr serial n1 t1 n2 t2 n3 der where
    r: "pemDecode cr csrPEM = Some blk" "cryParseCSR cr blk = Some csr" "csrSignatureOk csr"
      "cryInt cr (2 ^ 128) n = (Some serial, n1)" "cryNow cr n1 = (t1, n2)" "cryNow cr n2 = (t2, n3)"
    and c: "cryCreateCert cr (client_template serial (csrSubject csr) (t1 - minute) (t2 + sint ttl))
      (template.truncate (caCert ca)) (csrPublicKey csr) (caKey ca) n3 = (Some der, n')"
    and p: "certPEM = pemEncode cr pemTypeCert der" by (rule SignCSR_ok)
  have "cryParseCert cr der
      = Some (with_key (client_template serial (csrSubject csr) (t1 - minute) (t2 + sint ttl)) (csrPublicKey csr))"
    by (rule crypto_okD(4) [OF assms(1) c])
  moreover have "serial < 2 ^ 128" by (rule crypto_okD(5) [OF assms(1) r(4)])
  moreover have "pemDecode cr certPEM = Some der" unfolding p by (rule crypto_okD(1) [OF assms(1)])
  ultimately show ?thesis using r by (simp add: with_key_def client_template_def) blast
qed

definition demo_desk :: desk where
  "demo_desk = \<lparr>dkClock = 1750000000 * ns_per_s, dkRandom = 7, dkAnswers = []\<rparr>"

definition demo_ca :: "(nat, nat, unit) ca" where
  "demo_ca =
     (let c = with_key (desk_template 1 1 0 (2000000000 * ns_per_s) ''Mock CA'') 1
      in \<lparr>caCert = c, caKey = 1, caCertPEM = desk_pem pemTypeCert (put_nums [1, 1, 0, 2000000000, 1] ''Mock CA'')\<rparr>)"

definition demo_csr :: bytes where
  "demo_csr = projr (fst (MarshalCSRPEM desk_crypto 42 ''web-1'' demo_desk))"

lemma demo_signed: "is_ok (fst (SignCSR desk_crypto demo_ca demo_csr (seconds (90 * 24 * 3600)) demo_desk))"
proof -
  have "Option.bind (desk_unpem demo_csr) (cryParseCSR desk_crypto)
    = Some \<lparr>csrSubject = \<lparr>CommonName = ''web-1'', OtherNames = []\<rparr>, csrPublicKey = 42, csrSignatureOk = True\<rparr>"
    by code_simp
  then obtain blk where b: "desk_unpem demo_csr = Some blk" "cryParseCSR desk_crypto blk
    = Some \<lparr>csrSubject = \<lparr>CommonName = ''web-1'', OtherNames = []\<rparr>, csrPublicKey = 42, csrSignatureOk = True\<rparr>"
    by (auto simp: Option.bind_eq_Some_conv)
  have i: "cryInt desk_crypto (2 ^ 128) demo_desk = (Some 7, demo_desk\<lparr>dkRandom := 8\<rparr>)"
    by (simp add: desk_crypto_def demo_desk_def)
  have "desk_create (client_template 7 \<lparr>CommonName = ''web-1'', OtherNames = []\<rparr> (1750000000 * ns_per_s - minute)
      (1750000000 * ns_per_s + sint (seconds (90 * 24 * 3600)))) 42 \<noteq> None"
    by code_simp
  moreover have "pemDecode desk_crypto = desk_unpem" "cryNow desk_crypto = (\<lambda>n. (dkClock n, n))"
    "cryCreateCert desk_crypto = (\<lambda>t u p k n. (desk_create t p, n))" by (simp_all add: desk_crypto_def)
  ultimately show ?thesis using b i by (auto simp: SignCSR_def randomSerial_def demo_desk_def split: option.split)
qed

theorem signed_certificate_binds_the_request_witness:
  "\<exists>certPEM n' der c. SignCSR desk_crypto demo_ca demo_csr (seconds (90 * 24 * 3600)) demo_desk = (Inr certPEM, n')
    \<and> desk_unpem certPEM = Some der \<and> desk_parse_cert der = Some c \<and> CommonName (Subject c) = ''web-1'' \<and> PublicKey c = 42 \<and> \<not> IsCA c"
proof -
  obtain certPEM n' where s: "SignCSR desk_crypto demo_ca demo_csr (seconds (90 * 24 * 3600)) demo_desk = (Inr certPEM, n')"
    using demo_signed by (cases "SignCSR desk_crypto demo_ca demo_csr (seconds (90 * 24 * 3600)) demo_desk") (auto simp: is_ok_iff)
  have csr: "Option.bind (desk_unpem demo_csr) (cryParseCSR desk_crypto)
    = Some \<lparr>csrSubject = \<lparr>CommonName = ''web-1'', OtherNames = []\<rparr>, csrPublicKey = 42, csrSignatureOk = True\<rparr>"
    by code_simp
  have simps: "pemDecode desk_crypto = desk_unpem" "cryParseCert desk_crypto = desk_parse_cert"
    by (simp_all add: desk_crypto_def)
  from signed_certificate_binds_the_request [OF desk_crypto_ok s] csr s show ?thesis
    unfolding simps by (auto simp: Option.bind_eq_Some_conv)
qed

text \<open>The certificate issued for a request made with a key, loaded together with that key.\<close>

lemma issued_loads:
  assumes "crypto_ok cr" and "MarshalKeyPEM cr k = Inr keyPEM" and "MarshalCSRPEM cr k cn n = (Inr csrPEM, n1)"
    and "SignCSR cr ca csrPEM ttl n2 = (Inr certPEM, n3)"
  obtains der c t m m' where "cryKeyPair cr certPEM keyPEM = Some [der]" and "cryParseCert cr der = Some c"
    and "ParseKeyPEM cr keyPEM = Inr k" and "CommonName (Subject c) = cn" and "PublicKey c = cryPublic cr k"
    and "ExtKeyUsage c = [ExtKeyUsageClientAuth]" and "\<not> IsCA c" and "cryNow cr m = (t, m')" and "NotAfter c = whole_seconds (t + sint ttl)"
    and "certPEM = pemEncode cr pemTypeCert der"
proof -
  obtain kd where kd: "cryMarshalPKCS8 cr k = Some kd" "keyPEM = pemEncode cr pemTypeKey kd"
    using assms(2) by (auto simp: MarshalKeyPEM_def split: option.splits)
  obtain rd where rd: "cryCreateCSR cr \<lparr>CommonName = cn, OtherNames = []\<rparr> k n = (Some rd, n1)" "csrPEM = pemEncode cr pemTypeCSR rd"
    using assms(3) by (auto simp: MarshalCSRPEM_def split: prod.splits option.splits)
  note laws = crypto_okD [OF assms(1)]
  from assms(4) obtain blk csr serial m1 t1 m2 t2 m3 der where r: "pemDecode cr csrPEM = Some blk" "cryParseCSR cr blk = Some csr"
    "cryNow cr m2 = (t2, m3)"
    and c: "cryCreateCert cr (client_template serial (csrSubject csr) (t1 - minute) (t2 + sint ttl))
      (template.truncate (caCert ca)) (csrPublicKey csr) (caKey ca) m3 = (Some der, n3)"
    and p: "certPEM = pemEncode cr pemTypeCert der" by (rule SignCSR_ok)
  have csr: "csr = \<lparr>csrSubject = \<lparr>CommonName = cn, OtherNames = []\<rparr>, csrPublicKey = cryPublic cr k, csrSignatureOk = True\<rparr>"
    using r laws(1) laws(3) [OF rd(1)] by (simp add: rd(2))
  note pc = laws(4) [OF c]
  have "cryKeyPair cr certPEM keyPEM = Some [der]"
    using laws(6) [OF pc laws(2) [OF kd(1)]] by (simp add: p kd(2) csr with_key_def)
  moreover have "ParseKeyPEM cr keyPEM = Inr k" using laws(1) laws(2) [OF kd(1)] by (simp add: ParseKeyPEM_def kd(2))
  ultimately show thesis using that [OF _ pc _ _ _ _ _ r(3) _ p] by (simp add: csr with_key_def client_template_def)
qed

text \<open>
  Keys, requests and certificates fit together.  The key an agent generates survives its PEM file;
  the certificate issued for the request made with it loads together with it and names the agent,
  and it does not load together with any key of another public key.
\<close>

theorem issued_certificate_fits_its_key:
  assumes "crypto_ok cr" and "MarshalKeyPEM cr k = Inr keyPEM" and "MarshalCSRPEM cr k cn n = (Inr csrPEM, n1)"
    and "SignCSR cr ca csrPEM ttl n2 = (Inr certPEM, n3)"
  shows "ParseKeyPEM cr keyPEM = Inr k
    \<and> (\<exists>der c. cryKeyPair cr certPEM keyPEM = Some [der] \<and> cryParseCert cr der = Some c \<and> CommonName (Subject c) = cn)
    \<and> (\<forall>k' other. MarshalKeyPEM cr k' = Inr other \<and> cryPublic cr k' \<noteq> cryPublic cr k \<longrightarrow> cryKeyPair cr certPEM other = None)"
proof -
  from issued_loads [OF assms] obtain der c where l: "cryKeyPair cr certPEM keyPEM = Some [der]" "cryParseCert cr der = Some c"
    "ParseKeyPEM cr keyPEM = Inr k" "CommonName (Subject c) = cn" "PublicKey c = cryPublic cr k" "certPEM = pemEncode cr pemTypeCert der"
    by metis
  have other: "\<forall>k' other. MarshalKeyPEM cr k' = Inr other \<and> cryPublic cr k' \<noteq> cryPublic cr k \<longrightarrow> cryKeyPair cr certPEM other = None"
  proof (intro allI impI)
    fix k' other
    assume k': "MarshalKeyPEM cr k' = Inr other \<and> cryPublic cr k' \<noteq> cryPublic cr k"
    then obtain kd where kd: "cryMarshalPKCS8 cr k' = Some kd" "other = pemEncode cr pemTypeKey kd"
      by (auto simp: MarshalKeyPEM_def split: option.splits)
    from crypto_okD(6) [OF assms(1) l(2) crypto_okD(2) [OF assms(1) kd(1)]] show "cryKeyPair cr certPEM other = None"
      using k' by (simp add: l(5,6) kd(2)) metis
  qed
  then show ?thesis using l(1-4) by (intro conjI exI [of _ der] exI [of _ c]) simp_all
qed

theorem issued_certificate_fits_its_key_witness:
  "\<exists>certPEM n' keyPEM der. SignCSR desk_crypto demo_ca demo_csr (seconds (90 * 24 * 3600)) demo_desk = (Inr certPEM, n')
    \<and> MarshalKeyPEM desk_crypto 42 = Inr keyPEM \<and> desk_key_pair certPEM keyPEM = Some [der]"
proof -
  obtain certPEM n' where s: "SignCSR desk_crypto demo_ca demo_csr (seconds (90 * 24 * 3600)) demo_desk = (Inr certPEM, n')"
    using demo_signed by (cases "SignCSR desk_crypto demo_ca demo_csr (seconds (90 * 24 * 3600)) demo_desk") (auto simp: is_ok_iff)
  have "is_ok (MarshalKeyPEM desk_crypto 42)" "is_ok (fst (MarshalCSRPEM desk_crypto 42 ''web-1'' demo_desk))" by code_simp+
  then obtain keyPEM n1 where k: "MarshalKeyPEM desk_crypto 42 = Inr keyPEM"
    and r: "MarshalCSRPEM desk_crypto 42 ''web-1'' demo_desk = (Inr demo_csr, n1)"
    by (cases "MarshalCSRPEM desk_crypto 42 ''web-1'' demo_desk") (auto simp: is_ok_iff demo_csr_def)
  have "cryKeyPair desk_crypto = desk_key_pair" by (simp add: desk_crypto_def)
  with issued_certificate_fits_its_key [OF desk_crypto_ok k r s] s k show ?thesis by auto
qed

lemma add_hosts:
  "foldl (add_host cr) t hs
    = t\<lparr>IPAddresses := IPAddresses t @ map (\<lambda>h. the (cryParseIP cr h)) (filter (\<lambda>h. cryParseIP cr h \<noteq> None) hs),
        DNSNames := DNSNames t @ filter (\<lambda>h. cryParseIP cr h = None) hs\<rparr>"
  by (induction hs arbitrary: t) (auto simp: add_host_def split: option.splits)

text \<open>
  A server certificate answers for every host it was issued for: on success the list of hosts is
  not empty, its first entry is the subject, those that are IP addresses are its IP addresses and
  the others its DNS names, in the same order, and it loads together with the key returned with it.
\<close>

theorem server_certificate_covers_hosts:
  assumes "crypto_ok cr" and "IssueServerCert cr ca hosts ttl n = (Inr (certPEM, keyPEM), n')"
  shows "hosts \<noteq> [] \<and> (\<exists>der c. cryKeyPair cr certPEM keyPEM = Some [der] \<and> cryParseCert cr der = Some c
    \<and> CommonName (Subject c) = hd hosts \<and> ExtKeyUsage c = [ExtKeyUsageServerAuth] \<and> \<not> IsCA c
    \<and> map Some (IPAddresses c) = filter (\<lambda>ip. ip \<noteq> None) (map (cryParseIP cr) hosts)
    \<and> DNSNames c = filter (\<lambda>h. cryParseIP cr h = None) hosts)"
proof -
  have ne: "hosts \<noteq> []" using assms(2) by (auto simp: IssueServerCert_def)
  then obtain key serial t1 t2 m der where
    c: "cryCreateCert cr (foldl (add_host cr) \<lparr>SerialNumber = serial, Subject = \<lparr>CommonName = hd hosts, OtherNames = []\<rparr>,
        NotBefore = t1 - minute, NotAfter = t2 + sint ttl, KeyUsage = [KeyUsageDigitalSignature],
        ExtKeyUsage = [ExtKeyUsageServerAuth], BasicConstraintsValid = False, IsCA = False, IPAddresses = [], DNSNames = []\<rparr> hosts)
      (template.truncate (caCert ca)) (cryPublic cr key) (caKey ca) m = (Some der, n')"
    and k: "MarshalKeyPEM cr key = Inr keyPEM" and p: "certPEM = pemEncode cr pemTypeCert der"
    using assms(2) by (auto simp: IssueServerCert_def GenerateKey_def randomSerial_def Let_def
        split: option.splits if_splits prod.splits sum.splits)
  note laws = crypto_okD [OF assms(1)]
  obtain kd where kd: "cryMarshalPKCS8 cr key = Some kd" "keyPEM = pemEncode cr pemTypeKey kd"
    using k by (auto simp: MarshalKeyPEM_def split: option.splits)
  have ips: "map Some (map (\<lambda>h. the (cryParseIP cr h)) (filter (\<lambda>h. cryParseIP cr h \<noteq> None) hs))
    = filter (\<lambda>ip. ip \<noteq> None) (map (cryParseIP cr) hs)" for hs
    by (induction hs) auto
  note pc = laws(4) [OF c]
  have "cryKeyPair cr certPEM keyPEM = Some [der]"
    using laws(6) [OF pc laws(2) [OF kd(1)]] by (simp add: p kd(2) with_key_def)
  then show ?thesis using ne pc ips [of hosts] by (simp add: with_key_def add_hosts)
qed

theorem server_certificate_covers_hosts_witness:
  "\<exists>certPEM keyPEM n' der c. IssueServerCert desk_crypto demo_ca [''localhost''] (seconds 86400) demo_desk = (Inr (certPEM, keyPEM), n')
    \<and> desk_key_pair certPEM keyPEM = Some [der] \<and> desk_parse_cert der = Some c \<and> DNSNames c = [''localhost'']"
proof -
  let ?t = "desk_template 2 8 (1750000000 * ns_per_s - minute) (1750000000 * ns_per_s + sint (seconds 86400)) ''localhost''"
  have c: "desk_create ?t 7 \<noteq> None" by code_simp
  have f: "cryGenerate desk_crypto = (\<lambda>n. (Some (dkRandom n), n\<lparr>dkRandom := Suc (dkRandom n)\<rparr>))"
    "cryInt desk_crypto = (\<lambda>m n. ((if m = 0 then None else Some (dkRandom n mod m)), n\<lparr>dkRandom := Suc (dkRandom n)\<rparr>))"
    "cryNow desk_crypto = (\<lambda>n. (dkClock n, n))" "cryPublic desk_crypto = (\<lambda>k. k)" "cryParseIP desk_crypto = (\<lambda>s. None)"
    "cryCreateCert desk_crypto = (\<lambda>t u p k n. (desk_create t p, n))" "cryMarshalPKCS8 desk_crypto = (\<lambda>k. Some (put_nums [k] []))"
    "cryKeyPair desk_crypto = desk_key_pair" "cryParseCert desk_crypto = desk_parse_cert"
    by (simp_all add: desk_crypto_def)
  have "is_ok (fst (IssueServerCert desk_crypto demo_ca [''localhost''] (seconds 86400) demo_desk))"
    using c by (auto simp: IssueServerCert_def GenerateKey_def randomSerial_def MarshalKeyPEM_def f add_host_def demo_desk_def
        desk_template_def client_template_def split: option.split)
  then obtain certPEM keyPEM n' where s:
    "IssueServerCert desk_crypto demo_ca [''localhost''] (seconds 86400) demo_desk = (Inr (certPEM, keyPEM), n')"
    by (cases "IssueServerCert desk_crypto demo_ca [''localhost''] (seconds 86400) demo_desk") (auto simp: is_ok_iff)
  from server_certificate_covers_hosts [OF desk_crypto_ok s] s show ?thesis by (auto simp: f)
qed

end
