(* ===== verification/Mock_Theorems.thy ===== *)
theory Mock_Theorems
  imports Mock_Platform Pki_Theorems Refinement
begin

text \<open>
  What the platform guarantees: certificates only for the authenticated, revocation for good, and what
  it reads out of an accepted batch.
\<close>

lemma log_to_sel [simp]:
  "srvCA (log_to srv ls) = srvCA srv" "srvToken (log_to srv ls) = srvToken srv"
  "srvRevoked (log_to srv ls) = srvRevoked srv" "srvLog (log_to srv ls) = srvLog srv @ ls"
  by (simp_all add: log_to_def)

lemma issue_frame:
  assumes "issue cr srv csrPEM kind who n = (rsp, srv', n')"
  shows "srvRevoked srv' = srvRevoked srv \<and> srvToken srv' = srvToken srv \<and> srvCA srv' = srvCA srv
    \<and> (srv' = srv \<and> rsStatus rsp = 400 \<or> srv' = log_to srv [LogIssued kind who] \<and> rsStatus rsp = 200)"
  using assms by (auto simp: issue_def http_error_def split: prod.splits sum.splits)

text \<open>A request as an operation of the platform; what happens outside in between is left open.\<close>

definition serve_one ::
  "('k, 'p, 'i, 'pool, 'n) crypto \<Rightarrow> (bytes \<Rightarrow> bytes option) \<Rightarrow> string \<times> ('i, 'p) incoming \<times> 'n
    \<Rightarrow> ('k, 'p, 'i) server \<Rightarrow> response \<times> ('k, 'p, 'i) server"
where
  "serve_one cr gunzip x srv = (case x of (path, r, n) \<Rightarrow> (case serve cr gunzip srv path r n of (rsp, srv1, _) \<Rightarrow> (rsp, srv1)))"

lemma serve_grows:
  assumes "serve cr gunzip srv path r n = (rsp, srv', n')"
  shows "set (srvRevoked srv) \<subseteq> set (srvRevoked srv') \<and> srvToken srv' = srvToken srv"
proof -
  have i: "set (srvRevoked srv) \<subseteq> set (srvRevoked s) \<and> srvToken s = srvToken srv"
    if "issue cr srv csr kind who n = (x, s, m)" for csr kind who x s m using issue_frame [OF that] by simp
  show ?thesis
    using assms i
    by (auto simp: serve_def handleEnroll_def handleRenew_def handleIngest_def handleRevoke_def Let_def
        split: if_splits option.splits prod.splits)
qed

interpretation deny: growing "serve_one cr gunzip" "\<lambda>s t. set (srvRevoked s) \<subseteq> set (srvRevoked t) \<and> srvToken t = srvToken s"
  for cr gunzip
  by unfold_locales (auto simp: serve_one_def split: prod.splits dest!: serve_grows)

definition demo_server :: "(nat, nat, unit) server" where
  "demo_server = \<lparr>srvCA = demo_ca, srvToken = ''tok'', srvRevoked = [], srvLog = []\<rparr>"

definition demo_peer :: "string \<Rightarrow> (unit, nat) certificate" where
  "demo_peer cn = with_key (desk_template 0 5 0 (2000000000 * ns_per_s) cn) 42"

definition demo_revoke :: "(unit, nat) incoming" where
  "demo_revoke = \<lparr>inMethod = ''POST'', inHeader = [(''Authorization'', ''Bearer tok'')],
     inBody = print_json (JObj [(''agent_id'', JStr ''web-1'')]), inPeers = []\<rparr>"

definition demo_reenroll :: "(unit, nat) incoming" where
  "demo_reenroll = \<lparr>inMethod = ''POST'', inHeader = [(''Authorization'', ''Bearer tok'')],
     inBody = csr_body demo_csr ''web-1'', inPeers = []\<rparr>"

definition demo_ingest :: "(unit, nat) incoming" where
  "demo_ingest = \<lparr>inMethod = ''POST'', inHeader = [], inBody = ''{}'', inPeers = [demo_peer ''web-1'']\<rparr>"

text \<open>
  C34. Revocation is final.  Once an agent is on the deny list, no sequence of requests from anybody (not
  a new enrolment with the token either) takes it off again: every later post to \<open>/ingest\<close> or
  \<open>/renew\<close> over a certificate with its name gets a 403, and no certificate and no event is taken.
\<close>

theorem revocation_is_final:
  assumes "isRevoked srv cn" and "run_ops (serve_one cr gunzip) rs srv = (rsps, srv1)"
    and "clientCN r = Some cn" and "inMethod r = ''POST''" and "path = ''/ingest'' \<or> path = ''/renew''"
  shows "\<exists>rsp srv2. serve cr gunzip srv1 path r n = (rsp, srv2, n) \<and> rsStatus rsp = 403
    \<and> srvLog srv2 = srvLog srv1 @ [LogRefused (tl path) cn]"
proof -
  have "isRevoked srv1 cn" 
    by (rule deny.final [where P = "\<lambda>s. isRevoked s cn", OF _ assms(1,2)]) (auto simp: isRevoked_def)
  then show ?thesis using assms(3,4,5)
    by (auto simp: serve_def handleIngest_def handleRenew_def http_error_def)
qed

theorem revocation_is_final_witness:
  "\<exists>rsps srv1 rsp srv2.
      run_ops (serve_one desk_crypto Some) [(''/revoke'', demo_revoke, demo_desk), (''/enroll'', demo_reenroll, demo_desk)] demo_server = (rsps, srv1)
    \<and> serve desk_crypto Some srv1 ''/ingest'' demo_ingest demo_desk = (rsp, srv2, demo_desk) \<and> rsStatus rsp = 403"
proof -
  have "isRevoked (snd (handleRevoke demo_server demo_revoke)) ''web-1''" by code_simp
  moreover obtain rsp0 srv0 where h: "handleRevoke demo_server demo_revoke = (rsp0, srv0)" by force
  ultimately have rv: "isRevoked srv0 ''web-1''" by simp
  have s0: "serve desk_crypto Some demo_server ''/revoke'' demo_revoke demo_desk = (rsp0, srv0, demo_desk)" by (simp add: serve_def h)
  obtain rsps srv1 where s1: "run_ops (serve_one desk_crypto Some) [(''/enroll'', demo_reenroll, demo_desk)] srv0 = (rsps, srv1)" by force
  have cn: "clientCN demo_ingest = Some ''web-1''" "inMethod demo_ingest = ''POST''"
    by (simp_all add: demo_ingest_def clientCN_def demo_peer_def with_key_def desk_template_def client_template_def)
  obtain rsp srv2 where "serve desk_crypto Some srv1 ''/ingest'' demo_ingest demo_desk = (rsp, srv2, demo_desk)" "rsStatus rsp = 403"
    using revocation_is_final [OF rv s1 cn] by blast
  moreover have "run_ops (serve_one desk_crypto Some) [(''/revoke'', demo_revoke, demo_desk), (''/enroll'', demo_reenroll, demo_desk)] demo_server
    = (rsp0 # rsps, srv1)" 
    using s1 by (simp add: s0 serve_one_def del: run_ops.simps(1) split: prod.splits)
  ultimately show ?thesis by blast
qed

text \<open>
  C35. Certificates are issued to the authenticated only.  Whenever the platform reports that it issued
  one, the request was a post, and either it went to \<open>/enroll\<close> with exactly the configured bearer
  token, or it went to \<open>/renew\<close> over a verified client certificate whose name is not revoked; every
  other request leaves nothing issued.
\<close>

theorem certificates_only_for_authenticated:
  assumes "serve cr gunzip srv path r n = (rsp, srv', n')" and "LogIssued kind who \<in> set (drop (length (srvLog srv)) (srvLog srv'))"
  shows "inMethod r = ''POST'' \<and> rsStatus rsp = 200
    \<and> (path = ''/enroll'' \<and> kind = ''enroll'' \<and> header (inHeader r) ''Authorization'' = ''Bearer '' @ srvToken srv
       \<or> path = ''/renew'' \<and> kind = ''renew'' \<and> clientCN r = Some who \<and> \<not> isRevoked srv who)"
proof -
  have i: "kind = k \<and> who = a \<and> rsStatus rsp = 200" if "issue cr srv csr k a n = (rsp, srv', n')" for csr k a
    using issue_frame [OF that] assms(2) by auto
  show ?thesis
    using assms i
    by (auto simp: serve_def handleEnroll_def handleRenew_def handleIngest_def handleRevoke_def Let_def http_error_def
        split: if_splits option.splits prod.splits)
qed

text \<open>A renewal over the certificate of one host with a request in the name of another.\<close>

definition demo_renew :: "(unit, nat) incoming" where
  "demo_renew = \<lparr>inMethod = ''POST'', inHeader = [], inBody = csr_body demo_csr ''web-1'', inPeers = [demo_peer ''db-9'']\<rparr>"

lemma demo_renewed:
  obtains rsp srv' n' where "serve desk_crypto Some demo_server ''/renew'' demo_renew demo_desk = (rsp, srv', n')"
    and "rsStatus rsp = 200" and "srvLog srv' = [LogIssued ''renew'' ''db-9'']" and "decodeCSR demo_renew = Some (demo_csr, ''web-1'')"
proof -
  have d: "decodeCSR demo_renew = Some (demo_csr, ''web-1'')" by code_simp
  have cn: "clientCN demo_renew = Some ''db-9''" "inMethod demo_renew = ''POST''"
    by (simp_all add: demo_renew_def clientCN_def demo_peer_def with_key_def desk_template_def client_template_def)
  obtain rsp srv' n' where s: "serve desk_crypto Some demo_server ''/renew'' demo_renew demo_desk = (rsp, srv', n')" by (metis prod_cases3)
  then have i: "issue desk_crypto demo_server demo_csr ''renew'' ''db-9'' demo_desk = (rsp, srv', n')"
    using d cn by (simp add: serve_def handleRenew_def isRevoked_def demo_server_def)
  have ca: "srvCA demo_server = demo_ca" by (simp add: demo_server_def)
  have "rsStatus rsp = 200"
  proof -
    have "is_ok (fst (SignCSR desk_crypto demo_ca demo_csr certTTL demo_desk))" unfolding certTTL_def by (rule demo_signed)
    then show ?thesis using i by (auto simp: issue_def ca is_ok_iff split: prod.splits)
  qed
  then show thesis using that [OF s] issue_frame [OF i] d by (auto simp: demo_server_def)
qed

theorem certificates_only_for_authenticated_witness:
  "\<exists>rsp srv' n'. serve desk_crypto Some demo_server ''/renew'' demo_renew demo_desk = (rsp, srv', n') \<and> rsStatus rsp = 200
    \<and> \<not> isRevoked demo_server ''db-9''"
proof -
  obtain rsp srv' n' where s: "serve desk_crypto Some demo_server ''/renew'' demo_renew demo_desk = (rsp, srv', n')"
    and l: "srvLog srv' = [LogIssued ''renew'' ''db-9'']" by (rule demo_renewed)
  have "LogIssued ''renew'' ''db-9'' \<in> set (drop (length (srvLog demo_server)) (srvLog srv'))" by (simp add: l demo_server_def)
  from certificates_only_for_authenticated [OF s this] s show ?thesis by auto
qed

text \<open>What an issuing response carries.\<close>

lemma issue_response:
  assumes "issue cr srv csrPEM kind who n = (rsp, srv', n')" and "rsStatus rsp = 200"
  obtains certPEM where "SignCSR cr (srvCA srv) csrPEM certTTL n = (Inr certPEM, n')"
    and "rsBody rsp = print_json (JObj [(''ca_pem'', JStr (caCertPEM (srvCA srv))), (''cert_pem'', JStr certPEM)]) @ [CHR 0x0A]"
  using assms by (auto simp: issue_def http_error_def split: prod.splits sum.splits)

text \<open>
  C36. \<open>/renew\<close> signs whatever name is asked for.  The certificate it issues carries the subject of the
  CSR in the body; the name in the client certificate that authenticated the request is looked up in
  the deny list and written to the log, but never compared with it.
\<close>

theorem renew_signs_the_name_in_the_request:
  assumes "crypto_ok cr" and "serve cr gunzip srv ''/renew'' r n = (rsp, srv', n')" and "rsStatus rsp = 200"
  shows "\<exists>cn csrPEM agent blk csr certPEM der c. clientCN r = Some cn \<and> srvLog srv' = srvLog srv @ [LogIssued ''renew'' cn]
    \<and> decodeCSR r = Some (csrPEM, agent) \<and> pemDecode cr csrPEM = Some blk \<and> cryParseCSR cr blk = Some csr
    \<and> rsBody rsp = print_json (JObj [(''ca_pem'', JStr (caCertPEM (srvCA srv))), (''cert_pem'', JStr certPEM)]) @ [CHR 0x0A]
    \<and> pemDecode cr certPEM = Some der \<and> cryParseCert cr der = Some c \<and> Subject c = csrSubject csr"
proof -
  obtain cn csrPEM agent where h: "clientCN r = Some cn" "decodeCSR r = Some (csrPEM, agent)"
    and i: "issue cr srv csrPEM ''renew'' cn n = (rsp, srv', n')"
    using assms(2,3) by (auto simp: serve_def handleRenew_def http_error_def split: if_splits option.splits)
  from i assms(3) obtain certPEM where s: "SignCSR cr (srvCA srv) csrPEM certTTL n = (Inr certPEM, n')"
    and b: "rsBody rsp = print_json (JObj [(''ca_pem'', JStr (caCertPEM (srvCA srv))), (''cert_pem'', JStr certPEM)]) @ [CHR 0x0A]"
    by (rule issue_response)
  from s obtain blk csr serial n1 t1 n2 t2 n3 der where r: "pemDecode cr csrPEM = Some blk" "cryParseCSR cr blk = Some csr"
    and c: "cryCreateCert cr (client_template serial (csrSubject csr) (t1 - minute) (t2 + sint certTTL))
      (template.truncate (caCert (srvCA srv))) (csrPublicKey csr) (caKey (srvCA srv)) n3 = (Some der, n')"
    and p: "certPEM = pemEncode cr pemTypeCert der" by (rule SignCSR_ok)
  have "pemDecode cr certPEM = Some der" unfolding p by (rule crypto_okD(1) [OF assms(1)])
  moreover have "srvLog srv' = srvLog srv @ [LogIssued ''renew'' cn]" using issue_frame [OF i] assms(3) by auto
  moreover have "\<exists>x. cryParseCert cr der = Some x \<and> Subject x = csrSubject csr"
    using crypto_okD(4) [OF assms(1) c] by (simp add: with_key_def client_template_def)
  ultimately show ?thesis using h r b by blast
qed

theorem renew_signs_the_name_in_the_request_witness:
  "\<exists>rsp srv' n' certPEM der c. serve desk_crypto Some demo_server ''/renew'' demo_renew demo_desk = (rsp, srv', n')
    \<and> clientCN demo_renew = Some ''db-9'' \<and> rsBody rsp
      = print_json (JObj [(''ca_pem'', JStr (caCertPEM demo_ca)), (''cert_pem'', JStr certPEM)]) @ [CHR 0x0A]
    \<and> desk_unpem certPEM = Some der \<and> desk_parse_cert der = Some c \<and> CommonName (Subject c) = ''web-1''"
proof -
  obtain rsp srv' n' where s: "serve desk_crypto Some demo_server ''/renew'' demo_renew demo_desk = (rsp, srv', n')"
    and ok: "rsStatus rsp = 200" and l: "srvLog srv' = [LogIssued ''renew'' ''db-9'']"
    and d: "decodeCSR demo_renew = Some (demo_csr, ''web-1'')" by (rule demo_renewed)
  have csr: "Option.bind (desk_unpem demo_csr) (cryParseCSR desk_crypto)
    = Some \<lparr>csrSubject = \<lparr>CommonName = ''web-1'', OtherNames = []\<rparr>, csrPublicKey = 42, csrSignatureOk = True\<rparr>" by code_simp
  have f: "pemDecode desk_crypto = desk_unpem" "cryParseCert desk_crypto = desk_parse_cert" "srvCA demo_server = demo_ca"
    by (simp_all add: desk_crypto_def demo_server_def)
  obtain cn csrPEM agent blk csr certPEM der c where w: "clientCN demo_renew = Some cn"
    "srvLog srv' = srvLog demo_server @ [LogIssued ''renew'' cn]" "decodeCSR demo_renew = Some (csrPEM, agent)"
    "desk_unpem csrPEM = Some blk" "cryParseCSR desk_crypto blk = Some csr"
    "rsBody rsp = print_json (JObj [(''ca_pem'', JStr (caCertPEM demo_ca)), (''cert_pem'', JStr certPEM)]) @ [CHR 0x0A]"
    "desk_unpem certPEM = Some der" "desk_parse_cert der = Some c" "Subject c = csrSubject csr"
    using renew_signs_the_name_in_the_request [OF desk_crypto_ok s ok] unfolding f by blast
  have "cn = ''db-9''" using w(2) l by (simp add: demo_server_def)
  moreover have "CommonName (Subject c) = ''web-1''" using w(3,4,5,9) d csr by auto
  ultimately show ?thesis using s w(1,6,7,8) by blast
qed

end
