(* ===== verification/Platform.thy ===== *)
theory Platform
  imports Mock_Theorems Sink_Drain
begin

text \<open>
  The agent against the platform: the HTTPS round trip of the agent answered by the handlers of
  \<open>Mock_Platform\<close>.  The TLS handshake is a parameter: under a configuration and a platform CA it fails,
  or yields the client certificates the server verified.
\<close>

subsection \<open>Putting the two together\<close>

type_synonym ('k, 'p, 'i, 'pool, 'n) handshake =
  "'pool tls_config \<Rightarrow> ('k, 'p, 'i) ca \<Rightarrow> 'n \<Rightarrow> ('i, 'p) certificate list option \<times> 'n"

definition mock_do ::
  "('k, 'p, 'i, 'pool, 'n) crypto \<Rightarrow> (bytes \<Rightarrow> bytes option) \<Rightarrow> ('k, 'p, 'i, 'pool, 'n) handshake \<Rightarrow> string
    \<Rightarrow> 'pool tls_config \<Rightarrow> request \<Rightarrow> ('k, 'p, 'i) server \<times> 'n \<Rightarrow> (int \<times> bytes) option \<times> ('k, 'p, 'i) server \<times> 'n"
where
  "mock_do cr gunzip hs base conf req sn =
     (case hs conf (srvCA (fst sn)) (snd sn) of
        (None, n1) \<Rightarrow> (None, fst sn, n1)
      | (Some peers, n1) \<Rightarrow>
          if \<not> has_prefix (rqURL req) base then (None, fst sn, n1)
          else (case serve cr gunzip (fst sn) (drop (length base) (rqURL req))
                  \<lparr>inMethod = rqMethod req, inHeader = rqHeader req, inBody = rqBody req, inPeers = peers\<rparr> n1 of
              (rsp, srv1, n2) \<Rightarrow> (Some (rsStatus rsp, rsBody rsp), srv1, n2)))"

text \<open>The network of the shipper; \<open>conf\<close> is the configuration of its identity.\<close>

definition mock_net ::
  "('k, 'p, 'i, 'pool, 'n) crypto \<Rightarrow> (bytes \<Rightarrow> bytes option) \<Rightarrow> ('k, 'p, 'i, 'pool, 'n) handshake \<Rightarrow> string
    \<Rightarrow> 'pool tls_config \<Rightarrow> (bytes \<Rightarrow> 'z option) \<Rightarrow> ('z \<Rightarrow> bytes option) \<Rightarrow> (('k, 'p, 'i) server \<times> 'n, 'z) net"
where
  "mock_net cr gunzip hs base conf gw gc =
     \<lparr>netNow = \<lambda>sn. (case cryNow cr (snd sn) of (t, n1) \<Rightarrow> (t, fst sn, n1)),
      netUrlOk = \<lambda>_. True,
      netDo = \<lambda>req sn. (case mock_do cr gunzip hs base conf req sn of (r, sn1) \<Rightarrow> (map_option fst r, sn1)),
      gzWrite = gw, gzClose = gc\<rparr>"

subsection \<open>The envelope as the platform reads it\<close>

lemma event_json_form:
  assumes "event_json e = Some j"
  obtains ts ca where "format_time (Timestamp e) = Some ts" and "format_time (CollectedAt e) = Some ca"
    and "j = JObj [(''id'', JStr (ID e)), (''source'', JStr (Source e)), (''timestamp'', JStr ts),
       (''collected_at'', JStr ca), (''host'', JStr (Host e)), (''payload'', payload_json (Payload e))]"
  using assms by (auto simp: event_json_def split: bind_splits)

lemma event_json_ok: "event_ok e \<Longrightarrow> event_json e = Some j \<Longrightarrow> json_ok j"
  by (erule event_json_form) (simp add: event_ok_def ascii_time json_ok_payload)

lemma any_ok_payload: "payload_ok p \<Longrightarrow> any_ok (payload_json p)"
  by (auto simp: payload_ok_def payload_json_def split: option.splits)

lemma event_entry:
  assumes "event_ok e" and "event_json e = Some j"
  shows "\<exists>m. into_map None j = Some (Some m) \<and> map_of m ''id'' = Some (JStr (ID e)) \<and> map_of m ''source'' = Some (JStr (Source e))"
proof -
  from assms(2) obtain ts ca where j: "j = JObj [(''id'', JStr (ID e)), (''source'', JStr (Source e)), (''timestamp'', JStr ts),
       (''collected_at'', JStr ca), (''host'', JStr (Host e)), (''payload'', payload_json (Payload e))]"
    by (rule event_json_form)
  have "any_ok j" using any_ok_payload assms(1) by (simp add: j event_ok_def)
  then show ?thesis by (simp add: j into_map_def put_all_def)
qed

lemma sequence_cong: "sequence (map f xs) = Some ys \<longleftrightarrow> map f xs = map Some ys"
proof (induction xs arbitrary: ys)
  case (Cons x xs)
  then show ?case by (cases ys) (auto split: option.splits)
qed auto

lemma into_events_first: "into_events [] (JArr js) = sequence (map (into_map None) js)"
proof -
  have "map (\<lambda>(k, e). into_map (if k < length [] then [] ! k else None) e) (enumerate n js) = map (into_map None) js" for n
    by (induction js arbitrary: n) auto
  then show ?thesis by (simp add: into_events_def)
qed

definition read_as :: "event \<Rightarrow> json gomap option \<Rightarrow> bool" where
  "read_as e m \<longleftrightarrow> entry m ''id'' = Some (JStr (ID e)) \<and> entry m ''source'' = Some (JStr (Source e))"

lemma events_read:
  assumes "\<forall>e\<in>set evs. event_ok e" and "sequence (map event_json evs) = Some js"
  shows "\<exists>ms. into_events [] (JArr js) = Some ms \<and> list_all2 read_as evs ms"
  using assms unfolding into_events_first
proof (induction evs arbitrary: js)
  case (Cons e evs)
  obtain j js' where j: "event_json e = Some j" "js = j # js'" "sequence (map event_json evs) = Some js'"
    using Cons.prems(2) by (auto split: option.splits)
  obtain ms where ms: "sequence (map (into_map None) js') = Some ms" "list_all2 read_as evs ms"
    using Cons.IH [OF _ j(3)] Cons.prems(1) by auto
  obtain m where "into_map None j = Some (Some m)" "read_as e (Some m)"
    using event_entry [OF _ j(1)] Cons.prems(1) by (auto simp: read_as_def entry_def)
  then show ?case using ms j(2) by auto
qed simp

lemma envelope_read:
  assumes "\<forall>e\<in>set evs. event_ok e" and "utf8_ok agent" and "marshal_envelope agent sent evs = Some b"
  shows "\<exists>ms. read_envelope b = Some (agent, ms) \<and> list_all2 read_as evs ms"
proof -
  obtain at es where at: "format_time sent = Some at" and es: "sequence (map event_json evs) = Some es"
    and b: "b = print_json (JObj [(''agent_id'', JStr agent), (''sent_at'', JStr at),
       (''schema_version'', JNum (itoa schemaVersion)), (''events'', JArr es)])"
    using assms(3) by (auto simp: marshal_envelope_def envelope_json_def split: bind_splits)
  have "\<forall>j\<in>set es. json_ok j"
  proof
    fix j assume "j \<in> set es"
    moreover have "map event_json evs = map Some es" using es by (simp add: sequence_cong)
    ultimately obtain e where "e \<in> set evs" "event_json e = Some j" by (metis (no_types) imageE image_eqI list.set_map)
    then show "json_ok j" using assms(1) event_json_ok by blast
  qed
  moreover have "json_ok (JNum (itoa schemaVersion))" by code_simp
  moreover have "utf8_ok ''agent_id''" "utf8_ok ''sent_at''" "utf8_ok ''schema_version''" "utf8_ok ''events''" by code_simp+
  ultimately have ok: "json_ok (JObj [(''agent_id'', JStr agent), (''sent_at'', JStr at),
       (''schema_version'', JNum (itoa schemaVersion)), (''events'', JArr es)])"
    using assms(2) ascii_time [OF at] by (simp add: list_all_iff)
  obtain ms where ms: "into_events [] (JArr es) = Some ms" "list_all2 read_as evs ms" using events_read [OF assms(1) es] by blast
  have k: "key_is ''agent_id'' ''agent_id''" "\<not> key_is ''sent_at'' ''agent_id''" "\<not> key_is ''sent_at'' ''events''"
    "\<not> key_is ''schema_version'' ''agent_id''" "\<not> key_is ''schema_version'' ''events''" "\<not> key_is ''events'' ''agent_id''"
    "key_is ''events'' ''events''" by code_simp+
  have "read_envelope b = decode_envelope ([], []) [(''agent_id'', JStr agent), (''sent_at'', JStr at),
       (''schema_version'', JNum (itoa schemaVersion)), (''events'', JArr es)]"
    unfolding b read_envelope_def by (simp only: json_first_print [OF ok] option.case json.case)
  also have "\<dots> = Some (agent, ms)" using ms(1) by (simp add: k into_string_def)
  finally show ?thesis using ms(2) by blast
qed

subsection \<open>Sending to the platform\<close>

text \<open>What \<open>compress/gzip\<close> compressed, a reader decompresses.\<close>

definition faithful_gzip :: "(bytes \<Rightarrow> 'z option) \<Rightarrow> ('z \<Rightarrow> bytes option) \<Rightarrow> (bytes \<Rightarrow> bytes option) \<Rightarrow> bool" where
  "faithful_gzip gw gc gunzip \<longleftrightarrow> (\<forall>b z y. gw b = Some z \<and> gc z = Some y \<longrightarrow> gunzip y = Some b)"

lemma ingest_body_sent:
  assumes "faithful_gzip (gzWrite net) (gzClose net) gunzip"
  shows "ingest_body gunzip \<lparr>inMethod = m, inHeader = rqHeader (ingest_request net s body),
    inBody = rqBody (ingest_request net s body), inPeers = ps\<rparr> = Some body"
  using assms by (auto simp: ingest_body_def ingest_request_def header_def gzipBytes_def faithful_gzip_def
      Option.bind_eq_Some_conv split: option.splits)

lemma ingest_request_sel:
  "rqMethod (ingest_request net s body) = ''POST''" "rqURL (ingest_request net s body) = sEndpoint s"
  by (simp_all add: ingest_request_def split: option.splits)

text \<open>The platform's answer to a batch it can read.\<close>

lemma mock_ingest:
  assumes "faithful_gzip (gzWrite net) (gzClose net) gunzip" and "hs conf (srvCA srv) n = (Some (c # cs), n1)"
    and "sEndpoint s = base @ ''/ingest''" and "read_envelope body = Some (agent, ms)"
  shows "mock_do cr gunzip hs base conf (ingest_request net s body) (srv, n)
    = (if isRevoked srv (CommonName (Subject c))
       then (Some (403, rsBody (http_error ''agent revoked'' 403)), log_to srv [LogRefused ''ingest'' (CommonName (Subject c))], n1)
       else (Some (202, []), log_to srv (LogAccepted (length ms) agent (CommonName (Subject c))
         # map (\<lambda>ev. LogEvent (entry ev ''id'') (entry ev ''source'')) ms), n1))"
proof -
  have "has_prefix (base @ ''/ingest'') base" "drop (length base) (base @ ''/ingest'') = ''/ingest''"
    by (simp_all add: has_prefix_iff)
  then show ?thesis
    using assms(2,4) ingest_body_sent [OF assms(1), of "''POST''" s body "c # cs"]
    by (simp add: mock_do_def ingest_request_sel assms(3) serve_def handleIngest_def clientCN_def http_error_def)
qed

lemma Send_to_platform:
  assumes "faithful_gzip gw gc gunzip" and "hs conf (srvCA srv) n1 = (Some (c # cs), n2)" and "evs \<noteq> []"
    and "cryNow cr n = (t, n1)" and "marshal_envelope agent t evs = Some body" and "read_envelope body = Some (a, ms)"
  shows "Send (mock_net cr gunzip hs base conf gw gc) (New (base @ ''/ingest'') agent) evs (srv, n)
    = (if isRevoked srv (CommonName (Subject c))
       then (Inl (ErrUnauthorized (IngestReturned 403)), log_to srv [LogRefused ''ingest'' (CommonName (Subject c))], n2)
       else (Inr (), log_to srv (LogAccepted (length ms) a (CommonName (Subject c))
         # map (\<lambda>ev. LogEvent (entry ev ''id'') (entry ev ''source'')) ms), n2))"
proof -
  let ?net = "mock_net cr gunzip hs base conf gw gc" and ?s = "New (base @ ''/ingest'') agent"
  have g: "faithful_gzip (gzWrite ?net) (gzClose ?net) gunzip" using assms(1) by (simp add: mock_net_def)
  have e: "sEndpoint ?s = base @ ''/ingest''" "sAgentID ?s = agent" by (simp_all add: New_def)
  have now: "netNow ?net (srv, n) = (t, (srv, n1))" using assms(4) by (simp add: mock_net_def)
  have url: "netUrlOk ?net u" for u by (simp add: mock_net_def)
  have do: "netDo ?net req sn = (case mock_do cr gunzip hs base conf req sn of (r, sn1) \<Rightarrow> (map_option fst r, sn1))" for req sn
    by (simp add: mock_net_def)
  note mi = mock_ingest [where hs = hs and conf = conf and base = base and cr = cr, OF g assms(2) e(1) assms(6)]
  show ?thesis
    using assms(3,5) by (simp add: Send_def now e(2) url do mi classify_def)
qed

text \<open>
  C29. What was acknowledged has arrived.  When \<open>Send\<close> reports success for a batch, the platform has
  decompressed and decoded exactly that batch: it was sent under a certificate that is not revoked,
  and the platform's log gains one line with the batch's size and then, in order, the ID and source
  of every event in it and of no other.
\<close>

theorem acknowledged_batch_has_arrived:
  assumes "faithful_gzip gw gc gunzip" and "evs \<noteq> []" and "\<forall>e\<in>set evs. event_ok e" and "utf8_ok agent"
    and "Send (mock_net cr gunzip hs base conf gw gc) (New (base @ ''/ingest'') agent) evs (srv, n) = (Inr (), srv', n')"
  shows "\<exists>cn. \<not> isRevoked srv cn \<and> srvLog srv' = srvLog srv @ LogAccepted (length evs) agent cn
    # map (\<lambda>e. LogEvent (Some (JStr (ID e))) (Some (JStr (Source e)))) evs"
proof -
  let ?net = "mock_net cr gunzip hs base conf gw gc" and ?s = "New (base @ ''/ingest'') agent"
  obtain t n1 where now: "cryNow cr n = (t, n1)" by force
  have sn: "netNow ?net (srv, n) = (t, (srv, n1))" using now by (simp add: mock_net_def)
  have a: "sAgentID ?s = agent" "sEndpoint ?s = base @ ''/ingest''" by (simp_all add: New_def)
  obtain body where m: "marshal_envelope agent t evs = Some body"
    using assms(2,5) by (cases "marshal_envelope agent t evs") (auto simp: Send_def sn a(1))
  obtain ms where ms: "read_envelope body = Some (agent, ms)" "list_all2 read_as evs ms"
    using envelope_read [OF assms(3,4) m] by blast
  obtain peers n2 where hs: "hs conf (srvCA srv) n1 = (peers, n2)" by force
  have "\<exists>c cs. peers = Some (c # cs)"
  proof (cases peers)
    case None
    then have "netDo ?net req (srv, n1) = (None, srv, n2)" for req using hs by (simp add: mock_net_def mock_do_def)
    then show ?thesis using assms(2,5) by (simp add: Send_def Let_def sn a m split: if_splits)
  next
    case (Some ps)
    then show ?thesis
    proof (cases ps)
      case Nil
      have "has_prefix (base @ ''/ingest'') base" by (simp add: has_prefix_iff)
      then have "fst (netDo ?net (ingest_request ?net ?s body) (srv, n1)) = Some 401"
        using hs Some Nil
        by (simp add: mock_net_def mock_do_def ingest_request_sel a serve_def handleIngest_def clientCN_def http_error_def)
      moreover have "netUrlOk ?net u" for u by (simp add: mock_net_def)
      ultimately show ?thesis
        using assms(2,5) by (auto simp: Send_def sn a m classify_def split: prod.splits)
    qed simp
  qed
  then obtain c cs where p: "peers = Some (c # cs)" by blast
  note st = Send_to_platform [where hs = hs and conf = conf and base = base, OF assms(1) hs [unfolded p] assms(2) now m ms(1)]
  have nr: "\<not> isRevoked srv (CommonName (Subject c))" and l: "srvLog srv' = srvLog srv @ LogAccepted (length ms) agent (CommonName (Subject c))
      # map (\<lambda>ev. LogEvent (entry ev ''id'') (entry ev ''source'')) ms"
    using assms(5) unfolding st by (auto split: if_splits)
  have "map (\<lambda>ev. LogEvent (entry ev ''id'') (entry ev ''source'')) ms = map (\<lambda>e. LogEvent (Some (JStr (ID e))) (Some (JStr (Source e)))) evs"
    using ms(2) by (induction rule: list_all2_induct) (auto simp: read_as_def)
  moreover have "length ms = length evs" using ms(2) by (simp add: list_all2_lengthD)
  ultimately show ?thesis using nr l by auto
qed

definition demo_handshake :: "string \<Rightarrow> (nat, nat, unit, bytes, desk) handshake" where
  "demo_handshake cn conf ca n = (Some [demo_peer cn], n)"

definition demo_tls :: "bytes tls_config" where
  "demo_tls = \<lparr>tlsRoots = [], tlsChain = None\<rparr>"

definition demo_platform_net :: "((nat, nat, unit) server \<times> desk, bytes) net" where
  "demo_platform_net = mock_net desk_crypto Some (demo_handshake ''web-1'') ''https://p:8443'' demo_tls Some Some"

lemma faithful_identity: "faithful_gzip Some Some Some"
  by (simp add: faithful_gzip_def)

theorem acknowledged_batch_has_arrived_witness:
  "\<exists>srv' n'. Send demo_platform_net (New (''https://p:8443'' @ ''/ingest'') ''web-1'') [demo_event] (demo_server, demo_desk) = (Inr (), srv', n')
    \<and> last (srvLog srv') = LogEvent (Some (JStr demo_id)) (Some (JStr ''auth.journald''))"
proof -
  let ?send = "Send demo_platform_net (New (''https://p:8443'' @ ''/ingest'') ''web-1'') [demo_event] (demo_server, demo_desk)"
  have "fst ?send = Inr ()" by code_simp
  then obtain srv' n' where s: "?send = (Inr (), srv', n')" by (metis prod.collapse)
  have u: "utf8_ok ''web-1''" by code_simp
  have "\<forall>e\<in>set [demo_event]. event_ok e" using demo_event_ok by simp
  from acknowledged_batch_has_arrived [OF faithful_identity _ this u s [unfolded demo_platform_net_def]] s
  show ?thesis by (auto simp: demo_event_def)
qed

text \<open>
  C30. A revoked agent stops and keeps everything.  When the host's name is on the platform's deny list,
  the next tick sends one batch, gets the 403, and ends the sink in the halted state; the readable
  pending events are all still in the queue, in the same order, and the platform has taken none.
\<close>

theorem revoked_agent_halts_and_keeps_its_events:
  fixes s :: "((('k, 'p, 'i) server \<times> 'n) \<times> history) sink_state"
  assumes "healthy (ssQueue s) (ssWorld s)" and "genuine (ssQueue s) (ssWorld s)" and "decodable (abs_queue (ssQueue s) (ssWorld s)) \<noteq> []"
    and "ssNet s = ((srv, n), h)" and "isRevoked srv (CommonName (Subject c))" and "faithful_gzip gw gc gunzip" and "utf8_ok agent"
    and "cryNow cr n = (t, n1)" and "format_time t \<noteq> None" and "hs conf (srvCA srv) n1 = (Some (c # cs), n2)"
  shows "\<exists>s'. runSink (recorded (Send (mock_net cr gunzip hs base conf gw gc) (New (base @ ''/ingest'') agent)))
      cfg rnd expired (Suc fuel) (Tick # ws) s = Some (SinkHalted, s')
    \<and> decodable (abs_queue (ssQueue s') (ssWorld s')) = decodable (abs_queue (ssQueue s) (ssWorld s))
    \<and> length (snd (ssNet s')) = Suc (length h)"
proof -
  let ?deliver = "Send (mock_net cr gunzip hs base conf gw gc) (New (base @ ''/ingest'') agent)"
  have ok: "queue_ok (ssQueue s)" using assms(1) by (simp add: healthy_def)
  have good: "event_ok e \<and> event_json e \<noteq> None" if mem: "e \<in> set (decoded (decodable (abs_queue (ssQueue s) (ssWorld s))))" for e
  proof -
    obtain m d where md: "live (ssQueue s) (ssWorld s) m = Some d" "e = the (unmarshal_event d)"
      using mem by (auto simp: decoded_def decodable_def set_abs [OF ok])
    obtain ev where ev: "marshal_event ev = Some d" "event_ok ev" using assms(2) md(1) by (auto simp: genuine_def)
    then have "e = ev" using unmarshal_marshal_event md(2) by fastforce
    then show ?thesis using ev by (auto simp: marshal_event_def)
  qed
  have "\<exists>f. fst (?deliver evs (fst (ssNet s))) = Inl (ErrUnauthorized f)"
    if "evs \<noteq> []" "set evs \<subseteq> set (decoded (decodable (abs_queue (ssQueue s) (ssWorld s))))" for evs
  proof -
    have evs: "\<forall>e\<in>set evs. event_ok e \<and> event_json e \<noteq> None" using good that(2) by blast
    then have "\<exists>js. sequence (map event_json evs) = Some js" by (induction evs) auto
    then obtain body where b: "marshal_envelope agent t evs = Some body"
      using assms(9) by (auto simp: marshal_envelope_def envelope_json_def)
    obtain ms where ms: "read_envelope body = Some (agent, ms)" using envelope_read [OF _ assms(7) b] evs by blast
    show ?thesis
      using Send_to_platform [where hs = hs and conf = conf and base = base, OF assms(6,10) that(1) assms(8) b ms] assms(4,5) by simp
  qed
  from halting_pass [where s = s and deliver = ?deliver and cfg = cfg and rnd = rnd and expired = expired and fuel = fuel and ws = ws,
      OF assms(1,3) this] show ?thesis using assms(4) by fastforce
qed

theorem revoked_agent_halts_and_keeps_its_events_witness:
  "\<exists>s'. runSink (recorded (Send demo_platform_net (New (''https://p:8443'' @ ''/ingest'') ''web-1'')))
      demo_config (\<lambda>_. 0) (\<lambda>_. False) 1 [Tick, Tick] (demo_sink ((demo_server\<lparr>srvRevoked := [''web-1'']\<rparr>, demo_desk), [])) = Some (SinkHalted, s')
    \<and> decodable (abs_queue (ssQueue s') (ssWorld s')) = [(fileName demo_event, demo_bytes)]"
proof -
  let ?srv = "demo_server\<lparr>srvRevoked := [''web-1'']\<rparr>"
  let ?s = "demo_sink ((?srv, demo_desk), [] :: history)"
  have g: "genuine (ssQueue ?s) (ssWorld ?s)"
    using demo_genuine by (cases demo_written) (simp add: demo_sink_def)
  have d: "decodable (abs_queue (ssQueue ?s) (ssWorld ?s)) = [(fileName demo_event, demo_bytes)]"
    unfolding demo_sink_state(3) by (simp add: decodable_def demo_decode)
  have cn: "CommonName (Subject (demo_peer ''web-1'')) = ''web-1''"
    by (simp add: demo_peer_def with_key_def desk_template_def client_template_def)
  have ft: "format_time (dkClock demo_desk) \<noteq> None" by code_simp
  have u: "utf8_ok ''web-1''" by code_simp
  have now: "cryNow desk_crypto demo_desk = (dkClock demo_desk, demo_desk)" by (simp add: desk_crypto_def)
  have hs: "demo_handshake ''web-1'' demo_tls (srvCA ?srv) demo_desk = (Some (demo_peer ''web-1'' # []), demo_desk)"
    by (simp add: demo_handshake_def)
  have ne: "decodable (abs_queue (ssQueue ?s) (ssWorld ?s)) \<noteq> []" by (simp add: d)
  have net: "ssNet ?s = ((?srv, demo_desk), [])" by (simp add: demo_sink_def)
  have rv: "isRevoked ?srv (CommonName (Subject (demo_peer ''web-1'')))" by (simp add: isRevoked_def cn)
  from revoked_agent_halts_and_keeps_its_events [where hs = "demo_handshake ''web-1''" and conf = demo_tls and base = "''https://p:8443''"
      and cfg = demo_config and rnd = "\<lambda>_. 0" and expired = "\<lambda>_. False" and fuel = 0 and ws = "[Tick]",
      OF demo_sink_state(1) g ne net rv faithful_identity u now ft hs]
  show ?thesis unfolding demo_platform_net_def d by auto
qed

end
