(* ===== verification/Enroll_Theorems.thy ===== *)
theory Enroll_Theorems
  imports Enroll Pki_Theorems Refinement
begin

text \<open>
  The identity the agent uses is the one on disk, renewal never breaks it, and what a re-enrolment
  that stops between the two files leaves behind.
\<close>

subsection \<open>The three files\<close>

abbreviation key_path :: "config \<Rightarrow> string" where "key_path cfg \<equiv> join_path [CertDir cfg, keyFile]"
abbreviation cert_path :: "config \<Rightarrow> string" where "cert_path cfg \<equiv> join_path [CertDir cfg, certFile]"
abbreviation ca_path :: "config \<Rightarrow> string" where "ca_path cfg \<equiv> join_path [CertDir cfg, caFile]"

lemma names_valid: "valid_name keyFile" "valid_name certFile" "valid_name caFile"
  by code_simp+

lemma path_form: "valid_name m \<Longrightarrow> join_path [d, m] = dir_prefix (clean d) @ m"
  using join_path_clean [of m d] join_path_name [of "clean d" m] by simp

lemma paths_apart:
  "key_path cfg \<noteq> cert_path cfg" "key_path cfg \<noteq> ca_path cfg" "cert_path cfg \<noteq> ca_path cfg"
  "key_path cfg @ ''.tmp'' \<noteq> cert_path cfg" "key_path cfg @ ''.tmp'' \<noteq> ca_path cfg" "key_path cfg @ ''.tmp'' \<noteq> key_path cfg"
  "cert_path cfg @ ''.tmp'' \<noteq> key_path cfg" "cert_path cfg @ ''.tmp'' \<noteq> ca_path cfg" "cert_path cfg @ ''.tmp'' \<noteq> cert_path cfg"
  by (simp_all add: path_form names_valid) (simp_all add: keyFile_def certFile_def caFile_def)

lemma base_names: "base_name (key_path cfg) = keyFile" "base_name (cert_path cfg) = certFile"
  using base_name_join [of "clean (CertDir cfg)"] names_valid join_path_clean by simp_all

lemma rename_other_file:
  assumes "os_rename q p w = (r, w')" and "x \<noteq> q" and "x \<noteq> p"
  shows "contents x w' = contents x w"
proof (cases r)
  case (Inl e)
  then show ?thesis using rename_failed_contents assms(1) by blast
next
  case (Inr u)
  with os_rename_ok [of q p w u w'] assms show ?thesis by (auto simp: contents_def map_of_update map_of_delete)
qed

lemma writeFileAtomic_contents:
  assumes "writeFileAtomic path data m w = (r, w')"
  shows "contents path w' = (if is_ok r then Some data else contents path w)"
    and "x \<noteq> path \<Longrightarrow> x \<noteq> path @ ''.tmp'' \<Longrightarrow> contents x w' = contents x w"
proof -
  let ?tmp = "path @ ''.tmp''"
  obtain r1 w1 where wt: "os_write_file ?tmp data m w = (r1, w1)" by force
  obtain r2 w2 where rn: "os_rename ?tmp path w1 = (r2, w2)" by force
  obtain r3 w3 where rm: "os_remove ?tmp w2 = (r3, w3)" by force
  have kept: "contents x w1 = contents x w" if "x \<noteq> ?tmp" for x using wt that by (rule write_other_file)
  have fail: "contents x w3 = contents x w2" if "x \<noteq> ?tmp" for x using rm that by (rule remove_other_file)
  show "contents path w' = (if is_ok r then Some data else contents path w)"
  proof (cases r1; cases r2)
    fix u v assume "r1 = Inr u" "r2 = Inr v"
    then show ?thesis using assms wt rn write_then_rename [of ?tmp data m w u w1 path v w2]
      by (auto simp: writeFileAtomic_def)
  qed (use assms wt rn rm kept [of path] fail [of path] rename_failed_contents [of ?tmp path w1 _ w2 path] in
      \<open>auto simp: writeFileAtomic_def\<close>)
  show "contents x w' = contents x w" if "x \<noteq> path" "x \<noteq> ?tmp"
    using assms wt rn rm kept [OF that(2)] fail [OF that(2)] rename_other_file [OF rn that(2,1)]
    by (auto simp: writeFileAtomic_def Let_def split: sum.splits)
qed

definition put_pem :: "string \<Rightarrow> perm \<Rightarrow> bytes \<Rightarrow> world \<Rightarrow> bool \<times> world" where
  "put_pem path m data w = (case writeFileAtomic path data m w of (r, w') \<Rightarrow> (is_ok r, w'))"

interpretation pem: atomic_store "put_pem path m" "contents path" Some
  for path m
proof
  fix v s t
  show "put_pem path m v s = (True, t) \<Longrightarrow> contents path t = Some v"
    "put_pem path m v s = (False, t) \<Longrightarrow> contents path t = contents path s"
    using writeFileAtomic_contents(1) [of path v m s] by (auto simp: put_pem_def split: prod.splits)
qed

lemma contents_iff: "contents p w = Some b \<longleftrightarrow> (\<exists>a. lookup w p = Some (File a b))"
  by (auto simp: contents_def split: option.splits node.splits)

lemma read_contents: "os_read_file p w = (Inr b, w') \<Longrightarrow> contents p w = Some b"
  by (auto simp: contents_def dest: os_read_file_ok)

lemma quiet_read: "quiet w \<Longrightarrow> contents p w = Some b \<Longrightarrow>
    \<exists>w'. os_read_file p w = (Inr b, w') \<and> w_files w' = w_files w \<and> quiet w'"
  by (auto simp: os_read_file_def sys_quiet contents_def quiet_def split: option.splits node.splits)

lemma quiet_exists: "quiet w \<Longrightarrow> contents p w = Some b \<Longrightarrow>
    \<exists>w'. fileExists p w = (True, w') \<and> w_files w' = w_files w \<and> quiet w'"
  by (auto simp: fileExists_def os_stat_def sys_quiet contents_def quiet_def split: option.splits node.splits)

lemma fileExists_frame: "fileExists p w = (b, w') \<Longrightarrow> w_files w' = w_files w"
  by (auto simp: fileExists_def frame_simps split: prod.splits)

lemma readPEMs_ok:
  assumes "readPEMs cp kp ap w = (Inr (cert, key, ca), w')"
  shows "contents cp w = Some cert \<and> contents kp w = Some key \<and> contents ap w = Some ca \<and> w_files w' = w_files w"
proof -
  obtain w1 w2 where r: "os_read_file cp w = (Inr cert, w1)" "os_read_file kp w1 = (Inr key, w2)" "os_read_file ap w2 = (Inr ca, w')"
    using assms by (auto simp: readPEMs_def split: prod.splits sum.splits)
  have f: "w_files w1 = w_files w" "w_files w2 = w_files w" "w_files w' = w_files w"
    using r by (metis read_only_frame(3))+
  then show ?thesis using r read_contents contents_same by metis
qed

subsection \<open>Identities that load\<close>

text \<open>The identity is made of the key, the certificate and the CA in these three PEM texts.\<close>

definition made_from :: "('k, 'p, 'i, 'pool, 'n) crypto \<Rightarrow> bytes \<Rightarrow> bytes \<Rightarrow> bytes \<Rightarrow> ('k, 'p, 'i, 'pool) identity \<Rightarrow> bool" where
  "made_from cr certPEM keyPEM caPEM i \<longleftrightarrow>
     cryKeyPair cr certPEM keyPEM = Some (idChain i) \<and> cryParseCert cr (hd (idChain i)) = Some (idLeaf i)
     \<and> ParseKeyPEM cr keyPEM = Inr (idKey i) \<and> idKeyPEM i = keyPEM \<and> CAPool cr caPEM = Inr (idPool i)"

lemma newIdentity_made:
  "newIdentity cr certPEM keyPEM caPEM p = Inr i \<Longrightarrow> made_from cr certPEM keyPEM caPEM i \<and> idCertPath i = p"
  by (auto simp: newIdentity_def made_from_def split: option.splits sum.splits)

lemma stored_identity_frame:
  assumes "stored_identity cr cfg w n = (r, w', n')"
  shows "w_files w' = w_files w"
proof -
  obtain k w1 where k: "fileExists (key_path cfg) w = (k, w1)" by force
  obtain c w2 where c: "(if k then fileExists (cert_path cfg) w1 else (False, w1)) = (c, w2)" by force
  obtain a w3 where a: "(if c then fileExists (ca_path cfg) w2 else (False, w2)) = (a, w3)" by force
  have f: "w_files w1 = w_files w" "w_files w2 = w_files w1" "w_files w3 = w_files w2"
    using k c a fileExists_frame by (metis prod.inject)+
  obtain rp w4 where rp: "readPEMs (cert_path cfg) (key_path cfg) (ca_path cfg) w3 = (rp, w4)" by force
  have "w_files w4 = w_files w3" using rp
    by (auto simp: readPEMs_def frame_simps split: prod.splits sum.splits)
  then show ?thesis
    using assms k c a f rp by (auto simp: stored_identity_def Let_def split: if_splits sum.splits prod.splits)
qed

lemma stored_identity_valid:
  assumes "stored_identity cr cfg w n = (Inr (Some i), w', n')"
  shows "\<exists>certPEM keyPEM caPEM. contents (cert_path cfg) w = Some certPEM
      \<and> contents (key_path cfg) w = Some keyPEM \<and> contents (ca_path cfg) w = Some caPEM
      \<and> made_from cr certPEM keyPEM caPEM i \<and> idCertPath i = cert_path cfg"
proof -
  obtain k w1 where k: "fileExists (key_path cfg) w = (k, w1)" by force
  obtain c w2 where c: "(if k then fileExists (cert_path cfg) w1 else (False, w1)) = (c, w2)" by force
  obtain a w3 where a: "(if c then fileExists (ca_path cfg) w2 else (False, w2)) = (a, w3)" by force
  have "w_files w1 = w_files w" "w_files w2 = w_files w1" "w_files w3 = w_files w2"
    using k c a fileExists_frame by (metis prod.inject)+
  then have f: "contents x w3 = contents x w" for x by (simp add: contents_def)
  obtain rp w4 where rp: "readPEMs (cert_path cfg) (key_path cfg) (ca_path cfg) w3 = (rp, w4)" by force
  have "a" using assms k c a by (auto simp: stored_identity_def Let_def split: if_splits)
  with assms k c a rp obtain certPEM keyPEM caPEM
    where p: "rp = Inr (certPEM, keyPEM, caPEM)" and "newIdentity cr certPEM keyPEM caPEM (cert_path cfg) = Inr i"
    by (auto simp: stored_identity_def Let_def split: if_splits sum.splits prod.splits)
  moreover have "contents (cert_path cfg) w = Some certPEM" "contents (key_path cfg) w = Some keyPEM"
    "contents (ca_path cfg) w = Some caPEM" using readPEMs_ok [OF rp [unfolded p]] f by simp_all
  ultimately show ?thesis using newIdentity_made by blast
qed

lemma EnsureCertDir_contents: "EnsureCertDir cfg w = (Inr u, w') \<Longrightarrow> contents p w' = contents p w"
proof -
  assume "EnsureCertDir cfg w = (Inr u, w')"
  then have "same_regular (w_files w) (w_files w')" unfolding EnsureCertDir_def by (rule mkdir_all_ok)
  then have "contents p w' = Some b \<longleftrightarrow> contents p w = Some b" for b
    by (simp add: contents_iff same_regular_def)
  then show "contents p w' = contents p w" by (metis option.exhaust)
qed

lemma store_identity_contents:
  assumes "store_identity cfg keyPEM certPEM w = (r, w')"
  shows "contents (ca_path cfg) w' = contents (ca_path cfg) w"
    and "r = Inr u \<Longrightarrow> contents (key_path cfg) w' = Some keyPEM \<and> contents (cert_path cfg) w' = Some certPEM"
    and "r = Inl e \<Longrightarrow> contents (cert_path cfg) w' = contents (cert_path cfg) w
      \<and> contents (key_path cfg) w' = (if e \<in> range (WriteFailed certFile) \<union> range (CommitFailed certFile) then Some keyPEM
           else contents (key_path cfg) w)"
proof -
  obtain r1 w1 where k: "writeFileAtomic (key_path cfg) keyPEM (6 * 8 * 8) w = (r1, w1)" by force
  obtain r2 w2 where c: "writeFileAtomic (cert_path cfg) certPEM (6 * 8 * 8 + 4 * 8 + 4) w1 = (r2, w2)" by force
  note kc = writeFileAtomic_contents [OF k] and cc = writeFileAtomic_contents [OF c]
  have ka: "contents (ca_path cfg) w1 = contents (ca_path cfg) w" "contents (cert_path cfg) w1 = contents (cert_path cfg) w"
    using kc(2) paths_apart by metis+
  have ca: "contents (ca_path cfg) w2 = contents (ca_path cfg) w1" "contents (key_path cfg) w2 = contents (key_path cfg) w1"
    using cc(2) paths_apart by metis+
  have s: "(r, w') = (case r1 of Inl e \<Rightarrow> (Inl e, w1) | Inr _ \<Rightarrow> (r2, w2))"
    using assms k c by (cases r1) (auto simp: store_identity_def)
  show "contents (ca_path cfg) w' = contents (ca_path cfg) w" using s ka(1) ca(1) by (simp split: sum.splits)
  show "r = Inr u \<Longrightarrow> contents (key_path cfg) w' = Some keyPEM \<and> contents (cert_path cfg) w' = Some certPEM"
    using s kc(1) cc(1) ca(2) by (auto split: sum.splits)
  have n: "keyFile \<noteq> certFile" by (simp add: keyFile_def certFile_def)
  have e1: "e \<notin> range (WriteFailed certFile) \<union> range (CommitFailed certFile)" if "r1 = Inl e" for e
    using k that n by (auto simp: writeFileAtomic_def Let_def base_names split: prod.splits sum.splits)
  have e2: "e \<in> range (WriteFailed certFile) \<union> range (CommitFailed certFile)" if "r2 = Inl e" for e
    using c that by (auto simp: writeFileAtomic_def Let_def base_names split: prod.splits sum.splits)
  show "contents (cert_path cfg) w' = contents (cert_path cfg) w
      \<and> contents (key_path cfg) w' = (if e \<in> range (WriteFailed certFile) \<union> range (CommitFailed certFile) then Some keyPEM
           else contents (key_path cfg) w)" if "r = Inl e"
  proof (cases r1)
    case (Inl e0)
    then have "w' = w1" "e0 = e" using s that by simp_all
    then show ?thesis using e1 Inl kc(1) ka(2) by simp
  next
    case (Inr u)
    then have "w' = w2" "r2 = Inl e" using s that by simp_all
    then show ?thesis using e2 Inr kc(1) ka(2) cc(1) ca(2) by simp
  qed
qed

lemma enrol_stores:
  assumes "enrol cr web cfg w n = (r, w', n')" and "(\<exists>i. r = Inr i) \<or> (\<exists>e\<in>range (WriteFailed certFile) \<union> range (CommitFailed certFile). r = Inl e)"
  obtains caPEM certPEM keyPEM w1 rs where "contents (ca_path cfg) w = Some caPEM" and "EnrollToken cfg \<noteq> []"
    and "request_certificate cr web cfg caPEM n = (Inr (keyPEM, certPEM), n')" and "\<And>p. contents p w1 = contents p w"
    and "store_identity cfg keyPEM certPEM w1 = (rs, w')"
    and "r = (case rs of Inl e \<Rightarrow> Inl e | Inr _ \<Rightarrow> newIdentity cr certPEM keyPEM caPEM (cert_path cfg))"
proof -
  obtain ra w0 where ra: "os_read_file (ca_path cfg) w = (ra, w0)" by force
  obtain rm w1 where rm: "EnsureCertDir cfg w0 = (rm, w1)" by force
  have nr: "e \<notin> range (WriteFailed certFile) \<union> range (CommitFailed certFile)"
    if "request_certificate cr web cfg caPEM n = (Inl e, n1)" for caPEM e n1
    using that by (auto simp: request_certificate_def postCSR_def Let_def split: prod.splits sum.splits option.splits if_splits)
  have "\<exists>caPEM u. ra = Inr caPEM \<and> EnrollToken cfg \<noteq> [] \<and> rm = Inr u"
    using assms ra rm by (auto simp: enrol_def split: sum.splits if_splits)
  then obtain caPEM u where ca: "ra = Inr caPEM" "EnrollToken cfg \<noteq> []" "rm = Inr u" by blast
  obtain rq n1 where rq: "request_certificate cr web cfg caPEM n = (rq, n1)" by force
  have "\<exists>x. rq = Inr x"
  proof (cases rq)
    case (Inl e)
    then have "r = Inl e" using assms(1) ra rm ca rq by (simp add: enrol_def)
    then show ?thesis using assms(2) nr [OF rq [unfolded Inl]] by blast
  qed simp
  then obtain keyPEM certPEM where kc: "rq = Inr (keyPEM, certPEM)" by auto
  obtain rs w2 where rs: "store_identity cfg keyPEM certPEM w1 = (rs, w2)" by force
  have "contents p w1 = contents p w" for p
    using EnsureCertDir_contents [of cfg w0 u w1 p] rm ca read_only_frame(3) [OF ra] by (simp add: contents_def)
  moreover have "r = (case rs of Inl e \<Rightarrow> Inl e | Inr _ \<Rightarrow> newIdentity cr certPEM keyPEM caPEM (cert_path cfg))"
    "w' = w2" "n' = n1" using assms(1) ra rm ca rq kc rs by (auto simp: enrol_def split: sum.splits)
  ultimately show thesis using that read_contents [of "ca_path cfg" w caPEM w0] ra ca rq kc rs by blast
qed

subsection \<open>Properties\<close>

text \<open>
  C31. The agent's identity is what is on disk.  Whatever fails, when \<open>EnsureIdentity\<close> returns an
  identity, the certificate file holds a certificate that loads together with the private key in
  the key file, the identity consists of exactly that certificate and key and trusts exactly the CA
  in the CA file; and unless the agent enrolled just now, nothing on disk was touched.
\<close>

theorem identity_is_what_is_on_disk:
  assumes "EnsureIdentity cr web cfg w n = (Inr i, w', n')"
  shows "\<exists>certPEM keyPEM caPEM. contents (cert_path cfg) w' = Some certPEM \<and> contents (key_path cfg) w' = Some keyPEM
    \<and> contents (ca_path cfg) w' = Some caPEM \<and> contents (ca_path cfg) w = Some caPEM
    \<and> made_from cr certPEM keyPEM caPEM i \<and> idCertPath i = cert_path cfg
    \<and> (w_files w' = w_files w \<or> EnrollToken cfg \<noteq> [])"
proof -
  obtain r1 w1 n1 where st: "stored_identity cr cfg w n = (r1, w1, n1)" by (metis prod_cases3)
  have f1: "w_files w1 = w_files w" by (rule stored_identity_frame [OF st])
  then have c1: "contents p w1 = contents p w" for p by (simp add: contents_def)
  consider (stored) "r1 = Inr (Some i)" "w' = w1" | (enrolled) "enrol cr web cfg w1 n1 = (Inr i, w', n')"
    using assms st by (auto simp: EnsureIdentity_def split: sum.splits option.splits)
  then show ?thesis
  proof cases
    case stored
    then show ?thesis using stored_identity_valid [of cr cfg w n i w1 n1] st f1 c1 by simp
  next
    case enrolled
    from enrolled obtain caPEM certPEM keyPEM w2 rs where e: "contents (ca_path cfg) w1 = Some caPEM" "EnrollToken cfg \<noteq> []"
      "\<And>p. contents p w2 = contents p w1" "store_identity cfg keyPEM certPEM w2 = (rs, w')"
      "Inr i = (case rs of Inl e \<Rightarrow> Inl e | Inr _ \<Rightarrow> newIdentity cr certPEM keyPEM caPEM (cert_path cfg))"
      by (rule enrol_stores) blast+
    then obtain u where u: "rs = Inr u" "newIdentity cr certPEM keyPEM caPEM (cert_path cfg) = Inr i" by (auto split: sum.splits)
    show ?thesis
      using store_identity_contents(1,2) [OF e(4)] u e(1,2,3) c1 newIdentity_made [OF u(2)] by auto
  qed
qed

text \<open>A certificate and a key that do not belong together: every start fails, with or without a token.\<close>

lemma mismatched_is_stuck:
  assumes "quiet w" and "contents (key_path cfg) w = Some keyPEM" and "contents (cert_path cfg) w = Some certPEM"
    and "contents (ca_path cfg) w = Some caPEM" and "cryKeyPair cr certPEM keyPEM = None"
  shows "\<exists>w'. EnsureIdentity cr web cfg w n = (Inl LoadKeypair, w', n) \<and> w_files w' = w_files w"
proof -
  have c: "contents p v = contents p w" if "w_files v = w_files w" for p v using that by (simp add: contents_def)
  obtain w1 where k: "fileExists (key_path cfg) w = (True, w1)" "w_files w1 = w_files w" "quiet w1"
    using quiet_exists [OF assms(1,2)] by blast
  obtain w2 where l: "fileExists (cert_path cfg) w1 = (True, w2)" "w_files w2 = w_files w" "quiet w2"
    using quiet_exists [OF k(3), of "cert_path cfg"] assms(3) c [OF k(2)] k(2) by metis
  obtain w3 where a: "fileExists (ca_path cfg) w2 = (True, w3)" "w_files w3 = w_files w" "quiet w3"
    using quiet_exists [OF l(3), of "ca_path cfg"] assms(4) c [OF l(2)] l(2) by metis
  obtain w4 where r1: "os_read_file (cert_path cfg) w3 = (Inr certPEM, w4)" "w_files w4 = w_files w" "quiet w4"
    using quiet_read [OF a(3), of "cert_path cfg"] assms(3) c [OF a(2)] a(2) by metis
  obtain w5 where r2: "os_read_file (key_path cfg) w4 = (Inr keyPEM, w5)" "w_files w5 = w_files w" "quiet w5"
    using quiet_read [OF r1(3), of "key_path cfg"] assms(2) c [OF r1(2)] r1(2) by metis
  obtain w6 where r3: "os_read_file (ca_path cfg) w5 = (Inr caPEM, w6)" "w_files w6 = w_files w"
    using quiet_read [OF r2(3), of "ca_path cfg"] assms(4) c [OF r2(2)] r2(2) by metis
  have "readPEMs (cert_path cfg) (key_path cfg) (ca_path cfg) w3 = (Inr (certPEM, keyPEM, caPEM), w6)"
    by (simp add: readPEMs_def r1(1) r2(1) r3(1))
  then have "stored_identity cr cfg w n = (Inl LoadKeypair, w6, n)"
    using k(1) l(1) a(1) assms(5) by (simp add: stored_identity_def newIdentity_def)
  then show ?thesis using r3(2) by (simp add: EnsureIdentity_def)
qed

text \<open>
  C33. A re-enrolment that stops between its two files locks the agent out.  If an agent that still has
  a certificate re-enrols and the new certificate cannot be written (an I/O error or a crash in that
  very write), the new private key is already in place beside the old certificate; from then on
  every start fails with the same error before it contacts the platform, whatever token it is given,
  until somebody deletes a file.
\<close>

theorem failed_reenrolment_locks_out:
  assumes "enrol cr web cfg w n = (Inl e, w1, n1)" and "e \<in> range (WriteFailed certFile) \<union> range (CommitFailed certFile)"
    and "contents (cert_path cfg) w = Some oldCert" and "\<forall>key keyPEM. MarshalKeyPEM cr key = Inr keyPEM \<and> keyPEM \<noteq> oldKey \<longrightarrow>
      cryKeyPair cr oldCert keyPEM = None" and "contents (key_path cfg) w1 \<noteq> Some oldKey"
    and "quiet w2" and "w_files w2 = w_files w1"
  shows "\<exists>w3. EnsureIdentity cr web2 (cfg\<lparr>EnrollToken := token\<rparr>) w2 n2 = (Inl LoadKeypair, w3, n2) \<and> w_files w3 = w_files w1"
proof -
  have c2: "contents p w2 = contents p w1" for p using assms(7) by (simp add: contents_def)
  from assms(1) obtain caPEM certPEM keyPEM wm rs where s: "contents (ca_path cfg) w = Some caPEM"
    "request_certificate cr web cfg caPEM n = (Inr (keyPEM, certPEM), n1)" "\<And>p. contents p wm = contents p w"
    "store_identity cfg keyPEM certPEM wm = (rs, w1)"
    "Inl e = (case rs of Inl e \<Rightarrow> Inl e | Inr _ \<Rightarrow> newIdentity cr certPEM keyPEM caPEM (cert_path cfg))"
    by (rule enrol_stores) (use assms(2) in blast)+
  have "rs = Inl e"
  proof (cases rs)
    case (Inr u)
    then have "newIdentity cr certPEM keyPEM caPEM (cert_path cfg) = Inl e" using s(5) by simp
    then show ?thesis using assms(2) by (auto simp: newIdentity_def split: option.splits sum.splits)
  qed (use s(5) in simp)
  then have d: "contents (cert_path cfg) w1 = Some oldCert" "contents (key_path cfg) w1 = Some keyPEM"
    "contents (ca_path cfg) w1 = Some caPEM"
    using store_identity_contents(1,3) [OF s(4)] assms(2,3) s(1,3) by auto
  obtain key where "MarshalKeyPEM cr key = Inr keyPEM"
    using s(2) by (auto simp: request_certificate_def split: prod.splits sum.splits)
  then have "cryKeyPair cr oldCert keyPEM = None" using assms(4,5) d(2) by auto
  then show ?thesis
    using mismatched_is_stuck [OF assms(6), of "cfg\<lparr>EnrollToken := token\<rparr>" keyPEM oldCert caPEM cr web2 n2] d c2 assms(7) by simp
qed

lemma Renew_cases:
  assumes "Renew cr web cfg i w n = (r, i', w', n')"
  shows "(i' = i \<and> w' = w \<and> \<not> is_ok r) \<or>
    (\<exists>certPEM chain leaf. i' = i\<lparr>idChain := chain, idLeaf := leaf\<rparr> \<and> cryKeyPair cr certPEM (idKeyPEM i) = Some chain
      \<and> cryParseCert cr (hd chain) = Some leaf
      \<and> contents (idCertPath i) w' = (if is_ok r then Some certPEM else contents (idCertPath i) w)
      \<and> (\<forall>p. p \<noteq> idCertPath i \<and> p \<noteq> idCertPath i @ ''.tmp'' \<longrightarrow> contents p w' = contents p w))"
proof -
  obtain r1 n1 where m: "MarshalCSRPEM cr (idKey i) (agentID web) n = (r1, n1)" by force
  show ?thesis
  proof (cases r1)
    case (Inr csrPEM)
    obtain r2 n2 where p: "postCSR web (TLSConfig i) (RenewEndpoint cfg) [] csrPEM n1 = (r2, n2)" by force
    show ?thesis
    proof (cases "\<exists>certPEM chain leaf. r2 = Inr certPEM \<and> cryKeyPair cr certPEM (idKeyPEM i) = Some chain
        \<and> cryParseCert cr (hd chain) = Some leaf")
      case True
      then obtain certPEM chain leaf where c: "r2 = Inr certPEM" "cryKeyPair cr certPEM (idKeyPEM i) = Some chain"
        "cryParseCert cr (hd chain) = Some leaf" by blast
      obtain r3 w3 where wr: "writeFileAtomic (idCertPath i) certPEM (6 * 8 * 8 + 4 * 8 + 4) w = (r3, w3)" by force
      have eq: "r = r3" "i' = i\<lparr>idChain := chain, idLeaf := leaf\<rparr>" "w' = w3"
        using assms m Inr p c wr by (simp_all add: Renew_def)
      show ?thesis using c(2,3) writeFileAtomic_contents [OF wr] unfolding eq by blast
    next
      case False
      then show ?thesis using assms m Inr p by (auto simp: Renew_def split: sum.splits option.splits)
    qed
  qed (use assms m in \<open>auto simp: Renew_def\<close>)
qed

definition presentable :: "('k, 'p, 'i, 'pool, 'n) crypto \<Rightarrow> ('k, 'p, 'i, 'pool) identity \<Rightarrow> bool" where
  "presentable cr i \<longleftrightarrow> (\<exists>certPEM. cryKeyPair cr certPEM (idKeyPEM i) = Some (idChain i))
     \<and> cryParseCert cr (hd (idChain i)) = Some (idLeaf i)"

definition same_key :: "('k, 'p, 'i, 'pool) identity \<Rightarrow> ('k, 'p, 'i, 'pool) identity \<Rightarrow> bool" where
  "same_key i j \<longleftrightarrow> idKey j = idKey i \<and> idKeyPEM j = idKeyPEM i \<and> idPool j = idPool i \<and> idCertPath j = idCertPath i"

lemma renewal_check_keeps:
  assumes "renewal_check cr web cfg (i, w, n) = (i', w', n')" and "presentable cr i"
  shows "presentable cr i' \<and> same_key i i'"
proof -
  obtain now n1 where t: "cryNow cr n = (now, n1)" by force
  show ?thesis
  proof (cases "NeedsRenewal now i (RenewBefore cfg)")
    case True
    obtain r where "Renew cr web cfg i w n1 = (r, i', w', n')"
      using assms(1) t True by (cases "Renew cr web cfg i w n1") (auto simp: renewal_check_def)
    from Renew_cases [OF this] show ?thesis
    proof (elim disjE exE conjE)
      fix certPEM chain leaf
      assume i: "i' = i\<lparr>idChain := chain, idLeaf := leaf\<rparr>" and "cryKeyPair cr certPEM (idKeyPEM i) = Some chain"
        "cryParseCert cr (hd chain) = Some leaf"
      then have "presentable cr i'" unfolding presentable_def by simp blast
      then show ?thesis by (simp add: same_key_def i)
    qed (use assms(2) in \<open>simp add: same_key_def\<close>)
  next
    case False
    then have "i' = i" using assms(1) t by (simp add: renewal_check_def)
    then show ?thesis using assms(2) by (simp add: same_key_def)
  qed
qed

text \<open>Each round of the loop is a check and what happens until the next.\<close>

definition renewal_round ::
  "('k, 'p, 'i, 'pool, 'n) crypto \<Rightarrow> ('pool, 'n) web \<Rightarrow> config \<Rightarrow> (world \<times> 'n \<Rightarrow> world \<times> 'n)
    \<Rightarrow> ('k, 'p, 'i, 'pool) identity \<times> world \<times> 'n \<Rightarrow> unit \<times> ('k, 'p, 'i, 'pool) identity \<times> world \<times> 'n"
where
  "renewal_round cr web cfg elapse s = (case renewal_check cr web cfg s of (i, wn) \<Rightarrow> ((), i, elapse wn))"

lemma renewalLoop_rounds:
  "renewalLoop cr web cfg ticks s = renewal_check cr web cfg (snd (run_ops (renewal_round cr web cfg) ticks s))"
  by (induction ticks arbitrary: s) (simp_all add: renewal_round_def case_prod_beta)

definition keeps_identity :: "('k, 'p, 'i, 'pool, 'n) crypto \<Rightarrow> ('k, 'p, 'i, 'pool) identity \<times> world \<times> 'n \<Rightarrow> ('k, 'p, 'i, 'pool) identity \<times> world \<times> 'n \<Rightarrow> bool" where
  "keeps_identity cr s t \<longleftrightarrow> (presentable cr (fst s) \<longrightarrow> presentable cr (fst t) \<and> same_key (fst s) (fst t))"

lemma check_keeps_identity: "keeps_identity cr s (renewal_check cr web cfg s)"
  using renewal_check_keeps [of cr web cfg] by (cases s; cases "renewal_check cr web cfg s") (auto simp: keeps_identity_def)

interpretation renewals: growing "renewal_round cr web cfg" "keeps_identity cr"
  for cr web cfg
proof
  show "keeps_identity cr s s" for s by (simp add: keeps_identity_def same_key_def)
  show "keeps_identity cr s t \<Longrightarrow> keeps_identity cr t u \<Longrightarrow> keeps_identity cr s u" for s t u
    by (simp add: keeps_identity_def same_key_def)
  show "keeps_identity cr s t" if "renewal_round cr web cfg elapse s = (r, t)" for elapse s r t
    using that check_keeps_identity [of cr s web cfg] by (auto simp: renewal_round_def keeps_identity_def split: prod.splits)
qed

text \<open>
  C32. Renewal never breaks the identity.  Over any number of checks, with any answers of the platform
  and any failures between and in them, the private key, its file text, the trusted CA and the path
  stay the same, and the certificate the agent presents always loads together with that key and is
  the one whose expiry the next check looks at.
\<close>

theorem renewal_never_breaks_the_identity:
  assumes "renewalLoop cr web cfg ticks (i, w, n) = (i', w', n')" and "presentable cr i"
  shows "presentable cr i' \<and> same_key i i'"
proof -
  obtain u s where s: "run_ops (renewal_round cr web cfg) ticks (i, w, n) = (u, s)" by (rule prod.exhaust)
  have "(i', w', n') = renewal_check cr web cfg s" using assms(1) s by (simp add: renewalLoop_rounds)
  then have "keeps_identity cr (i, w, n) (i', w', n')"
    using renewals.le_trans [OF renewals.run_le [OF s]] check_keeps_identity by metis
  then show ?thesis using assms(2) by (simp add: keeps_identity_def)
qed

subsection \<open>Renewal in time\<close>

text \<open>When a certificate has to be renewed, in terms of its end and the clock.\<close>

lemma NeedsRenewal_iff: "sint before < 2 ^ 63 - 1 \<Longrightarrow> NeedsRenewal now i before \<longleftrightarrow> identity_NotAfter i - now \<le> sint before"
proof -
  have "- (2 ^ 63) \<le> sint before" using sint_ge [of before] by simp
  then show "sint before < 2 ^ 63 - 1 \<Longrightarrow> ?thesis" by (auto simp: NeedsRenewal_def clamp64_def min_def max_def)
qed

text \<open>
  The world the loop runs in, seen from outside the agent: in the states \<open>up\<close> of it the clock reads \<open>clock\<close>, a call
  returns within \<open>delay\<close>, and a certificate request for the key and the name can be made, in a PEM that is text.
\<close>

definition soon :: "('n \<Rightarrow> bool) \<Rightarrow> ('n \<Rightarrow> time) \<Rightarrow> int \<Rightarrow> 'n \<Rightarrow> 'n \<Rightarrow> bool" where
  "soon up clock most n n' \<longleftrightarrow> up n' \<and> clock n \<le> clock n' \<and> clock n' \<le> clock n + most"

definition host_works :: "('k, 'p, 'i, 'pool, 'n) crypto \<Rightarrow> string \<Rightarrow> 'k \<Rightarrow> ('n \<Rightarrow> bool) \<Rightarrow> ('n \<Rightarrow> time) \<Rightarrow> int \<Rightarrow> bool" where
  "host_works cr name key up clock delay \<longleftrightarrow>
     (\<forall>n. up n \<longrightarrow> fst (cryNow cr n) = clock n \<and> soon up clock delay n (snd (cryNow cr n))
        \<and> (\<exists>der n'. cryCreateCSR cr \<lparr>CommonName = name, OtherNames = []\<rparr> key n = (Some der, n') \<and> soon up clock delay n n'
             \<and> utf8_ok (pemEncode cr pemTypeCSR der)))"

text \<open>
  The platform serves renewals: over a connection with a client certificate for the agent's key that has not expired, a
  \<open>POST\<close> of a certificate request made with that key is answered, within \<open>delay\<close>, with a certificate for the
  key that is good for \<open>life\<close> from then on.
\<close>

definition platform_renews ::
  "('k, 'p, 'i, 'pool, 'n) crypto \<Rightarrow> ('pool, 'n) web \<Rightarrow> string \<Rightarrow> 'k \<Rightarrow> bytes \<Rightarrow> 'pool \<Rightarrow> ('n \<Rightarrow> bool) \<Rightarrow> ('n \<Rightarrow> time)
    \<Rightarrow> int \<Rightarrow> int \<Rightarrow> bool"
where
  "platform_renews cr web url key keyPEM pool up clock delay life \<longleftrightarrow>
     webUrlOk web url
     \<and> (\<forall>n rq csr agent chain leaf.
          up n \<and> rqMethod rq = ''POST'' \<and> rqURL rq = url \<and> map_of (rqHeader rq) ''Content-Type'' = Some ''application/json''
          \<and> json_parse (rqBody rq) = Some (JObj [(''csr_pem'', JStr csr), (''agent_id'', JStr agent)])
          \<and> (\<exists>subject n1 der n2. cryCreateCSR cr subject key n1 = (Some der, n2) \<and> csr = pemEncode cr pemTypeCSR der)
          \<and> (\<exists>certPEM. cryKeyPair cr certPEM keyPEM = Some chain)
          \<and> cryParseCert cr (hd chain) = Some leaf \<and> clock n < NotAfter leaf \<longrightarrow>
          (\<exists>body n' caPEM certPEM chain' leaf'.
             webDo web \<lparr>tlsRoots = pool, tlsChain = Some chain\<rparr> rq n = (Some (200, body), n') \<and> soon up clock delay n n'
             \<and> length body \<le> 2 ^ 20 \<and> json_parse body = Some (JObj [(''ca_pem'', JStr caPEM), (''cert_pem'', JStr certPEM)])
             \<and> certPEM \<noteq> [] \<and> cryKeyPair cr certPEM keyPEM = Some chain'
             \<and> cryParseCert cr (hd chain') = Some leaf' \<and> clock n + life \<le> NotAfter leaf'))"

text \<open>The two bodies of the exchange.\<close>

lemma csr_body_parses:
  assumes "utf8_ok csr" and "utf8_ok agent"
  shows "json_parse (csr_body csr agent) = Some (JObj [(''csr_pem'', JStr csr), (''agent_id'', JStr agent)])"
proof -
  have "utf8_ok ''csr_pem''" "utf8_ok ''agent_id''" by code_simp+
  then show ?thesis using assms unfolding csr_body_def by (intro json_parse_print) simp
qed

lemma issued_cert_decoded:
  "decode_struct [''cert_pem'', ''ca_pem''] (Some (JObj [(''ca_pem'', JStr a), (''cert_pem'', JStr b)]))
    = Some [(''cert_pem'', b), (''ca_pem'', a)]"
proof -
  have "find (key_is ''cert_pem'') [''cert_pem'', ''ca_pem''] = Some ''cert_pem''"
    "find (key_is ''ca_pem'') [''cert_pem'', ''ca_pem''] = Some ''ca_pem''" by code_simp+
  then show ?thesis by (simp add: decode_struct_def into_string_def del: find.simps)
qed

text \<open>A renewal that is asked for in time is served, whatever the disk does.\<close>

lemma renewal_served:
  assumes "host_works cr (agentID web) (idKey i) up clock delay"
    and "platform_renews cr web (RenewEndpoint cfg) (idKey i) (idKeyPEM i) (idPool i) up clock delay life"
    and "utf8_ok (agentID web)" and "presentable cr i" and "up n" and "clock n + delay < identity_NotAfter i"
    and "Renew cr web cfg i w n = (r, i1, w1, n2)"
  shows "soon up clock (2 * delay) n n2 \<and> clock n + life \<le> identity_NotAfter i1"
proof -
  obtain der n1 where c: "cryCreateCSR cr \<lparr>CommonName = agentID web, OtherNames = []\<rparr> (idKey i) n = (Some der, n1)"
    and s1: "soon up clock delay n n1" and enc: "utf8_ok (pemEncode cr pemTypeCSR der)"
    using assms(1,5) unfolding host_works_def by blast
  let ?csr = "pemEncode cr pemTypeCSR der"
  let ?rq = "csr_request (RenewEndpoint cfg) [] ?csr (agentID web)"
  have m: "MarshalCSRPEM cr (idKey i) (agentID web) n = (Inr ?csr, n1)" using c by (simp add: MarshalCSRPEM_def)
  have rq: "rqMethod ?rq = ''POST''" "rqURL ?rq = RenewEndpoint cfg"
    "map_of (rqHeader ?rq) ''Content-Type'' = Some ''application/json''"
    "json_parse (rqBody ?rq) = Some (JObj [(''csr_pem'', JStr ?csr), (''agent_id'', JStr (agentID web))])"
    using csr_body_parses [OF enc assms(3)] by (simp_all add: csr_request_def)
  have p: "\<exists>certPEM. cryKeyPair cr certPEM (idKeyPEM i) = Some (idChain i)" "cryParseCert cr (hd (idChain i)) = Some (idLeaf i)"
    using assms(4) by (simp_all add: presentable_def)
  have t: "up n1" "clock n1 < NotAfter (idLeaf i)" using s1 assms(6) by (simp_all add: soon_def identity_NotAfter_def)
  obtain body n3 caPEM certPEM chain leaf where a: "webDo web \<lparr>tlsRoots = idPool i, tlsChain = Some (idChain i)\<rparr> ?rq n1 = (Some (200, body), n3)"
    "soon up clock delay n1 n3" "length body \<le> 2 ^ 20"
    "json_parse body = Some (JObj [(''ca_pem'', JStr caPEM), (''cert_pem'', JStr certPEM)])"
    "certPEM \<noteq> []" "cryKeyPair cr certPEM (idKeyPEM i) = Some chain" "cryParseCert cr (hd chain) = Some leaf"
    "clock n1 + life \<le> NotAfter leaf"
    using assms(2) rq c p t unfolding platform_renews_def by blast
  have url: "webUrlOk web (RenewEndpoint cfg)" using assms(2) by (simp add: platform_renews_def)
  have "read_limited (2 ^ 20) body = body" using a(3) by simp
  then have "postCSR web (TLSConfig i) (RenewEndpoint cfg) [] ?csr n1 = (Inr certPEM, n3)"
    using url a(1,4,5) by (simp add: postCSR_def TLSConfig_def issued_cert_decoded field_def del: read_limited_def)
  then have "i1 = i\<lparr>idChain := chain, idLeaf := leaf\<rparr>" "n2 = n3"
    using assms(7) m a(6,7) by (auto simp: Renew_def Let_def split: prod.splits)
  then show ?thesis using s1 a(2,8) by (simp add: soon_def identity_NotAfter_def)
qed

text \<open>After a check the certificate lasts until the next one is over.\<close>

lemma check_lasts:
  assumes "host_works cr (agentID web) (idKey i) up clock delay"
    and "platform_renews cr web (RenewEndpoint cfg) (idKey i) (idKeyPEM i) (idPool i) up clock delay life"
    and "utf8_ok (agentID web)" and "presentable cr i" and "up n" and "clock n + 3 * delay < identity_NotAfter i"
    and "renewal_check cr web cfg (i, w, n) = (i1, w1, n1)"
    and "sint (RenewBefore cfg) < 2 ^ 63 - 1" and "gap + 6 * delay \<le> sint (RenewBefore cfg)" and "gap + 6 * delay < life"
  shows "up n1 \<and> clock n1 + gap + 3 * delay < identity_NotAfter i1"
proof -
  obtain n2 where t: "cryNow cr n = (clock n, n2)" and s2: "soon up clock delay n n2"
    using assms(1,5) unfolding host_works_def by (metis prod.collapse)
  then have d: "0 \<le> delay" by (simp add: soon_def)
  show ?thesis
  proof (cases "NeedsRenewal (clock n) i (RenewBefore cfg)")
    case True
    then obtain r where r: "Renew cr web cfg i w n2 = (r, i1, w1, n1)"
      using assms(7) t by (cases "Renew cr web cfg i w n2") (auto simp: renewal_check_def)
    have "clock n2 + delay < identity_NotAfter i" "up n2" using s2 assms(6) d by (simp_all add: soon_def)
    from renewal_served [OF assms(1-4) this(2,1) r] show ?thesis using s2 assms(10) d by (simp add: soon_def)
  next
    case False
    then have "i1 = i" "n1 = n2" using assms(7) t by (simp_all add: renewal_check_def)
    moreover have "sint (RenewBefore cfg) < identity_NotAfter i - clock n" using False NeedsRenewal_iff [OF assms(8), of "clock n" i] by linarith
    ultimately show ?thesis using s2 assms(9) d by (simp add: soon_def)
  qed
qed

text \<open>The certificate the agent shows at a handshake is the one whose end it watches, and is good at the given time.\<close>

definition shows_valid :: "('k, 'p, 'i, 'pool, 'n) crypto \<Rightarrow> ('k, 'p, 'i, 'pool) identity \<Rightarrow> time \<Rightarrow> bool" where
  "shows_valid cr i t \<longleftrightarrow> (\<exists>chain leaf. tlsChain (TLSConfig i) = Some chain \<and> cryParseCert cr (hd chain) = Some leaf
     \<and> identity_NotAfter i = NotAfter leaf \<and> t < NotAfter leaf)"

lemma shows_valid_iff: "presentable cr i \<Longrightarrow> shows_valid cr i t \<longleftrightarrow> t < identity_NotAfter i"
  by (auto simp: shows_valid_def presentable_def TLSConfig_def identity_NotAfter_def)

text \<open>
  C15. A certificate whose platform is up never expires.  Let the clock, the key and PEM of the host work (\<open>host_works\<close>), let the
  platform answer requests for renewal that come with an unexpired certificate for the agent's key
  (\<open>platform_renews\<close>), each within \<open>delay\<close>, and let the ticks of the loop come at its interval.  If interval and
  delays fit into the lead time of the renewal, and into what a new certificate is good for (in the default configuration
  they are 6 hours and 30 days), then at every check the certificate the agent presents is good until the check is over,
  and after it until the next, for any number of checks and whatever fails on the disk; and it is always the
  certificate whose end the agent watches.
\<close>

theorem certificate_never_expires:
  assumes "host_works cr (agentID web) (idKey i) up clock delay"
    and "platform_renews cr web (RenewEndpoint cfg) (idKey i) (idKeyPEM i) (idPool i) up clock delay life"
    and "\<forall>elapse\<in>set ticks. \<forall>w n. up n \<longrightarrow> soon up clock (sint (RenewCheckInterval cfg)) n (snd (elapse (w, n)))"
    and "utf8_ok (agentID web)" and "sint (RenewBefore cfg) < 2 ^ 63 - 1"
    and "sint (RenewCheckInterval cfg) + 6 * delay \<le> sint (RenewBefore cfg)" and "sint (RenewCheckInterval cfg) + 6 * delay < life"
    and "presentable cr i" and "up n" and "clock n + 3 * delay < identity_NotAfter i"
    and "k \<le> length ticks" and "run_ops (renewal_round cr web cfg) (take k ticks) (i, w, n) = (u, j, v, m)"
    and "renewal_check cr web cfg (j, v, m) = (j1, v1, m1)"
  shows "shows_valid cr j (clock m + 3 * delay) \<and> shows_valid cr j1 (clock m1 + sint (RenewCheckInterval cfg))"
proof -
  have now: "presentable cr j \<and> same_key i j \<and> up m \<and> clock m + 3 * delay < identity_NotAfter j"
    using assms(1-3,8-12)
  proof (induction ticks arbitrary: i w n k u)
    case (Cons elapse ticks)
    show ?case
    proof (cases k)
      case 0
      then show ?thesis using Cons.prems by (simp add: same_key_def)
    next
      case (Suc k')
      obtain i1 w1 n1 where c: "renewal_check cr web cfg (i, w, n) = (i1, w1, n1)" by (rule prod_cases3)
      obtain w2 n2 where e: "elapse (w1, n1) = (w2, n2)" by force
      have rd: "renewal_round cr web cfg elapse (i, w, n) = ((), i1, w2, n2)" using c e by (simp add: renewal_round_def)
      obtain u1 where u1: "run_ops (renewal_round cr web cfg) (take k' ticks) (i1, w2, n2) = (u1, j, v, m)"
        using Cons.prems(8) Suc rd by (auto split: prod.splits)
      have p1: "presentable cr i1" "same_key i i1" using renewal_check_keeps [OF c Cons.prems(4)] by simp_all
      have l: "up n1" "clock n1 + sint (RenewCheckInterval cfg) + 3 * delay < identity_NotAfter i1"
        using check_lasts [OF Cons.prems(1,2) assms(4) Cons.prems(4-6) c assms(5-7)] by simp_all
      have "soon up clock (sint (RenewCheckInterval cfg)) n1 n2"
        using Cons.prems(3) l(1) e by (metis list.set_intros(1) snd_conv)
      then have n2: "up n2" "clock n2 + 3 * delay < identity_NotAfter i1" using l(2) by (simp_all add: soon_def)
      have "presentable cr j \<and> same_key i1 j \<and> up m \<and> clock m + 3 * delay < identity_NotAfter j"
        by (rule Cons.IH [OF _ _ _ p1(1) n2 _ u1]) (use Cons.prems p1(2) Suc in \<open>simp_all add: same_key_def\<close>)
      then show ?thesis using p1(2) by (simp add: same_key_def)
    qed
  qed (simp add: same_key_def)
  have same: "idKey j = idKey i" "idKeyPEM j = idKeyPEM i" "idPool j = idPool i" using now by (simp_all add: same_key_def)
  have "clock m1 + sint (RenewCheckInterval cfg) + 3 * delay < identity_NotAfter j1"
    using check_lasts [of cr web j, unfolded same, OF assms(1,2,4) _ _ _ assms(13,5-7)] now by simp
  moreover have "0 \<le> delay" using assms(1,9) unfolding host_works_def soon_def by fastforce
  moreover have "presentable cr j1" using renewal_check_keeps [OF assms(13)] now by simp
  ultimately show ?thesis using now by (simp add: shows_valid_iff)
qed

lemma default_lead_time: "sint (RenewCheckInterval (Load env)) \<le> sint (RenewBefore (Load env))"
  "sint (RenewBefore (Load env)) < 2 ^ 63 - 1"
proof -
  have "RenewCheckInterval (Load env) = seconds (6 * 3600)" "RenewBefore (Load env) = seconds (30 * 24 * 3600)"
    by (simp_all add: Load_def Default_def Let_def)
  moreover have "sint (seconds (6 * 3600)) \<le> sint (seconds (30 * 24 * 3600))" "sint (seconds (30 * 24 * 3600)) < 2 ^ 63 - 1"
    by code_simp+
  ultimately show "sint (RenewCheckInterval (Load env)) \<le> sint (RenewBefore (Load env))"
    "sint (RenewBefore (Load env)) < 2 ^ 63 - 1" by metis+
qed

end
