(* ===== verification/Enroll_Runs.thy ===== *)
theory Enroll_Runs
  imports Enroll_Theorems
begin

text \<open>Concrete runs of enrolment and renewal, on which the theorems of \<open>Enroll_Theorems\<close> are instantiated.\<close>

definition run_config :: config where
  "run_config = (Load (\<lambda>k. if k = ''HOME'' then ''/r'' else []))\<lparr>CertDir := ''/c'', EnrollToken := ''tok''\<rparr>"

definition run_key :: "nat \<Rightarrow> bytes" where
  "run_key k = desk_pem pemTypeKey (put_nums [k] [])"

text \<open>A client certificate for key \<open>k\<close>, valid until the given second.\<close>

definition run_cert :: "nat \<Rightarrow> nat \<Rightarrow> bytes" where
  "run_cert k until = desk_pem pemTypeCert (put_nums [0, 9, 0, until, k] ''web-1'')"

definition run_ca :: bytes where
  "run_ca = desk_pem pemTypeCert (put_nums [1, 1, 0, 2000000000, 1] ''Mock CA'')"

definition run_attr :: attr where
  "run_attr = \<lparr>a_perm = 6 * 8 * 8, a_owner = (0, 0)\<rparr>"

definition run_world :: "(nat \<Rightarrow> fault) \<Rightarrow> bytes \<Rightarrow> bytes \<Rightarrow> world" where
  "run_world faults keyPEM certPEM =
     \<lparr>w_files = [(''/c'', Dir run_attr), (''/c/client.key'', File run_attr keyPEM), (''/c/client.crt'', File run_attr certPEM),
        (''/c/ca.crt'', File run_attr run_ca)], w_umask = 2 * 8 + 2, w_ids = (0, 0), w_tick = 0, w_fault = faults,
      w_crashed = False, w_clock = \<lambda>n. int n\<rparr>"

text \<open>A platform that answers every request with the given certificate.\<close>

definition run_web :: "bytes \<Rightarrow> (bytes, desk) web" where
  "run_web certPEM =
     \<lparr>webUrlOk = \<lambda>_. True,
      webDo = \<lambda>_ _ n. (Some (200, print_json (JObj [(''ca_pem'', JStr run_ca), (''cert_pem'', JStr certPEM)])), n),
      webHostname = Some ''web-1''\<rparr>"

definition run_stored :: "world \<Rightarrow> (enroll_error + (nat, nat, unit, bytes) identity) \<times> world \<times> desk" where
  "run_stored w = EnsureIdentity desk_crypto (run_web []) run_config w demo_desk"

theorem identity_is_what_is_on_disk_witness:
  "\<exists>i w'. run_stored (run_world (\<lambda>_. Go) (run_key 42) (run_cert 42 1800000000)) = (Inr i, w', demo_desk)
    \<and> contents ''/c/client.key'' w' = Some (idKeyPEM i) \<and> idCertPath i = ''/c/client.crt''"
proof -
  let ?w = "run_world (\<lambda>_. Go) (run_key 42) (run_cert 42 1800000000)"
  have "is_ok (fst (run_stored ?w)) \<and> dkRandom (snd (snd (run_stored ?w))) = 7 \<and> dkClock (snd (snd (run_stored ?w))) = dkClock demo_desk
      \<and> dkAnswers (snd (snd (run_stored ?w))) = []" by code_simp
  moreover obtain r w' n' where e: "run_stored ?w = (r, w', n')" by (metis prod_cases3)
  ultimately obtain i where i: "r = Inr i" and n: "n' = demo_desk" by (auto simp: is_ok_iff demo_desk_def)
  have p: "key_path run_config = ''/c/client.key''" "cert_path run_config = ''/c/client.crt''" by code_simp+
  from identity_is_what_is_on_disk [OF e [unfolded run_stored_def i]] show ?thesis
    unfolding p using e i n by (auto simp: made_from_def)
qed

text \<open>The stored certificate has expired and the write of the new one fails.\<close>

definition run_failed :: "(enroll_error + (nat, nat, unit, bytes) identity) \<times> world \<times> desk" where
  "run_failed = enrol desk_crypto (run_web ''new certificate'') run_config
     (run_world (\<lambda>k. if k = 4 then IOErr 5 0 else Go) (run_key 42) (run_cert 42 1000)) demo_desk"

theorem failed_reenrolment_locks_out_witness:
  "\<exists>e w1 n1. run_failed = (Inl e, w1, n1)
    \<and> (\<forall>w2 web2 token n2. quiet w2 \<and> w_files w2 = w_files w1 \<longrightarrow>
         (\<exists>w3. EnsureIdentity desk_crypto web2 (run_config\<lparr>EnrollToken := token\<rparr>) w2 n2 = (Inl LoadKeypair, w3, n2)))"
proof -
  let ?w = "run_world (\<lambda>k. if k = 4 then IOErr 5 0 else Go) (run_key 42) (run_cert 42 1000)"
  obtain r w1 n1 where f: "run_failed = (r, w1, n1)" by (metis prod_cases3)
  have "(case fst run_failed of Inl e \<Rightarrow> e = WriteFailed certFile (EIO 5) | Inr _ \<Rightarrow> False)
      \<and> contents (key_path run_config) (fst (snd run_failed)) = Some (run_key 7)
      \<and> run_key 7 \<noteq> run_key 42 \<and> contents (cert_path run_config) ?w = Some (run_cert 42 1000)" by code_simp
  then have r: "r = Inl (WriteFailed certFile (EIO 5))" and k: "contents (key_path run_config) w1 \<noteq> Some (run_key 42)"
    and c: "contents (cert_path run_config) ?w = Some (run_cert 42 1000)"
    unfolding f fst_conv snd_conv by (auto split: sum.splits)
  have pk: "map_option PublicKey (desk_parse_cert (put_nums [0, 9, 0, 1000, 42] ''web-1'')) = Some 42" by code_simp
  have mismatch: "\<forall>key keyPEM. MarshalKeyPEM desk_crypto key = Inr keyPEM \<and> keyPEM \<noteq> run_key 42 \<longrightarrow>
      cryKeyPair desk_crypto (run_cert 42 1000) keyPEM = None"
  proof (intro allI impI)
    fix key keyPEM
    assume a: "MarshalKeyPEM desk_crypto key = Inr keyPEM \<and> keyPEM \<noteq> run_key 42"
    then have kp: "keyPEM = run_key key" by (simp add: MarshalKeyPEM_def desk_crypto_def run_key_def)
    then have "key \<noteq> 42" using a by auto
    moreover have "desk_parse_key (put_nums [key] []) = Some (EcdsaKey key)"
      using get_one [of key "[]"] by (simp add: desk_parse_key_def)
    ultimately show "cryKeyPair desk_crypto (run_cert 42 1000) keyPEM = None"
      using pk by (auto simp: kp desk_crypto_def desk_key_pair_def run_cert_def run_key_def simp del: put_nums.simps split: option.split)
  qed
  have en: "enrol desk_crypto (run_web ''new certificate'') run_config ?w demo_desk = (Inl (WriteFailed certFile (EIO 5)), w1, n1)"
    using f r by (simp add: run_failed_def)
  have "WriteFailed certFile (EIO 5) \<in> range (WriteFailed certFile) \<union> range (CommitFailed certFile)" by simp
  from failed_reenrolment_locks_out [OF en this c mismatch k] show ?thesis using f r by blast
qed

definition run_identity :: "(nat, nat, unit, bytes) identity" where
  "run_identity = \<lparr>idKey = 42, idKeyPEM = run_key 42, idChain = [put_nums [0, 9, 0, 1750000100, 42] ''web-1''],
     idLeaf = the (desk_parse_cert (put_nums [0, 9, 0, 1750000100, 42] ''web-1'')), idPool = run_ca, idCertPath = ''/c/client.crt''\<rparr>"

definition run_renewals :: "(nat, nat, unit, bytes) identity \<times> world \<times> desk" where
  "run_renewals = renewalLoop desk_crypto (run_web (run_cert 42 1800000000)) run_config [\<lambda>wn. wn]
     (run_identity, run_world (\<lambda>_. Go) (run_key 42) (run_cert 42 1750000100), demo_desk)"

lemma run_presentable: "presentable desk_crypto run_identity"
proof -
  have "desk_key_pair (run_cert 42 1750000100) (run_key 42) = Some (idChain run_identity)" by code_simp
  moreover have "desk_parse_cert (put_nums [0, 9, 0, 1750000100, 42] ''web-1'') \<noteq> None" by code_simp
  moreover have "cryKeyPair desk_crypto = desk_key_pair" "cryParseCert desk_crypto = desk_parse_cert" by (simp_all add: desk_crypto_def)
  ultimately show ?thesis
    by (auto simp: presentable_def run_identity_def simp del: put_nums.simps)
qed

theorem renewal_never_breaks_the_identity_witness:
  "\<exists>i' w' n'. run_renewals = (i', w', n') \<and> identity_NotAfter i' = 1800000000 * ns_per_s
    \<and> idKey i' = 42 \<and> presentable desk_crypto i'"
proof -
  have na: "identity_NotAfter (fst run_renewals) = 1800000000 * ns_per_s" by code_simp
  obtain i' w' n' where r: "run_renewals = (i', w', n')" by (metis prod_cases3)
  have "presentable desk_crypto i' \<and> same_key run_identity i'"
    by (rule renewal_never_breaks_the_identity [OF r [unfolded run_renewals_def] run_presentable])
  moreover have "idKey run_identity = 42" by (simp add: run_identity_def)
  ultimately show ?thesis using r na [unfolded r fst_conv] by (auto simp: same_key_def)
qed

text \<open>Three hours pass between two checks, and the platform answers.\<close>

definition run_up :: "desk \<Rightarrow> bool" where
  "run_up n \<longleftrightarrow> 1750000000 * ns_per_s \<le> dkClock n \<and> dkClock n \<le> 1750010800 * ns_per_s"

definition run_wait :: "world \<times> desk \<Rightarrow> world \<times> desk" where
  "run_wait wn = (fst wn, (snd wn)\<lparr>dkClock := 1750010800 * ns_per_s\<rparr>)"

lemma run_host_works: "host_works desk_crypto ''web-1'' 42 run_up dkClock 0"
proof -
  have "utf8_ok (desk_pem pemTypeCSR (put_nums [42] ''web-1''))" by code_simp
  then show ?thesis by (auto simp: host_works_def soon_def desk_crypto_def simp del: put_nums.simps)
qed

lemma run_platform_renews:
  "platform_renews desk_crypto (run_web (run_cert 42 1800000000)) url key (run_key 42) pool run_up dkClock 0 (40000000 * ns_per_s)"
proof -
  let ?d = "put_nums [0, 9, 0, 1800000000, 42] ''web-1''" and ?pem = "run_cert 42 1800000000"
  let ?j = "JObj [(''ca_pem'', JStr run_ca), (''cert_pem'', JStr ?pem)]"
  have t: "list_all utf8_ok [''ca_pem'', run_ca, ''cert_pem'', ?pem]" "length (print_json ?j) \<le> 2 ^ 20" "?pem \<noteq> []" by code_simp+
  then have b: "json_parse (print_json ?j) = Some ?j" by (intro json_parse_print) simp
  have c: "desk_key_pair ?pem (run_key 42) = Some [?d]"
    "map_option NotAfter (desk_parse_cert ?d) = Some (1800000000 * ns_per_s)" by code_simp+
  then obtain leaf where "desk_parse_cert ?d = Some leaf" "NotAfter leaf = 1800000000 * ns_per_s" by auto
  moreover have "cryKeyPair desk_crypto = desk_key_pair" "cryParseCert desk_crypto = desk_parse_cert" by (simp_all add: desk_crypto_def)
  moreover have "dkClock n + 40000000 * ns_per_s \<le> 1800000000 * ns_per_s" if "run_up n" for n
    using that by (simp add: run_up_def ns_per_s_def)
  ultimately show ?thesis
    using t(2,3) b c(1) unfolding platform_renews_def
    by (intro conjI allI impI, simp add: run_web_def)
      (intro exI [of _ "print_json ?j"] exI [of _ run_ca] exI [of _ ?pem] exI [of _ "[?d]"] exI [of _ leaf], auto simp: run_web_def soon_def simp del: put_nums.simps)
qed

theorem certificate_never_expires_witness:
  "\<exists>u j v m. run_ops (renewal_round desk_crypto (run_web (run_cert 42 1800000000)) run_config) [run_wait]
      (run_identity, run_world (\<lambda>_. Go) (run_key 42) (run_cert 42 1750000100), demo_desk) = (u, j, v, m)
    \<and> shows_valid desk_crypto j (dkClock m)"
proof -
  let ?web = "run_web (run_cert 42 1800000000)" and ?w = "run_world (\<lambda>_. Go) (run_key 42) (run_cert 42 1750000100)"
  have id: "agentID ?web = ''web-1''" "idKey run_identity = 42" "idKeyPEM run_identity = run_key 42"
    by (simp_all add: run_web_def agentID_def run_identity_def)
  have conf: "sint (RenewBefore run_config) = 2592000 * ns_per_s" "sint (RenewCheckInterval run_config) = 21600 * ns_per_s"
    "NotAfter (idLeaf run_identity) = 1750000100 * ns_per_s" by code_simp+
  have sched: "\<forall>elapse\<in>set [run_wait]. \<forall>w n. run_up n \<longrightarrow> soon run_up dkClock (sint (RenewCheckInterval run_config)) n (snd (elapse (w, n)))"
    by (auto simp: conf soon_def run_up_def run_wait_def ns_per_s_def)
  have name: "utf8_ok (agentID ?web)" unfolding id by code_simp
  have le: "sint (RenewBefore run_config) < 2 ^ 63 - 1" "sint (RenewCheckInterval run_config) + 6 * 0 \<le> sint (RenewBefore run_config)"
    "sint (RenewCheckInterval run_config) + 6 * 0 < 40000000 * ns_per_s" by (simp_all add: conf ns_per_s_def)
  have start: "run_up demo_desk" "dkClock demo_desk + 3 * 0 < identity_NotAfter run_identity"
    by (simp_all add: run_up_def demo_desk_def identity_NotAfter_def conf ns_per_s_def)
  obtain u j v m where r: "run_ops (renewal_round desk_crypto ?web run_config) (take 1 [run_wait]) (run_identity, ?w, demo_desk) = (u, j, v, m)"
    by (metis prod_cases4)
  obtain j1 v1 m1 where c: "renewal_check desk_crypto ?web run_config (j, v, m) = (j1, v1, m1)" by (rule prod_cases3)
  have "1 \<le> length [run_wait]" by simp
  have works: "host_works desk_crypto (agentID ?web) (idKey run_identity) run_up dkClock 0" unfolding id by (rule run_host_works)
  have serves: "platform_renews desk_crypto ?web (RenewEndpoint run_config) (idKey run_identity) (idKeyPEM run_identity)
      (idPool run_identity) run_up dkClock 0 (40000000 * ns_per_s)"
    unfolding id by (rule run_platform_renews)
  from certificate_never_expires [OF works serves sched name le run_presentable start \<open>1 \<le> _\<close> r c]
  show ?thesis using r by auto
qed

end
