(* ===== verification/Platform_Identity.thy ===== *)
theory Platform_Identity
  imports Platform Enroll_Runs
begin

text \<open>
  The agent's identity against the platform: \<open>EnsureIdentity\<close> and \<open>Renew\<close> of \<open>internal/enroll\<close> answered by the
  handlers \<open>/enroll\<close> and \<open>/renew\<close> of \<open>cmd/mock-platform\<close>.
\<close>

subsection \<open>Putting the two together\<close>

text \<open>The primitives of the agent beside a platform: they leave its state alone.\<close>

definition beside :: "('n \<Rightarrow> 'a \<times> 'n) \<Rightarrow> 's \<times> 'n \<Rightarrow> 'a \<times> 's \<times> 'n" where
  "beside f sn = (case f (snd sn) of (x, n1) \<Rightarrow> (x, fst sn, n1))"

lemma beside_Pair [simp]: "beside f (s, n) = (case f n of (x, n1) \<Rightarrow> (x, s, n1))"
  by (simp add: beside_def)

definition agent_crypto :: "('k, 'p, 'i, 'pool, 'n) crypto \<Rightarrow> ('k, 'p, 'i, 'pool, 's \<times> 'n) crypto" where
  "agent_crypto cr =
     \<lparr>cryNow = beside (cryNow cr), cryGenerate = beside (cryGenerate cr), cryInt = \<lambda>m. beside (cryInt cr m),
      cryPublic = cryPublic cr, cryMarshalPKCS8 = cryMarshalPKCS8 cr, cryParsePKCS8 = cryParsePKCS8 cr,
      cryCreateCSR = \<lambda>s k. beside (cryCreateCSR cr s k), cryParseCSR = cryParseCSR cr,
      cryCreateCert = \<lambda>t u p k. beside (cryCreateCert cr t u p k), cryParseCert = cryParseCert cr,
      cryKeyPair = cryKeyPair cr, cryPool = cryPool cr, cryParseIP = cryParseIP cr,
      pemEncode = pemEncode cr, pemDecode = pemDecode cr\<rparr>"

lemma agent_crypto_sel [simp]:
  "cryNow (agent_crypto cr) = beside (cryNow cr)" "cryParseCert (agent_crypto cr) = cryParseCert cr"
  "cryKeyPair (agent_crypto cr) = cryKeyPair cr" "pemDecode (agent_crypto cr) = pemDecode cr"
  "GenerateKey (agent_crypto cr) = beside (GenerateKey cr)" "MarshalKeyPEM (agent_crypto cr) = MarshalKeyPEM cr"
  "ParseKeyPEM (agent_crypto cr) = ParseKeyPEM cr" "CAPool (agent_crypto cr) = CAPool cr"
  "MarshalCSRPEM (agent_crypto cr) k cn = beside (MarshalCSRPEM cr k cn)"
  by (auto simp: agent_crypto_def fun_eq_iff GenerateKey_def MarshalKeyPEM_def ParseKeyPEM_def CAPool_def MarshalCSRPEM_def beside_def
      split: prod.splits option.splits)

definition mock_web ::
  "('k, 'p, 'i, 'pool, 'n) crypto \<Rightarrow> (bytes \<Rightarrow> bytes option) \<Rightarrow> ('k, 'p, 'i, 'pool, 'n) handshake \<Rightarrow> string \<Rightarrow> string option
    \<Rightarrow> ('pool, ('k, 'p, 'i) server \<times> 'n) web"
where
  "mock_web cr gunzip hs base hostname =
     \<lparr>webUrlOk = \<lambda>_. True, webDo = mock_do cr gunzip hs base, webHostname = hostname\<rparr>"

lemma mock_web_sel [simp]:
  "webUrlOk (mock_web cr gunzip hs base hostname) u" "webDo (mock_web cr gunzip hs base hostname) = mock_do cr gunzip hs base"
  "agentID (mock_web cr gunzip hs base (Some (c # cs))) = c # cs"
  by (simp_all add: mock_web_def agentID_def)

subsection \<open>The exchange\<close>

text \<open>The two JSON bodies as the other side reads them.\<close>

lemma fields_of_pair:
  assumes "utf8_ok a" and "utf8_ok b" and "utf8_ok f" and "utf8_ok g" and "f \<noteq> g"
    and "find (key_is f) ns = Some f" and "find (key_is g) ns = Some g"
  shows "json_ok (JObj [(f, JStr a), (g, JStr b)])"
    and "\<exists>st. decode_struct ns (Some (JObj [(f, JStr a), (g, JStr b)])) = Some st \<and> field st f = a \<and> field st g = b"
  using assms by (simp_all add: decode_struct_def into_string_def field_def)

lemma csr_body_read:
  assumes "utf8_ok csrPEM" and "utf8_ok agent" and "csrPEM \<noteq> []" and "length (csr_body csrPEM agent) \<le> 2 ^ 20"
    and "inBody r = csr_body csrPEM agent"
  shows "decodeCSR r = Some (csrPEM, agent)"
proof -
  let ?names = "[''csr_pem'', ''agent_id'']"
  have k: "utf8_ok ''csr_pem''" "utf8_ok ''agent_id''" "find (key_is ''csr_pem'') ?names = Some ''csr_pem''"
    "find (key_is ''agent_id'') ?names = Some ''agent_id''" "''csr_pem'' \<noteq> ''agent_id''" by code_simp+
  note f = fields_of_pair [OF assms(1,2) k(1,2,5,3,4)]
  have "take (2 ^ 20) (inBody r) = csr_body csrPEM agent" using assms(4,5) by simp
  then have "json_first (take (2 ^ 20) (inBody r)) = Some (JObj [(''csr_pem'', JStr csrPEM), (''agent_id'', JStr agent)])"
    using f(1) by (simp only: csr_body_def json_first_print)
  then show ?thesis using f(2) assms(3) by (auto simp: decodeCSR_def)
qed

definition issued_body :: "bytes \<Rightarrow> bytes \<Rightarrow> bytes" where
  "issued_body caPEM certPEM = print_json (JObj [(''ca_pem'', JStr caPEM), (''cert_pem'', JStr certPEM)]) @ [CHR 0x0A]"

lemma issued_body_read:
  assumes "utf8_ok caPEM" and "utf8_ok certPEM" and "length (issued_body caPEM certPEM) \<le> 2 ^ 20"
  shows "\<exists>st. decode_struct [''cert_pem'', ''ca_pem''] (json_parse (read_limited (2 ^ 20) (issued_body caPEM certPEM))) = Some st
    \<and> field st ''cert_pem'' = certPEM"
proof -
  let ?names = "[''cert_pem'', ''ca_pem'']"
  have k: "utf8_ok ''cert_pem''" "utf8_ok ''ca_pem''" "find (key_is ''cert_pem'') ?names = Some ''cert_pem''"
    "find (key_is ''ca_pem'') ?names = Some ''ca_pem''" "''ca_pem'' \<noteq> ''cert_pem''" by code_simp+
  note f = fields_of_pair [OF assms(1,2) k(2,1,5,4,3)]
  have "read_limited (2 ^ 20) (issued_body caPEM certPEM) = issued_body caPEM certPEM"
    using assms(3) by (simp add: read_limited_def)
  then have "json_parse (read_limited (2 ^ 20) (issued_body caPEM certPEM)) = Some (JObj [(''ca_pem'', JStr caPEM), (''cert_pem'', JStr certPEM)])"
    using json_parse_print_line [OF f(1)] by (simp add: issued_body_def)
  then show ?thesis using f(2) by auto
qed

text \<open>What each route answers.\<close>

lemma mock_enroll:
  assumes "hs conf (srvCA srv) n = (Some peers, n1)" and "token \<noteq> []"
    and "utf8_ok csrPEM" and "utf8_ok agent" and "csrPEM \<noteq> []" and "length (csr_body csrPEM agent) \<le> 2 ^ 20"
  shows "mock_do cr gunzip hs base conf (csr_request (base @ ''/enroll'') token csrPEM agent) (srv, n) =
    (if token = srvToken srv
     then (case issue cr srv csrPEM ''enroll'' agent n1 of (rsp, srv1, n2) \<Rightarrow> (Some (rsStatus rsp, rsBody rsp), srv1, n2))
     else (Some (401, rsBody (http_error ''invalid enroll token'' 401)), srv, n1))"
proof -
  let ?req = "csr_request (base @ ''/enroll'') token csrPEM agent"
  let ?in = "\<lparr>inMethod = rqMethod ?req, inHeader = rqHeader ?req, inBody = rqBody ?req, inPeers = peers\<rparr>"
  have d: "decodeCSR ?in = Some (csrPEM, agent)"
    by (rule csr_body_read) (use assms in \<open>simp_all add: csr_request_def\<close>)
  have "has_prefix (base @ ''/enroll'') base" "drop (length base) (base @ ''/enroll'') = ''/enroll''"
    by (simp_all add: has_prefix_iff)
  moreover have "header (inHeader ?in) ''Authorization'' = ''Bearer '' @ token"
    using assms(2) by (simp add: csr_request_def header_def)
  moreover have "rqURL ?req = base @ ''/enroll''" "inMethod ?in = ''POST''" by (simp_all add: csr_request_def)
  ultimately show ?thesis
    using assms(1) d by (auto simp: mock_do_def serve_def handleEnroll_def http_error_def split: prod.splits)
qed

lemma mock_renew:
  assumes "hs conf (srvCA srv) n = (Some (c # cs), n1)"
    and "utf8_ok csrPEM" and "utf8_ok agent" and "csrPEM \<noteq> []" and "length (csr_body csrPEM agent) \<le> 2 ^ 20"
  shows "mock_do cr gunzip hs base conf (csr_request (base @ ''/renew'') token csrPEM agent) (srv, n) =
    (if isRevoked srv (CommonName (Subject c))
     then (Some (403, rsBody (http_error ''agent revoked'' 403)), log_to srv [LogRefused ''renew'' (CommonName (Subject c))], n1)
     else (case issue cr srv csrPEM ''renew'' (CommonName (Subject c)) n1 of
       (rsp, srv1, n2) \<Rightarrow> (Some (rsStatus rsp, rsBody rsp), srv1, n2)))"
proof -
  let ?req = "csr_request (base @ ''/renew'') token csrPEM agent"
  let ?in = "\<lparr>inMethod = rqMethod ?req, inHeader = rqHeader ?req, inBody = rqBody ?req, inPeers = c # cs\<rparr>"
  have d: "decodeCSR ?in = Some (csrPEM, agent)"
    by (rule csr_body_read) (use assms in \<open>simp_all add: csr_request_def\<close>)
  have "has_prefix (base @ ''/renew'') base" "drop (length base) (base @ ''/renew'') = ''/renew''"
    by (simp_all add: has_prefix_iff)
  moreover have "rqURL ?req = base @ ''/renew''" "inMethod ?in = ''POST''" by (simp_all add: csr_request_def)
  ultimately show ?thesis
    using assms(1) d by (auto simp: mock_do_def serve_def handleRenew_def clientCN_def http_error_def split: prod.splits)
qed

lemma issue_signed:
  assumes "SignCSR cr (srvCA srv) csrPEM certTTL n = (Inr certPEM, n')"
  shows "issue cr srv csrPEM kind who n = (\<lparr>rsStatus = 200, rsType = ''application/json'',
      rsBody = issued_body (caCertPEM (srvCA srv)) certPEM\<rparr>, log_to srv [LogIssued kind who], n')"
  using assms by (simp add: issue_def issued_body_def)

text \<open>The exchange as \<open>postCSR\<close> sees it.\<close>

lemma postCSR_answer:
  assumes "mock_do cr gunzip hs base conf (csr_request url token csrPEM (agentID (mock_web cr gunzip hs base host))) sn
      = (Some (200, issued_body caPEM certPEM), sn1)"
    and "utf8_ok caPEM" and "utf8_ok certPEM" and "certPEM \<noteq> []" and "length (issued_body caPEM certPEM) \<le> 2 ^ 20"
  shows "postCSR (mock_web cr gunzip hs base host) conf url token csrPEM sn = (Inr certPEM, sn1)"
  using assms(1,4) issued_body_read [OF assms(2,3,5)] by (auto simp: postCSR_def Let_def simp del: read_limited_def)

lemma postCSR_refused:
  assumes "mock_do cr gunzip hs base conf (csr_request url token csrPEM (agentID (mock_web cr gunzip hs base host))) sn
      = (Some (code, body), sn1)" and "code \<noteq> 200"
  shows "postCSR (mock_web cr gunzip hs base host) conf url token csrPEM sn = (Inl (PostReturned code), sn1)"
  using assms by (simp add: postCSR_def)

subsection \<open>The files on a disk that does not fail\<close>

text \<open>The directory of the identity is there and no directory has the name of one of its files.\<close>

definition cert_dir_ready :: "config \<Rightarrow> world \<Rightarrow> bool" where
  "cert_dir_ready cfg w \<longleftrightarrow> is_dir_in (w_files w) (clean (CertDir cfg))
     \<and> (\<forall>d\<in>set (dir_chain (clean (CertDir cfg))). is_dir_in (w_files w) d)
     \<and> (\<forall>p\<in>{key_path cfg, key_path cfg @ ''.tmp'', cert_path cfg, cert_path cfg @ ''.tmp''}. \<not> is_dir_in (w_files w) p)"

lemma is_dir_in_update_file: "\<not> is_dir_in t p \<Longrightarrow> is_dir_in (AList.update p (File a b) t) = is_dir_in t"
  by (auto simp: fun_eq_iff is_dir_in_def map_of_update)

lemma quiet_writeFileAtomic:
  assumes "quiet w" and "valid_name m" and "is_dir_in (w_files w) (clean d)"
    and "\<not> is_dir_in (w_files w) (join_path [d, m])" and "\<not> is_dir_in (w_files w) (join_path [d, m] @ ''.tmp'')"
  obtains w' where "writeFileAtomic (join_path [d, m]) data pm w = (Inr (), w')" and "quiet w'"
    and "is_dir_in (w_files w') = is_dir_in (w_files w)"
proof -
  let ?p = "join_path [d, m]" and ?t = "join_path [d, m] @ ''.tmp''"
  have sl: "slash \<notin> set ''.tmp''" by code_simp
  have vt: "valid_name (m @ ''.tmp'')" using assms(2) sl by (rule valid_name_append) (simp add: assms)
  have pd: "dir_name ?p = clean d" using dir_name_join [OF is_clean_clean assms(2), of d] join_path_clean [OF assms(2)] by simp
  have "?t = join_path [d, m @ ''.tmp'']" by (simp add: path_form assms(2) vt)
  then have td: "dir_name ?t = clean d" using dir_name_join [OF is_clean_clean vt, of d] join_path_clean [OF vt] by simp
  obtain w1 where w1: "os_write_file ?t data pm w = (Inr (), w1)" "quiet w1"
    using quiet_write_file [OF assms(1), of ?t data pm] assms(1,3,5) td quiet_os(5) by metis
  then obtain a where f1: "w_files w1 = AList.update ?t (File a data) (w_files w)" using os_write_file_ok [OF w1(1)] by blast
  have l: "lookup w1 ?t = Some (File a data)" by (simp add: f1 map_of_update)
  obtain w2 where w2: "os_rename ?t ?p w1 = (Inr (), w2)" "quiet w2"
    using quiet_rename [OF w1(2) l, of ?p] w1(2) assms(3,4) pd quiet_os(6) unfolding f1 is_dir_in_update_file [OF assms(5)] by metis
  have "is_dir_in (w_files w2) = is_dir_in (w_files w)"
    using os_rename_ok [OF w2(1)] f1 assms(4,5) l
    by (auto simp: fun_eq_iff is_dir_in_def map_of_update map_of_delete)
  then show thesis using that [of w2] w1 w2 by (simp add: writeFileAtomic_def Let_def)
qed

lemma quiet_EnsureCertDir:
  assumes "quiet w" and "cert_dir_ready cfg w"
  obtains w' where "EnsureCertDir cfg w = (Inr (), w')" and "quiet w'" and "w_files w' = w_files w"
proof -
  let ?ds = "dir_chain (clean (CertDir cfg))"
  have "fold (add_dir a) ds t = t" if "\<forall>d\<in>set ds. is_dir_in t d" for a ds t
    using that by (induction ds) (simp_all add: add_dir_def)
  moreover have "\<forall>d\<in>set ?ds. is_dir_in (w_files w) d" using assms(2) by (simp add: cert_dir_ready_def)
  ultimately show thesis
    using that [of "w\<lparr>w_tick := Suc (w_tick w)\<rparr>"] assms(1)
    by (auto simp: EnsureCertDir_def os_mkdir_all_def sys_quiet Let_def list_all_iff quiet_def)
qed

lemma quiet_store_identity:
  assumes "quiet w" and "cert_dir_ready cfg w"
  obtains w' where "store_identity cfg keyPEM certPEM w = (Inr (), w')" and "quiet w'"
proof -
  have d: "is_dir_in (w_files w) (clean (CertDir cfg))" "\<not> is_dir_in (w_files w) (key_path cfg)"
    "\<not> is_dir_in (w_files w) (key_path cfg @ ''.tmp'')" "\<not> is_dir_in (w_files w) (cert_path cfg)"
    "\<not> is_dir_in (w_files w) (cert_path cfg @ ''.tmp'')" using assms(2) by (simp_all add: cert_dir_ready_def)
  obtain w1 where w1: "writeFileAtomic (key_path cfg) keyPEM (6 * 8 * 8) w = (Inr (), w1)" "quiet w1"
    "is_dir_in (w_files w1) = is_dir_in (w_files w)"
    using quiet_writeFileAtomic [OF assms(1) names_valid(1) d(1-3)] by blast
  obtain w2 where w2: "writeFileAtomic (cert_path cfg) certPEM (6 * 8 * 8 + 4 * 8 + 4) w1 = (Inr (), w2)" "quiet w2"
    using quiet_writeFileAtomic [OF w1(2) names_valid(2), of "CertDir cfg"] d w1(3) by metis
  show thesis using that [OF _ w2(2)] w1(1) w2(1) by (simp add: store_identity_def)
qed

subsection \<open>Enrolment and renewal\<close>

text \<open>
  C13. The first start of an agent against the platform.  Without a private key on disk, with a token and the platform's
  CA there, a disk and a network that do not fail, and a TLS handshake that succeeds, the token decides.  With the token
  of the platform \<open>EnsureIdentity\<close> returns an identity whose certificate carries the agent's host name and the public key of
  its freshly generated key, for client authentication only; key, certificate and CA are in their files, and the platform
  has logged exactly this one certificate.  With any other token it fails with the platform's 401, nothing is
  written to any file, and the platform's state is as before.
\<close>

theorem first_start_enrols_by_token:
  assumes "crypto_ok cr" and "quiet w" and "cert_dir_ready cfg w" and "lookup w (key_path cfg) = None"
    and "contents (ca_path cfg) w = Some caPEM" and "CAPool cr caPEM = Inr pool"
    and "EnrollToken cfg \<noteq> []" and "EnrollEndpoint cfg = base @ ''/enroll''"
    and "GenerateKey cr n = (Inr key, n1)" and "MarshalKeyPEM cr key = Inr keyPEM"
    and "MarshalCSRPEM cr key host n1 = (Inr csrPEM, n2)" and "host \<noteq> []"
    and "hs \<lparr>tlsRoots = pool, tlsChain = None\<rparr> (srvCA srv) n2 = (Some peers, n3)"
    and "SignCSR cr (srvCA srv) csrPEM certTTL n3 = (Inr certPEM, n4)"
    and "list_all utf8_ok [csrPEM, host, certPEM, caCertPEM (srvCA srv)]" and "csrPEM \<noteq> []" and "certPEM \<noteq> []"
    and "length (csr_body csrPEM host) \<le> 2 ^ 20" and "length (issued_body (caCertPEM (srvCA srv)) certPEM) \<le> 2 ^ 20"
  shows "\<exists>r w' sn. EnsureIdentity (agent_crypto cr) (mock_web cr gunzip hs base (Some host)) cfg w (srv, n) = (r, w', sn)
    \<and> (if EnrollToken cfg = srvToken srv
       then sn = (log_to srv [LogIssued ''enroll'' host], n4) \<and> contents (key_path cfg) w' = Some keyPEM
         \<and> contents (cert_path cfg) w' = Some certPEM \<and> contents (ca_path cfg) w' = Some caPEM
         \<and> (\<exists>i. r = Inr i \<and> idKey i = key \<and> CommonName (Subject (idLeaf i)) = host \<and> PublicKey (idLeaf i) = cryPublic cr key
              \<and> ExtKeyUsage (idLeaf i) = [ExtKeyUsageClientAuth] \<and> \<not> IsCA (idLeaf i) \<and> idPool i = pool)
       else r = Inl (PostReturned 401) \<and> sn = (srv, n3) \<and> w_files w' = w_files w)"
proof -
  let ?web = "mock_web cr gunzip hs base (Some host)" and ?cr = "agent_crypto cr :: ('a, 'b, 'c, 'd, ('a, 'b, 'c) server \<times> 'e) crypto"
  let ?tls = "\<lparr>tlsRoots = pool, tlsChain = None\<rparr>"
  obtain w1 where w1: "fileExists (key_path cfg) w = (False, w1)" "w_files w1 = w_files w" "quiet w1"
    using assms(2,4) by (auto simp: fileExists_def os_stat_def sys_quiet quiet_def)
  have st: "stored_identity ?cr cfg w (srv, n) = (Inr None, w1, (srv, n))" using w1(1) by (simp add: stored_identity_def)
  have "contents (ca_path cfg) w1 = Some caPEM" using assms(5) w1(2) by (simp add: contents_def)
  then obtain w2 where w2: "os_read_file (ca_path cfg) w1 = (Inr caPEM, w2)" "w_files w2 = w_files w" "quiet w2"
    using quiet_read [OF w1(3)] w1(2) by metis
  have "cert_dir_ready cfg w2" using assms(3) w2(2) by (simp add: cert_dir_ready_def)
  then obtain w3 where w3: "EnsureCertDir cfg w2 = (Inr (), w3)" "quiet w3" "w_files w3 = w_files w"
    using quiet_EnsureCertDir [OF w2(3)] w2(2) by metis
  have host: "agentID ?web = host" using assms(12) by (cases host) simp_all
  note answer = mock_enroll [where hs = hs and cr = cr and gunzip = gunzip and base = base, OF assms(13,7) _ _ assms(16,18)]
  have rq: "request_certificate ?cr ?web cfg caPEM (srv, n) =
    (case postCSR ?web ?tls (base @ ''/enroll'') (EnrollToken cfg) csrPEM (srv, n2) of
       (Inl e, sn) \<Rightarrow> (Inl e, sn) | (Inr certPEM, sn) \<Rightarrow> (Inr (keyPEM, certPEM), sn))"
    using assms(6,8,9,10,11) host by (simp add: request_certificate_def)
  have en: "EnsureIdentity ?cr ?web cfg w (srv, n) =
    (case request_certificate ?cr ?web cfg caPEM (srv, n) of
       (Inl e, sn) \<Rightarrow> (Inl e, w3, sn)
     | (Inr (keyPEM, certPEM), sn) \<Rightarrow>
         (case store_identity cfg keyPEM certPEM w3 of
            (Inl e, w4) \<Rightarrow> (Inl e, w4, sn)
          | (Inr _, w4) \<Rightarrow> (newIdentity ?cr certPEM keyPEM caPEM (cert_path cfg), w4, sn)))"
    using st w2(1) w3(1) assms(7) by (simp add: EnsureIdentity_def enrol_def)
  show ?thesis
  proof (cases "EnrollToken cfg = srvToken srv")
    case True
    have "postCSR ?web ?tls (base @ ''/enroll'') (EnrollToken cfg) csrPEM (srv, n2) = (Inr certPEM, log_to srv [LogIssued ''enroll'' host], n4)"
      by (rule postCSR_answer [where caPEM = "caCertPEM (srvCA srv)"])
        (use assms(15,17,19) answer host True issue_signed [OF assms(14)] in simp_all)
    then have rq1: "request_certificate ?cr ?web cfg caPEM (srv, n) = (Inr (keyPEM, certPEM), log_to srv [LogIssued ''enroll'' host], n4)"
      using rq by simp
    have "cert_dir_ready cfg w3" using assms(3) w3(3) by (simp add: cert_dir_ready_def)
    then obtain w4 where w4: "store_identity cfg keyPEM certPEM w3 = (Inr (), w4)" using quiet_store_identity [OF w3(2)] by blast
    from issued_loads [OF assms(1,10,11,14)] obtain der c where l: "cryKeyPair cr certPEM keyPEM = Some [der]" "cryParseCert cr der = Some c"
      "ParseKeyPEM cr keyPEM = Inr key" "CommonName (Subject c) = host" "PublicKey c = cryPublic cr key"
      "ExtKeyUsage c = [ExtKeyUsageClientAuth]" "\<not> IsCA c" by metis
    have "contents (ca_path cfg) w4 = Some caPEM"
      using store_identity_contents(1) [OF w4] assms(5) w3(3) by (simp add: contents_def)
    then show ?thesis
      using True en rq1 w4 l assms(6) store_identity_contents(2) [OF w4 refl] by (simp add: newIdentity_def)
  next
    case False
    have "postCSR ?web ?tls (base @ ''/enroll'') (EnrollToken cfg) csrPEM (srv, n2) = (Inl (PostReturned 401), srv, n3)"
      by (rule postCSR_refused) (use assms(15) answer host False in simp_all)
    then show ?thesis using False en rq w3(3) by simp
  qed
qed

text \<open>
  C14. Renewal against the platform.  An identity that is kept in the directory of the configuration renews over its own
  certificate.  If the name in the certificate the platform verified is on the deny list, \<open>Renew\<close> fails with the
  platform's 403, and identity, disk and deny list are as before; otherwise it succeeds, keeps the key and the CA, presents
  and has stored a new certificate with the host name and the same public key, and needs no renewal until the configured
  time before 90 days after the platform's clock have passed.
\<close>

theorem renewal_at_the_platform:
  assumes "crypto_ok cr" and "quiet w" and "cert_dir_ready cfg w" and "idCertPath i = cert_path cfg"
    and "RenewEndpoint cfg = base @ ''/renew''" and "MarshalKeyPEM cr (idKey i) = Inr (idKeyPEM i)"
    and "MarshalCSRPEM cr (idKey i) host n = (Inr csrPEM, n1)" and "host \<noteq> []"
    and "hs (TLSConfig i) (srvCA srv) n1 = (Some (c # cs), n2)"
    and "SignCSR cr (srvCA srv) csrPEM certTTL n2 = (Inr certPEM, n3)"
    and "list_all utf8_ok [csrPEM, host, certPEM, caCertPEM (srvCA srv)]" and "csrPEM \<noteq> []" and "certPEM \<noteq> []"
    and "length (csr_body csrPEM host) \<le> 2 ^ 20" and "length (issued_body (caCertPEM (srvCA srv)) certPEM) \<le> 2 ^ 20"
    and "sint (RenewBefore cfg) < 2 ^ 63 - 1"
  shows "\<exists>r i' w' sn. Renew (agent_crypto cr) (mock_web cr gunzip hs base (Some host)) cfg i w (srv, n) = (r, i', w', sn)
    \<and> (if isRevoked srv (CommonName (Subject c))
       then r = Inl (RenewPost (PostReturned 403)) \<and> i' = i \<and> w' = w
         \<and> sn = (log_to srv [LogRefused ''renew'' (CommonName (Subject c))], n2)
       else r = Inr () \<and> same_key i i' \<and> presentable cr i' \<and> contents (cert_path cfg) w' = Some certPEM
         \<and> contents (key_path cfg) w' = contents (key_path cfg) w \<and> contents (ca_path cfg) w' = contents (ca_path cfg) w
         \<and> CommonName (Subject (idLeaf i')) = host \<and> PublicKey (idLeaf i') = cryPublic cr (idKey i)
         \<and> sn = (log_to srv [LogIssued ''renew'' (CommonName (Subject c))], n3)
         \<and> (\<exists>t m m'. cryNow cr m = (t, m') \<and> (\<forall>now. NeedsRenewal now i' (RenewBefore cfg)
              \<longleftrightarrow> whole_seconds (t + sint certTTL) - now \<le> sint (RenewBefore cfg))))"
proof -
  let ?web = "mock_web cr gunzip hs base (Some host)" and ?cr = "agent_crypto cr :: ('a, 'b, 'c, 'd, ('a, 'b, 'c) server \<times> 'e) crypto"
  let ?cn = "CommonName (Subject c)"
  have host: "agentID ?web = host" using assms(8) by (cases host) simp_all
  have m: "MarshalCSRPEM ?cr (idKey i) (agentID ?web) (srv, n) = (Inr csrPEM, srv, n1)" using assms(7) host by simp
  note answer = mock_renew [where hs = hs and cr = cr and gunzip = gunzip and base = base and token = "[]", OF assms(9) _ _ assms(12,14)]
  show ?thesis
  proof (cases "isRevoked srv ?cn")
    case True
    have "postCSR ?web (TLSConfig i) (base @ ''/renew'') [] csrPEM (srv, n1)
      = (Inl (PostReturned 403), log_to srv [LogRefused ''renew'' ?cn], n2)"
      by (rule postCSR_refused) (use assms(11) answer host True in simp_all)
    then show ?thesis using True m assms(5) by (simp add: Renew_def)
  next
    case False
    have po: "postCSR ?web (TLSConfig i) (base @ ''/renew'') [] csrPEM (srv, n1) = (Inr certPEM, log_to srv [LogIssued ''renew'' ?cn], n3)"
      by (rule postCSR_answer [where caPEM = "caCertPEM (srvCA srv)"])
        (use assms(11,13,15) answer host False issue_signed [OF assms(10)] in simp_all)
    from issued_loads [OF assms(1,6,7,10)] obtain der l t m m' where l: "cryKeyPair cr certPEM (idKeyPEM i) = Some [der]"
      "cryParseCert cr der = Some l" "CommonName (Subject l) = host" "PublicKey l = cryPublic cr (idKey i)"
      and t: "cryNow cr m = (t, m')" "NotAfter l = whole_seconds (t + sint certTTL)" by metis
    obtain w1 where w1: "writeFileAtomic (cert_path cfg) certPEM (6 * 8 * 8 + 4 * 8 + 4) w = (Inr (), w1)"
    proof -
      have d: "is_dir_in (w_files w) (clean (CertDir cfg))" "\<not> is_dir_in (w_files w) (cert_path cfg)"
        "\<not> is_dir_in (w_files w) (cert_path cfg @ ''.tmp'')" using assms(3) by (simp_all add: cert_dir_ready_def)
      show thesis by (rule quiet_writeFileAtomic [OF assms(2) names_valid(2) d]) (rule that)
    qed
    let ?i = "i\<lparr>idChain := [der], idLeaf := l\<rparr>"
    have r: "Renew ?cr ?web cfg i w (srv, n) = (Inr (), ?i, w1, log_to srv [LogIssued ''renew'' ?cn], n3)"
      using m assms(4,5) po l(1,2) w1 by (simp add: Renew_def)
    have f: "contents (cert_path cfg) w1 = Some certPEM" "contents (key_path cfg) w1 = contents (key_path cfg) w"
      "contents (ca_path cfg) w1 = contents (ca_path cfg) w"
      using writeFileAtomic_contents [OF w1] paths_apart [of cfg] by (auto dest: sym)
    have p: "presentable cr ?i" using l(1,2) unfolding presentable_def by auto
    have "\<forall>now. NeedsRenewal now ?i (RenewBefore cfg) \<longleftrightarrow> whole_seconds (t + sint certTTL) - now \<le> sint (RenewBefore cfg)"
      using NeedsRenewal_iff [OF assms(16), of _ ?i] t(2) by (simp add: identity_NotAfter_def)
    then have nr: "\<exists>t m m'. cryNow cr m = (t, m') \<and> (\<forall>now. NeedsRenewal now ?i (RenewBefore cfg)
        \<longleftrightarrow> whole_seconds (t + sint certTTL) - now \<le> sint (RenewBefore cfg))" using t(1) by blast
    have k: "same_key i ?i" by (simp add: same_key_def)
    show ?thesis
      by (intro exI [of _ "Inr ()"] exI [of _ ?i] exI [of _ w1] exI [of _ "(log_to srv [LogIssued ''renew'' ?cn], n3)"])
        (use False r f p l(3,4) k nr in simp)
  qed
qed

subsection \<open>Concrete exchanges\<close>

definition meet_config :: config where
  "meet_config = run_config\<lparr>EnrollEndpoint := ''https://p:8443/enroll'', RenewEndpoint := ''https://p:8443/renew'', RenewBefore := seconds 86400\<rparr>"

text \<open>A new host: the directory with the CA that \<open>install\<close> left there.\<close>

definition meet_world :: world where
  "meet_world = run_world (\<lambda>_. Go) [] []\<lparr>w_files := [(''/c'', Dir run_attr), (''/c/ca.crt'', File run_attr run_ca)]\<rparr>"

definition meet_csr :: bytes where
  "meet_csr = desk_pem pemTypeCSR (put_nums [7] ''web-1'')"

definition meet_cert :: "nat \<Rightarrow> bytes" where
  "meet_cert serial = desk_pem pemTypeCert (put_nums [0, serial, 1749999940, 1757776000, 7] ''web-1'')"

definition meet_desk :: "nat \<Rightarrow> desk" where
  "meet_desk k = demo_desk\<lparr>dkRandom := k\<rparr>"

definition meet_handshake :: "(nat, nat, unit, bytes, desk) handshake" where
  "meet_handshake conf ca n = (Some [], n)"

lemma meet_csr_parsed: "cryParseCSR desk_crypto (put_nums [k] cn) = Some \<lparr>csrSubject = \<lparr>CommonName = cn, OtherNames = []\<rparr>, csrPublicKey = k, csrSignatureOk = True\<rparr>"
  using get_one [of k cn] by (simp add: desk_crypto_def del: put_nums.simps)

lemma meet_signed:
  assumes "serial < 2 ^ 128"
  shows "SignCSR desk_crypto demo_ca meet_csr certTTL (meet_desk serial) = (Inr (meet_cert serial), meet_desk (Suc serial))"
proof -
  let ?now = "1750000000 * ns_per_s"
  let ?t = "client_template serial \<lparr>CommonName = ''web-1'', OtherNames = []\<rparr> (?now - minute) (?now + sint certTTL)"
  have n: "(?now - minute) div ns_per_s = 1749999940" "(?now + sint certTTL) div ns_per_s = 1757776000" by code_simp+
  have "desk_create ?t 7 = Some (put_nums [0, serial, 1749999940, 1757776000, 7] ''web-1'')"
    unfolding desk_create_def client_template_def template.simps n
    by (simp add: desk_template_def client_template_def del: put_nums.simps)
  moreover have "pemDecode desk_crypto meet_csr = Some (put_nums [7] ''web-1'')" by (simp add: desk_crypto_def meet_csr_def del: put_nums.simps)
  moreover have "cryInt desk_crypto (2 ^ 128) (meet_desk serial) = (Some serial, meet_desk (Suc serial))"
    using assms by (simp add: desk_crypto_def meet_desk_def)
  moreover have "cryNow desk_crypto (meet_desk s) = (?now, meet_desk s)" "pemEncode desk_crypto = desk_pem"
    "cryCreateCert desk_crypto t u p k d = (desk_create t p, d)" for s t u p k d
    by (simp_all add: desk_crypto_def meet_desk_def demo_desk_def)
  ultimately show ?thesis
    by (simp add: SignCSR_def randomSerial_def meet_csr_parsed meet_cert_def del: put_nums.simps)
qed

lemma meet_texts:
  "list_all utf8_ok [meet_csr, ''web-1'', meet_cert 8, caCertPEM (srvCA demo_server)]" "meet_csr \<noteq> []" "meet_cert 8 \<noteq> []"
  "length (csr_body meet_csr ''web-1'') \<le> 2 ^ 20" "length (issued_body (caCertPEM (srvCA demo_server)) (meet_cert 8)) \<le> 2 ^ 20"
  by code_simp+

lemma meet_agent:
  "GenerateKey desk_crypto (meet_desk 7) = (Inr 7, meet_desk 8)" "MarshalKeyPEM desk_crypto k = Inr (run_key k)"
  "MarshalCSRPEM desk_crypto 7 ''web-1'' d = (Inr meet_csr, d)" "CAPool desk_crypto run_ca = Inr run_ca"
  by (simp_all add: GenerateKey_def MarshalKeyPEM_def MarshalCSRPEM_def CAPool_def desk_crypto_def meet_desk_def run_key_def meet_csr_def run_ca_def
      del: put_nums.simps)

lemma meet_files:
  "quiet meet_world" "cert_dir_ready meet_config meet_world" "lookup meet_world (key_path meet_config) = None"
  "contents (ca_path meet_config) meet_world = Some run_ca" "EnrollToken meet_config = ''tok''"
  "EnrollEndpoint meet_config = ''https://p:8443'' @ ''/enroll''" "RenewEndpoint meet_config = ''https://p:8443'' @ ''/renew''"
  "EnrollToken meet_config \<noteq> []"
proof -
  have p: "key_path meet_config = ''/c/client.key''" "cert_path meet_config = ''/c/client.crt''" "ca_path meet_config = ''/c/ca.crt''"
    "clean (CertDir meet_config) = ''/c''" "dir_chain ''/c'' = [''/c'']" by code_simp+
  show "quiet meet_world" by (simp add: meet_world_def run_world_def quiet_def)
  show "cert_dir_ready meet_config meet_world"
    unfolding cert_dir_ready_def p by (simp add: meet_world_def is_dir_in_def)
  show "lookup meet_world (key_path meet_config) = None" "contents (ca_path meet_config) meet_world = Some run_ca"
    unfolding p by (simp_all add: meet_world_def contents_def)
qed (simp_all add: meet_config_def run_config_def)

theorem first_start_enrols_by_token_witness:
  "\<exists>i w' sn. EnsureIdentity (agent_crypto desk_crypto) (mock_web desk_crypto Some meet_handshake ''https://p:8443'' (Some ''web-1''))
      meet_config meet_world (demo_server, meet_desk 7) = (Inr i, w', sn)
    \<and> CommonName (Subject (idLeaf i)) = ''web-1'' \<and> idKey i = 7 \<and> srvLog (fst sn) = [LogIssued ''enroll'' ''web-1'']"
proof -
  have ca: "srvCA demo_server = demo_ca" "srvToken demo_server = ''tok''" "srvLog demo_server = []" by (simp_all add: demo_server_def)
  have hs: "meet_handshake \<lparr>tlsRoots = run_ca, tlsChain = None\<rparr> (srvCA demo_server) (meet_desk 8) = (Some [], meet_desk 8)"
    by (simp add: meet_handshake_def)
  have sg: "SignCSR desk_crypto (srvCA demo_server) meet_csr certTTL (meet_desk 8) = (Inr (meet_cert 8), meet_desk 9)"
    using meet_signed [of 8] by (simp add: ca)
  from first_start_enrols_by_token [where hs = meet_handshake and gunzip = Some, OF desk_crypto_ok meet_files(1,2,3,4) meet_agent(4) meet_files(8,6) meet_agent(1,2,3) _ hs sg meet_texts]
  show ?thesis using meet_files(5) ca by auto
qed

definition meet_identity :: "(nat, nat, unit, bytes) identity" where
  "meet_identity = \<lparr>idKey = 7, idKeyPEM = run_key 7, idChain = [put_nums [0, 9, 0, 1750000100, 7] ''web-1''],
     idLeaf = the (desk_parse_cert (put_nums [0, 9, 0, 1750000100, 7] ''web-1'')), idPool = run_ca, idCertPath = cert_path meet_config\<rparr>"

theorem renewal_at_the_platform_witness:
  "(\<exists>i' w' sn. Renew (agent_crypto desk_crypto) (mock_web desk_crypto Some (demo_handshake ''web-1'') ''https://p:8443'' (Some ''web-1''))
      meet_config meet_identity meet_world (demo_server, meet_desk 8) = (Inr (), i', w', sn) \<and> contents (cert_path meet_config) w' = Some (meet_cert 8))
   \<and> (\<exists>i' w' sn. Renew (agent_crypto desk_crypto) (mock_web desk_crypto Some (demo_handshake ''web-1'') ''https://p:8443'' (Some ''web-1''))
      meet_config meet_identity meet_world (demo_server\<lparr>srvRevoked := [''web-1'']\<rparr>, meet_desk 8) = (Inl (RenewPost (PostReturned 403)), i', w', sn))"
proof -
  let ?srv = "demo_server\<lparr>srvRevoked := [''web-1'']\<rparr>"
  have ca: "srvCA demo_server = demo_ca" "srvCA ?srv = srvCA demo_server" by (simp_all add: demo_server_def)
  have hs: "demo_handshake ''web-1'' (TLSConfig meet_identity) (srvCA srv) (meet_desk 8) = (Some (demo_peer ''web-1'' # []), meet_desk 8)" for srv
    by (simp add: demo_handshake_def)
  have sg: "SignCSR desk_crypto (srvCA demo_server) meet_csr certTTL (meet_desk 8) = (Inr (meet_cert 8), meet_desk 9)"
    using meet_signed [of 8] by (simp add: ca)
  have id: "idCertPath meet_identity = cert_path meet_config" "MarshalKeyPEM desk_crypto (idKey meet_identity) = Inr (idKeyPEM meet_identity)"
    "MarshalCSRPEM desk_crypto (idKey meet_identity) ''web-1'' d = (Inr meet_csr, d)" for d
    by (simp_all add: meet_identity_def meet_agent)
  have cn: "CommonName (Subject (demo_peer ''web-1'')) = ''web-1''"
    by (simp add: demo_peer_def with_key_def desk_template_def client_template_def)
  have rb: "sint (RenewBefore meet_config) < 2 ^ 63 - 1" by code_simp
  have sg2: "SignCSR desk_crypto (srvCA ?srv) meet_csr certTTL (meet_desk 8) = (Inr (meet_cert 8), meet_desk 9)" using sg by (simp add: ca)
  have ne: "''web-1'' \<noteq> []" by simp
  have texts2: "list_all utf8_ok [meet_csr, ''web-1'', meet_cert 8, caCertPEM (srvCA ?srv)]"
    "length (issued_body (caCertPEM (srvCA ?srv)) (meet_cert 8)) \<le> 2 ^ 20" unfolding ca(2) by (rule meet_texts)+
  have "\<not> isRevoked demo_server ''web-1''" "isRevoked ?srv ''web-1''" by (simp_all add: isRevoked_def demo_server_def)
  with renewal_at_the_platform [where hs = "demo_handshake ''web-1''" and srv = demo_server and gunzip = Some, OF desk_crypto_ok meet_files(1,2) id(1) meet_files(7) id(2,3) ne hs sg meet_texts rb]
    renewal_at_the_platform [where hs = "demo_handshake ''web-1''" and srv = ?srv and gunzip = Some, OF desk_crypto_ok meet_files(1,2) id(1) meet_files(7) id(2,3) ne hs sg2 texts2(1) meet_texts(2,3,4) texts2(2) rb]
  show ?thesis by (auto simp: cn)
qed

end
