(* ===== verification/Buffer_Frame.thy ===== *)
theory Buffer_Frame
  imports Buffer_Props
begin

text \<open>
  What the queue leaves alone: every operation but \<open>Open\<close> writes below the queue directory only, so the cursor,
  the certificates and whatever else lies beside it are as before.
\<close>

subsection \<open>Writing nowhere but in a set of paths\<close>

definition only_in :: "string set \<Rightarrow> world \<Rightarrow> world \<Rightarrow> bool" where
  "only_in S w w' \<longleftrightarrow> (\<forall>p. p \<notin> S \<longrightarrow> lookup w' p = lookup w p)"

lemma only_in_same [simp]: "w_files w' = w_files w \<Longrightarrow> only_in S w w'"
  by (simp add: only_in_def)

lemma only_in_trans [trans]: "only_in S w w1 \<Longrightarrow> only_in S w1 w' \<Longrightarrow> only_in S w w'"
  by (simp add: only_in_def)

lemma only_in_remove: "os_remove p w = (r, w') \<Longrightarrow> p \<in> S \<Longrightarrow> only_in S w w'"
  using os_remove_ok [of p w _ w'] os_remove_err [of p w _ w']
  by (cases r) (auto simp: only_in_def map_of_delete)

lemma only_in_write: "os_write_file p b m w = (r, w') \<Longrightarrow> p \<in> S \<Longrightarrow> only_in S w w'"
  using os_write_file_ok [of p b m w _ w'] os_write_file_err [of p b m w _ w']
  by (cases r) (fastforce simp: only_in_def map_of_update)+

lemma only_in_rename: "os_rename p p' w = (r, w') \<Longrightarrow> p \<in> S \<Longrightarrow> p' \<in> S \<Longrightarrow> only_in S w w'"
  using os_rename_ok [of p p' w _ w'] os_rename_err [of p p' w _ w']
  by (cases r) (fastforce simp: only_in_def map_of_update map_of_delete)+

text \<open>The set of the queue: everything below its directory.\<close>

definition below :: "string \<Rightarrow> string set" where
  "below d = {p. has_prefix p (dir_prefix d)}"

lemma below_iff: "p \<in> below d \<longleftrightarrow> has_prefix p (dir_prefix d)"
  by (simp add: below_def)

subsection \<open>The paths of the queue\<close>

lemma inside_name: "is_clean d \<Longrightarrow> valid_name n \<Longrightarrow> join_path [d, n] @ s \<in> below d"
  by (simp add: join_path_name has_prefix_iff below_def)

lemmas inside_child = inside_name [where s = "[]", simplified]

lemma inside_dead:
  assumes "queue_ok q" and "qDir q \<noteq> ''.''" and "valid_name n"
  shows "join_path [qDeadDir q, n] \<in> below (qDir q)"
proof -
  have cl: "is_clean (qDir q)" and dd: "qDeadDir q = dir_prefix (qDir q) @ deadDirName"
    using assms(1) join_path_name [of "qDir q" deadDirName] by (auto simp: queue_ok_def)
  have "dir_prefix (qDir q) \<noteq> []" using assms(2) by (simp add: dir_prefix_def)
  then have "qDeadDir q \<noteq> ''.''" "qDeadDir q \<noteq> [slash]" unfolding dd
    by (auto simp: deadDirName_def append_eq_Cons_conv)
  then have "dir_prefix (qDeadDir q) = dir_prefix (qDir q) @ deadDirName @ [slash]"
    by (simp add: dir_prefix_def [of "qDeadDir q"]) (simp add: dd)
  then have "join_path [qDeadDir q, n] = dir_prefix (qDir q) @ deadDirName @ [slash] @ n"
    using join_path_name [of "qDeadDir q" n] assms(1,3) by auto
  then show ?thesis by (simp add: has_prefix_iff below_def)
qed

subsection \<open>The operations\<close>

lemma dropOldest_confined:
  assumes "queue_ok q" and "dropOldestLocked q w = (r, q', w')"
  shows "only_in (below (qDir q)) w w' \<and> same_conf q q'"
  using assms(2)
proof (cases rule: dropOldest_cases)
  case (dropped n ns w1 sz w2)
  have "valid_name n" using sortedPending_mem [OF dropped(2), of n] by simp
  then have "join_path [qDir q, n] \<in> below (qDir q)" using assms(1) inside_child by auto
  then show ?thesis using dropped(5,6) by (auto simp: only_in_def map_of_delete same_conf_def)
qed (simp_all add: same_conf_def)

lemma enforceLimits_confined:
  "queue_ok q \<Longrightarrow> enforceLimitsLocked n q w = (r, q', w') \<Longrightarrow> only_in (below (qDir q)) w w' \<and> same_conf q q'"
proof (induction n q w arbitrary: r rule: enforceLimitsLocked.induct)
  case (1 n q w)
  obtain r1 q1 w1 where d: "dropOldestLocked q w = (r1, q1, w1)" by (metis prod_cases3)
  note c = dropOldest_confined [OF 1(2) d]
  have q1: "queue_ok q1" using queue_ok_conf [OF 1(2)] c by blast
  show ?case
  proof (cases "overLimitLocked q n \<and> r1 = Inr True")
    case True
    then have "enforceLimitsLocked n q1 w1 = (r, q', w')" using 1(3) d by (subst (asm) enforceLimitsLocked.simps) simp
    then have "only_in (below (qDir q1)) w1 w' \<and> same_conf q1 q'" using True q1 d by (intro 1(1)) auto
    then show ?thesis using c only_in_trans by (auto simp: same_conf_def)
  next
    case False
    then show ?thesis using 1(3) d c
      by (subst (asm) enforceLimitsLocked.simps) (auto simp: same_conf_def split: if_splits sum.splits)
  qed
qed

lemma Write_confined:
  assumes "queue_ok q" and "slash \<notin> set (ID ev)" and "Write ev q w = (r, q', w')"
  shows "only_in (below (qDir q)) w w'"
proof (cases "marshal_event ev")
  case (Some b)
  obtain r1 q1 w1 where en: "enforceLimitsLocked (int (length b)) q w = (r1, q1, w1)" by (metis prod_cases3)
  note c = enforceLimits_confined [OF assms(1) en]
  let ?f = "join_path [qDir q1, fileName ev]"
  have cl: "is_clean (qDir q1)" and dir: "qDir q1 = qDir q" using assms(1) c by (auto simp: same_conf_def queue_ok_def)
  have v: "valid_name (fileName ev)" using event_name_fileName [OF assms(2)] by (simp add: event_name_def)
  obtain r2 w2 where wt: "os_write_file (?f @ tmpSuffix) b filePerm w1 = (r2, w2)" by force
  obtain r3 w3 where rn: "os_rename (?f @ tmpSuffix) ?f w2 = (r3, w3)" by force
  obtain r4 w4 where rm: "os_remove (?f @ tmpSuffix) w3 = (r4, w4)" by force
  note i = inside_name [OF cl v, of tmpSuffix] and j = inside_child [OF cl v]
  have "only_in (below (qDir q)) w1 w2" "only_in (below (qDir q)) w2 w3" "only_in (below (qDir q)) w3 w4"
    using only_in_write [OF wt i] only_in_rename [OF rn i j] only_in_remove [OF rm i] dir by simp_all
  moreover have "w' \<in> {w1, w2, w3, w4}"
    using assms(3) Some en wt rn rm by (auto simp: Write_def Let_def split: sum.splits)
  ultimately show ?thesis using c only_in_trans by blast
qed (use assms(3) in \<open>simp add: Write_def\<close>)

lemma deadLetterFile_confined:
  assumes "queue_ok q" and "qDir q \<noteq> ''.''" and "valid_name n"
    and "deadLetterFileLocked (join_path [qDir q, n]) sz q w = (r, q', w')"
  shows "only_in (below (qDir q)) w w' \<and> same_conf q q'"
proof -
  have cl: "is_clean (qDir q)" using assms(1) by auto
  let ?p = "join_path [qDir q, n]" and ?d = "join_path [qDeadDir q, n]"
  obtain r1 w1 where rn: "os_rename ?p ?d w = (r1, w1)" by force
  have "only_in (below (qDir q)) w w1"
    using only_in_rename [OF rn inside_child [OF cl assms(3)] inside_dead [OF assms(1-3)]] .
  then show ?thesis
    using assms(4) rn base_name_join [OF cl assms(3)]
    by (auto simp: deadLetterFileLocked_def same_conf_def split: sum.splits if_splits)
qed

lemma read_entries_confined:
  assumes "queue_ok q" and "qDir q \<noteq> ''.''" and "\<forall>n\<in>set ns. valid_name n"
    and "read_entries maxN maxB ns b s q w = (r, q', w')"
  shows "only_in (below (qDir q)) w w' \<and> same_conf q q'"
  using assms
proof (induction maxN maxB ns b s q w arbitrary: r rule: read_entries.induct)
  case (2 maxN maxB n ns b s q w)
  let ?p = "join_path [qDir q, n]"
  obtain rr w1 where rd: "os_read_file ?p w = (rr, w1)" by force
  have f: "w_files w1 = w_files w" using rd by (simp add: frame_simps)
  show ?case
  proof (cases "0 < maxN \<and> batch_len b \<ge> maxN")
    case True
    then show ?thesis using 2(7) by (simp add: same_conf_def)
  next
    case False
    show ?thesis
    proof (cases rr)
      case (Inl e)
      show ?thesis
      proof (cases "e = ENOENT")
        case True
        have "only_in (below (qDir q)) w1 w' \<and> same_conf q q'"
          by (rule 2(1) [OF False refl rd [symmetric] Inl True 2(4,5)]) (use 2(6,7) False rd Inl True in simp_all)
        then show ?thesis using only_in_trans [OF only_in_same [OF f]] by blast
      qed (use 2(7) False rd Inl f in \<open>simp add: same_conf_def\<close>)
    next
      case (Inr d)
      show ?thesis
      proof (cases "0 < maxB \<and> 0 < batch_len b \<and> s + int (length d) > maxB")
        case big: True
        then show ?thesis using 2(7) False rd Inr f by (simp add: same_conf_def)
      next
        case small: False
        show ?thesis
        proof (cases "unmarshal_event d")
          case None
          obtain r2 q2 w2 where dl: "deadLetterFileLocked ?p (int (length d)) q w1 = (r2, q2, w2)" by (metis prod_cases3)
          have c: "only_in (below (qDir q)) w1 w2 \<and> same_conf q q2"
            using 2(4-6) dl by (intro deadLetterFile_confined) auto
          have q2: "queue_ok q2" using queue_ok_conf [OF 2(4)] c by blast
          have dir: "qDir q2 \<noteq> ''.''" "qDir q2 = qDir q" using 2(5) c by (simp_all add: same_conf_def)
          have ns: "\<forall>n\<in>set ns. valid_name n" using 2(6) by simp
          have "only_in (below (qDir q2)) w2 w' \<and> same_conf q2 q'"
            by (rule 2(2) [OF False refl rd [symmetric] Inr small None dl [symmetric] refl q2 dir(1) ns])
              (use 2(7) False rd Inr small None dl in simp)
          then have r: "only_in (below (qDir q)) w2 w'" "same_conf q2 q'" by (simp_all only: dir(2))
          have "only_in (below (qDir q)) w w'"
            using only_in_trans [OF only_in_same [OF f] only_in_trans [OF conjunct1 [OF c] r(1)]] .
          then show ?thesis using c r(2) by (simp add: same_conf_def)
        next
          case (Some ev)
          have ns: "\<forall>n\<in>set ns. valid_name n" using 2(6) by simp
          have "only_in (below (qDir q)) w1 w' \<and> same_conf q q'"
            by (rule 2(3) [OF False refl rd [symmetric] Inr small Some 2(4,5) ns])
              (use 2(7) False rd Inr small Some in simp)
          then show ?thesis using only_in_trans [OF only_in_same [OF f]] by blast
        qed
      qed
    qed
  qed
qed (simp add: same_conf_def)

lemma ReadBatch_confined:
  assumes "queue_ok q" and "qDir q \<noteq> ''.''" and "ReadBatch maxN maxB q w = (r, q', w')"
  shows "only_in (below (qDir q)) w w' \<and> same_conf q q'"
proof -
  obtain r1 w1 where sp: "sortedPendingLocked q w = (r1, w1)" by force
  have f: "w_files w1 = w_files w" using sp by (simp add: frame_simps)
  show ?thesis
  proof (cases r1)
    case (Inr ns)
    have "\<forall>n\<in>set ns. valid_name n" using sortedPending_mem [OF sp [unfolded Inr]] by blast
    then have "only_in (below (qDir q)) w1 w' \<and> same_conf q q'"
      using assms sp Inr read_entries_confined [OF assms(1,2)] by (simp add: ReadBatch_def)
    then show ?thesis using only_in_trans only_in_same [OF f, of "below (qDir q)"] by blast
  qed (use assms(3) sp f in \<open>simp add: ReadBatch_def same_conf_def\<close>)
qed

lemma file_names_valid: "file_names q w ns \<Longrightarrow> \<forall>n\<in>set ns. valid_name n"
  by (simp add: file_names_def event_name_def)

lemma ack_files_confined:
  assumes "queue_ok q" and "\<forall>n\<in>set ns. valid_name n" and "ack_files (paths_of q ns) fe q w = (r, q', w')"
  shows "only_in (below (qDir q)) w w' \<and> same_conf q q'"
  using assms
proof (induction ns arbitrary: fe q w)
  case (Cons n ns)
  let ?p = "join_path [qDir q, n]"
  obtain sz w1 where fs: "fileSize ?p w = (sz, w1)" by force
  obtain r2 w2 where rm: "os_remove ?p w1 = (r2, w2)" by force
  have cl: "is_clean (qDir q)" using Cons.prems(1) by auto
  have v: "valid_name n" using Cons.prems(2) by simp
  have "only_in (below (qDir q)) w w1" "only_in (below (qDir q)) w1 w2"
    using fs only_in_remove [OF rm inside_child [OF cl v]] by (simp_all add: frame_simps)
  then have c: "only_in (below (qDir q)) w w2" using only_in_trans by blast
  obtain fe2 q2 where rec: "ack_files (paths_of q ns) fe2 q2 w2 = (r, q', w')" and q2: "same_conf q q2"
  proof (cases r2)
    case (Inl e)
    then show thesis using Cons.prems(3) fs rm that [of _ q]
      by (cases "e = ENOENT") (auto simp: same_conf_def)
  next
    case (Inr u)
    then show thesis using Cons.prems(3) fs rm that [of fe "q\<lparr>qCount := qCount q - 1, qBytes := qBytes q - sz\<rparr>"]
      by (simp add: same_conf_def)
  qed
  have dir: "qDir q2 = qDir q" using q2 by (simp add: same_conf_def)
  have ns: "\<forall>n\<in>set ns. valid_name n" using Cons.prems(2) by simp
  have "only_in (below (qDir q)) w2 w' \<and> same_conf q2 q'"
    using Cons.IH [OF queue_ok_conf [OF Cons.prems(1) q2] ns, of fe2 w2] rec by (simp only: dir)
  then show ?case using c q2 only_in_trans by (fastforce simp: same_conf_def)
qed (simp add: same_conf_def)

lemma dead_files_confined:
  assumes "queue_ok q" and "qDir q \<noteq> ''.''" and "\<forall>n\<in>set ns. valid_name n"
    and "dead_files (paths_of q ns) fe q w = (r, q', w')"
  shows "only_in (below (qDir q)) w w' \<and> same_conf q q'"
  using assms
proof (induction ns arbitrary: fe q w)
  case (Cons n ns)
  let ?p = "join_path [qDir q, n]"
  obtain sz w1 where fs: "fileSize ?p w = (sz, w1)" by force
  obtain r2 q2 w2 where dl: "deadLetterFileLocked ?p sz q w1 = (r2, q2, w2)" by (metis prod_cases3)
  have v: "valid_name n" using Cons.prems(3) by simp
  have d: "only_in (below (qDir q)) w1 w2 \<and> same_conf q q2" by (rule deadLetterFile_confined [OF Cons.prems(1,2) v dl])
  have c: "only_in (below (qDir q)) w w2" using fs d only_in_trans [of "below (qDir q)" w w1 w2] by (simp add: frame_simps)
  obtain fe2 where rec: "dead_files (paths_of q ns) fe2 q2 w2 = (r, q', w')"
    using Cons.prems(4) fs dl by (cases r2) (auto)
  have dir: "qDir q2 = qDir q" using d by (simp add: same_conf_def)
  have ns: "\<forall>n\<in>set ns. valid_name n" using Cons.prems(3) by simp
  have q2: "queue_ok q2" using queue_ok_conf [OF Cons.prems(1)] d by blast
  have "only_in (below (qDir q)) w2 w' \<and> same_conf q2 q'"
    using Cons.IH [OF q2 _ ns, of fe2 w2] rec Cons.prems(2) by (simp add: dir)
  then show ?case using c d only_in_trans by (fastforce simp: same_conf_def)
qed (simp add: same_conf_def)

lemma Ack_confined:
  "queue_ok q \<Longrightarrow> file_names q w ns \<Longrightarrow> bFiles b = paths_of q ns \<Longrightarrow> Ack b q w = (r, q', w')
    \<Longrightarrow> only_in (below (qDir q)) w w' \<and> same_conf q q'"
  using ack_files_confined [OF _ file_names_valid] by (simp add: Ack_def)

lemma DeadLetter_confined:
  "queue_ok q \<Longrightarrow> qDir q \<noteq> ''.'' \<Longrightarrow> file_names q w ns \<Longrightarrow> bFiles b = paths_of q ns \<Longrightarrow> DeadLetter b q w = (r, q', w')
    \<Longrightarrow> only_in (below (qDir q)) w w' \<and> same_conf q q'"
  using dead_files_confined [OF _ _ file_names_valid] by (simp add: DeadLetter_def)

end
