(* ===== verification/Auth_Theorems.thy ===== *)
theory Auth_Theorems
  imports Auth_Collector Atomic_File "HOL-Library.Multiset"
begin

text \<open>What the journald collector guarantees.\<close>

subsection \<open>UUIDs\<close>

lemma hex_encode_Cons: "hex_encode (b # bs) = hex_byte b @ hex_encode bs"
  by (simp add: hex_encode_def)

lemma hex_encode_Nil [simp]: "hex_encode [] = []"
  by (simp add: hex_encode_def)

lemma length_hex_encode [simp]: "length (hex_encode bs) = 2 * length bs"
  by (induction bs) (simp_all add: hex_encode_Cons hex_byte_def)

definition lower_hex :: "char \<Rightarrow> bool" where
  "lower_hex c \<longleftrightarrow> c \<in> set ''0123456789abcdef''"

lemma hex_digit_lower: "n < 16 \<Longrightarrow> lower_hex (hex_digit n)"
proof -
  have "list_all (\<lambda>n. lower_hex (hex_digit n)) [0..<16]" by code_simp
  then show "n < 16 \<Longrightarrow> lower_hex (hex_digit n)" by (simp only: list_all_iff set_upt) simp
qed

lemma hex_digit_inj: "m < 16 \<Longrightarrow> n < 16 \<Longrightarrow> hex_digit m = hex_digit n \<longleftrightarrow> m = n"
proof -
  have "list_all (\<lambda>m. list_all (\<lambda>n. hex_digit m = hex_digit n \<longrightarrow> m = n) [0..<16]) [0..<16]" by code_simp
  then show "m < 16 \<Longrightarrow> n < 16 \<Longrightarrow> hex_digit m = hex_digit n \<longleftrightarrow> m = n"
    by (simp only: list_all_iff set_upt) auto
qed

lemma octet_bounds: "unat (b :: octet) div 16 < 16" "unat (b :: octet) mod 16 < 16"
  using unsigned_less [of b, where 'a = nat] by (simp_all add: less_mult_imp_div_less)

lemma hex_byte_inj: "hex_byte a = hex_byte b \<longleftrightarrow> a = b"
proof
  assume "hex_byte a = hex_byte b"
  then have "unat a div 16 = unat b div 16" "unat a mod 16 = unat b mod 16"
    using hex_digit_inj octet_bounds by (auto simp: hex_byte_def)
  then have "unat a = unat b" by (metis div_mult_mod_eq)
  then show "a = b" by (simp add: word_unat_eq_iff)
qed simp

lemma hex_encode_inj: "length as = length bs \<Longrightarrow> hex_encode as = hex_encode bs \<longleftrightarrow> as = bs"
proof (induction as bs rule: list_induct2)
  case (Cons a as b bs)
  have "length (hex_byte a) = length (hex_byte b)" by (simp add: hex_byte_def)
  then show ?case using Cons.IH hex_byte_inj by (auto simp: hex_encode_Cons)
qed simp

lemma hex_encode_lower: "c \<in> set (hex_encode bs) \<Longrightarrow> lower_hex c"
  by (induction bs) (auto simp: hex_encode_Cons hex_byte_def hex_digit_lower octet_bounds)

lemma hex_encode_append: "hex_encode (as @ bs) = hex_encode as @ hex_encode bs"
  by (simp add: hex_encode_def)

text \<open>A version 4, variant 1 UUID in the 8-4-4-4-12 form.\<close>

definition uuid_form :: "string \<Rightarrow> bool" where
  "uuid_form u \<longleftrightarrow> (\<exists>a b c d e. u = a @ ''-'' @ b @ ''-'' @ c @ ''-'' @ d @ ''-'' @ e
     \<and> map length [a, b, c, d, e] = [8, 4, 4, 4, 12] \<and> (\<forall>x\<in>set (a @ b @ c @ d @ e). lower_hex x)
     \<and> hd c = CHR ''4'' \<and> hd d \<in> set ''89ab'')"

lemma div16_nat: "unat (w :: octet) div 16 = unat (drop_bit 4 w)"
  by (simp only: unsigned_drop_bit_eq drop_bit_eq_div) (simp add: unat_div)

lemma version_nibble: "unat ((x AND 0x0f) OR (0x40 :: octet)) div 16 = 4"
proof -
  have "drop_bit 4 ((x AND 0x0f) OR 0x40) = (4 :: octet)" by simp
  then show ?thesis unfolding div16_nat by (simp only:) simp
qed

lemma variant_nibble: "unat ((x AND 0x3f) OR (0x80 :: octet)) div 16 \<in> {8, 9, 10, 11}"
proof -
  have "drop_bit 4 ((x AND 0x3f) OR 0x80) = (drop_bit 4 x AND 3) OR (8 :: octet)" by simp
  moreover have "drop_bit 4 x AND 3 \<in> {0, 1, 2, 3 :: octet}"
  proof -
    have "drop_bit 4 x AND 3 \<le> (3 :: octet)" by (rule word_and_le1)
    then have "unat (drop_bit 4 x AND 3) \<le> 3" by (simp only: word_le_nat_alt) simp
    then have "unat (drop_bit 4 x AND 3) \<in> {0, 1, 2, 3}" by auto
    then show ?thesis by (auto simp: word_unat_eq_iff)
  qed
  ultimately have "drop_bit 4 ((x AND 0x3f) OR 0x80) \<in> {8, 9, 10, 11 :: octet}" by auto
  then have "unat (drop_bit 4 ((x AND 0x3f) OR (0x80 :: octet))) \<in> {8, 9, 10, 11}" by auto
  then show ?thesis unfolding div16_nat .
qed

lemma some_hex_digits:
  "hex_digit 4 = CHR ''4''" "hex_digit 8 = CHR ''8''" "hex_digit 9 = CHR ''9''" "hex_digit 10 = CHR ''a''"
  "hex_digit 11 = CHR ''b''"
  by code_simp+

lemma length_stamp [simp]: "length (stamp_uuid b) = length b"
  by (simp add: stamp_uuid_def)

lemma newUUID_form:
  assumes "length b = 16" and "newUUID (Some b) = Some u"
  shows "uuid_form u"
proof -
  let ?b = "stamp_uuid b"
  have u: "u = hex_encode (take 4 ?b) @ ''-'' @ hex_encode (take 2 (drop 4 ?b)) @ ''-''
      @ hex_encode (take 2 (drop 6 ?b)) @ ''-'' @ hex_encode (take 2 (drop 8 ?b)) @ ''-'' @ hex_encode (drop 10 ?b)"
    using assms(2) by (simp add: newUUID_def Let_def)
  have hd: "hd (hex_encode (take 2 (drop k ?b))) = hex_digit (unat (?b ! k) div 16)" if "k + 2 \<le> 16" for k
  proof -
    have "drop k ?b = ?b ! k # drop (Suc k) ?b" using that assms(1) by (simp add: Cons_nth_drop_Suc)
    then show ?thesis by (simp add: hex_encode_Cons hex_byte_def numeral_2_eq_2)
  qed
  have "?b ! 6 = (b ! 6 AND 0x0f) OR 0x40" "?b ! 8 = (b ! 8 AND 0x3f) OR 0x80"
    using assms(1) by (simp_all add: stamp_uuid_def)
  then have "hd (hex_encode (take 2 (drop 6 ?b))) = CHR ''4''" "hd (hex_encode (take 2 (drop 8 ?b))) \<in> set ''89ab''"
    using hd [of 6] hd [of 8] version_nibble [of "b ! 6"] variant_nibble [of "b ! 8"]
    by (auto simp: some_hex_digits)
  then show ?thesis unfolding uuid_form_def u
    by (intro exI conjI) (rule refl, auto simp: assms(1) dest: hex_encode_lower)
qed

lemma uuid_form_facts:
  assumes "uuid_form u"
  shows "length u = 36" and "slash \<notin> set u" and "utf8_ok u"
proof -
  obtain a b c d e where u: "u = a @ ''-'' @ b @ ''-'' @ c @ ''-'' @ d @ ''-'' @ e"
    and len: "map length [a, b, c, d, e] = [8, 4, 4, 4, 12]" and hex: "\<forall>x\<in>set (a @ b @ c @ d @ e). lower_hex x"
    using assms unfolding uuid_form_def by (elim exE conjE) (rule that)
  show "length u = 36" using u len by simp
  have ch: "lower_hex x \<or> x = CHR ''-''" if "x \<in> set u" for x using that u hex by auto
  have "\<not> lower_hex slash" by code_simp
  then show "slash \<notin> set u" using ch [of slash] by auto
  have "list_all ascii (CHR ''-'' # ''0123456789abcdef'')" by code_simp
  moreover have "x \<in> set (CHR ''-'' # ''0123456789abcdef'')" if "x \<in> set u" for x
    using ch [OF that] unfolding lower_hex_def list.set(2) [of "CHR ''-''"] by blast
  ultimately have "\<forall>x\<in>set u. ascii x" unfolding list_all_iff by blast
  then show "utf8_ok u" by (rule utf8_ok_ascii)
qed


text \<open>
  C27. Every event ID is a well-formed UUID: on the 16 bytes of the random source \<open>newUUID\<close> returns 36
  characters in the canonical version 4, variant 1 form, and two results are equal only if the bytes
  agree outside the six bits the format fixes, so all 122 random bits reach the ID.
\<close>

theorem uuid_well_formed_and_injective:
  assumes "length a = 16" and "length b = 16"
  shows "\<exists>u v. newUUID (Some a) = Some u \<and> newUUID (Some b) = Some v \<and> uuid_form u
    \<and> (u = v \<longleftrightarrow> (\<forall>i<16. if i = 6 then a ! i AND 0x0f = b ! i AND 0x0f
         else if i = 8 then a ! i AND 0x3f = b ! i AND 0x3f else a ! i = b ! i))"
proof -
  let ?h = "\<lambda>b. hex_encode (take 4 b) @ ''-'' @ hex_encode (take 2 (drop 4 b)) @ ''-''
      @ hex_encode (take 2 (drop 6 b)) @ ''-'' @ hex_encode (take 2 (drop 8 b)) @ ''-'' @ hex_encode (drop 10 b)"
  have inj: "?h x = ?h y \<longleftrightarrow> x = y" if "length x = 16" "length y = 16" for x y :: "octet list"
  proof
    assume "?h x = ?h y"
    then have "take 4 x = take 4 y \<and> take 2 (drop 4 x) = take 2 (drop 4 y) \<and> take 2 (drop 6 x) = take 2 (drop 6 y)
        \<and> take 2 (drop 8 x) = take 2 (drop 8 y) \<and> drop 10 x = drop 10 y"
      using that by (simp add: hex_encode_inj)
    moreover have "z = take 4 z @ take 2 (drop 4 z) @ take 2 (drop 6 z) @ take 2 (drop 8 z) @ drop 10 z" for z :: "octet list"
      using append_take_drop_id [of 4 z] append_take_drop_id [of 2 "drop 4 z"] append_take_drop_id [of 2 "drop 6 z"]
        append_take_drop_id [of 2 "drop 8 z"] by (simp add: drop_drop)
    ultimately show "x = y" by metis
  qed simp
  have nib: "(x AND 0x0f) OR 0x40 = (y AND 0x0f) OR 0x40 \<longleftrightarrow> x AND 0x0f = y AND 0x0f" for x y :: octet
  proof
    assume "(x AND 0x0f) OR 0x40 = (y AND 0x0f) OR 0x40"
    then have "((x AND 0x0f) OR 0x40) AND 0x0f = ((y AND 0x0f) OR 0x40) AND 0x0f" by (simp only:)
    then show "x AND 0x0f = y AND 0x0f" by (simp add: bit.conj_disj_distrib2 and.assoc)
  qed simp
  have var: "(x AND 0x3f) OR 0x80 = (y AND 0x3f) OR 0x80 \<longleftrightarrow> x AND 0x3f = y AND 0x3f" for x y :: octet
  proof
    assume "(x AND 0x3f) OR 0x80 = (y AND 0x3f) OR 0x80"
    then have "((x AND 0x3f) OR 0x80) AND 0x3f = ((y AND 0x3f) OR 0x80) AND 0x3f" by (simp only:)
    then show "x AND 0x3f = y AND 0x3f" by (simp add: bit.conj_disj_distrib2 and.assoc)
  qed simp
  have st: "stamp_uuid a = stamp_uuid b \<longleftrightarrow> (\<forall>i<16. if i = 6 then a ! i AND 0x0f = b ! i AND 0x0f
         else if i = 8 then a ! i AND 0x3f = b ! i AND 0x3f else a ! i = b ! i)"
    unfolding list_eq_iff_nth_eq using assms nib var by (auto simp: stamp_uuid_def nth_list_update)
  obtain u v where u: "newUUID (Some a) = Some u" and v: "newUUID (Some b) = Some v"
    by (simp add: newUUID_def Let_def)
  then have "u = v \<longleftrightarrow> stamp_uuid a = stamp_uuid b"
    using inj [of "stamp_uuid a" "stamp_uuid b"] assms by (auto simp: newUUID_def Let_def)
  then show ?thesis using u v st newUUID_form [OF assms(1) u] by blast
qed

theorem uuid_well_formed_and_injective_witness:
  "\<exists>u v. newUUID (Some (replicate 16 0)) = Some u \<and> newUUID (Some (replicate 15 0 @ [1])) = Some v
    \<and> uuid_form u \<and> u \<noteq> v"
proof -
  let ?a = "replicate 16 0 :: octet list" and ?b = "replicate 15 0 @ [1] :: octet list"
  obtain u v where uv: "newUUID (Some ?a) = Some u" "newUUID (Some ?b) = Some v" "uuid_form u"
    and eq: "u = v \<longleftrightarrow> (\<forall>i<16. if i = 6 then ?a ! i AND 0x0f = ?b ! i AND 0x0f
         else if i = 8 then ?a ! i AND 0x3f = ?b ! i AND 0x3f else ?a ! i = ?b ! i)"
    using uuid_well_formed_and_injective [of ?a ?b] by auto
  have "?a ! 15 \<noteq> ?b ! 15" by (simp add: nth_append)
  then have "u \<noteq> v" unfolding eq by (auto intro!: exI [of _ 15])
  then show ?thesis using uv by blast
qed


subsection \<open>Payloads\<close>

lemma canonical_ext:
  assumes "canonical m" and "canonical n" and "map_of m = map_of n"
  shows "m = n"
proof -
  have d: "sorted (map fst m)" "distinct (map fst m)" "sorted (map fst n)" "distinct (map fst n)"
    using assms(1,2) by (simp_all add: canonical_def strict_sorted_iff)
  then have s: "set m = set n" using assms(3) by (metis map_of_eqI map_of_inject_set)
  have "inj_on fst (set m \<union> set n)" using s d by (simp add: distinct_map)
  then show ?thesis using d s by (intro map_sorted_distinct_set_unique [of fst]) (simp_all add: distinct_map)
qed

lemma buildPayload_snoc:
  "buildPayload (order @ [(j, k)]) flds =
     (if stringField flds j \<noteq> [] then map_put k (JStr (stringField flds j)) (buildPayload order flds)
      else buildPayload order flds)"
  by (simp add: buildPayload_def Let_def)

lemma buildPayload_Nil [simp]: "buildPayload [] flds = []"
  by (simp add: buildPayload_def)

lemma canonical_buildPayload: "canonical (buildPayload order flds)"
  by (induction order rule: rev_induct) (auto simp: buildPayload_snoc canonical_map_put split: prod.splits)

lemma map_of_buildPayload:
  "distinct (map snd order) \<Longrightarrow>
   map_of (buildPayload order flds) k =
     (case map_of (map prod.swap order) k of
        None \<Rightarrow> None
      | Some j \<Rightarrow> if stringField flds j = [] then None else Some (JStr (stringField flds j)))"
proof (induction order rule: rev_induct)
  case (snoc x order)
  obtain j l where x: "x = (j, l)" by force
  have "l \<notin> snd ` set order" using snoc.prems x by auto
  then have n: "map_of (map prod.swap order) l = None" by (force simp: map_of_eq_None_iff)
  show ?case
  proof (cases "k = l")
    case True
    have "map_of (buildPayload order flds) l = None" using snoc n True by simp
    then show ?thesis using True n x by (auto simp: buildPayload_snoc map_add_def split: option.splits)
  next
    case False
    then show ?thesis using snoc x by (auto simp: buildPayload_snoc map_add_def split: option.splits)
  qed
qed simp

lemma swap_map_of: "distinct (map snd order) \<Longrightarrow> map_of (map prod.swap order) k = Some j \<longleftrightarrow> (j, k) \<in> set order"
  by (subst map_of_eq_Some_iff) (auto simp: o_def image_iff intro!: bexI [of _ "(j, k)"])

lemma distinct_out_keys: "distinct (map snd journalFieldMap)"
  by code_simp

lemma buildPayload_order:
  assumes ord: "mset order = mset journalFieldMap"
  shows "buildPayload order flds = buildPayload journalFieldMap flds"
proof -
  have d: "distinct (map snd order)"
    using distinct_out_keys ord by (metis mset_eq_imp_distinct_iff mset_map)
  have "map_of (map prod.swap order) l = map_of (map prod.swap journalFieldMap) l" for l
    using swap_map_of [OF d, of l] swap_map_of [OF distinct_out_keys, of l] mset_eq_setD [OF ord]
    by (metis option.exhaust)
  then have "map_of (buildPayload order flds) = map_of (buildPayload journalFieldMap flds)"
    using d distinct_out_keys by (simp add: fun_eq_iff map_of_buildPayload)
  then show ?thesis by (intro canonical_ext canonical_buildPayload)
qed

text \<open>
  The payload holds exactly the mapped fields: for every order in which Go may range over
  \<open>journalFieldMap\<close> the result is the same map, with an entry under an output key exactly when the
  journal field it stands for is a non-empty string, and that string as its value; other fields
  never get in.
\<close>

theorem payload_is_the_mapped_fields:
  assumes "mset order = mset journalFieldMap"
  shows "buildPayload order flds = buildPayload journalFieldMap flds
    \<and> (map_of (buildPayload order flds) k = Some v \<longleftrightarrow>
         (\<exists>j. (j, k) \<in> set journalFieldMap \<and> stringField flds j \<noteq> [] \<and> v = JStr (stringField flds j)))"
proof -
  have "map_of (buildPayload journalFieldMap flds) k = Some v \<longleftrightarrow>
      (\<exists>j. (j, k) \<in> set journalFieldMap \<and> stringField flds j \<noteq> [] \<and> v = JStr (stringField flds j))"
    using distinct_out_keys
    by (auto simp: map_of_buildPayload swap_map_of [OF distinct_out_keys, of k, symmetric] split: option.splits if_splits)
  then show ?thesis using buildPayload_order [OF assms] by metis
qed

theorem payload_is_the_mapped_fields_witness:
  "map_of (buildPayload (rev journalFieldMap) (Some [(''MESSAGE'', JStr ''x''), (''OTHER'', JStr ''y'')])) ''message''
     = Some (JStr ''x'')"
proof -
  let ?f = "Some [(''MESSAGE'', JStr ''x''), (''OTHER'', JStr ''y'')]"
  have f: "stringField ?f ''MESSAGE'' = ''x''" by (simp add: stringField_def)
  have "(''MESSAGE'', ''message'') \<in> set journalFieldMap" by (simp add: journalFieldMap_def)
  then show ?thesis
    using payload_is_the_mapped_fields [of "rev journalFieldMap" ?f "''message''" "JStr ''x''"] f by auto
qed


subsection \<open>Entries\<close>

lemma set_put_all: "set (put_all m kvs) \<subseteq> set m \<union> set kvs"
proof (induction kvs arbitrary: m)
  case (Cons kv kvs)
  then show ?case using set_map_put [of "fst kv" "snd kv" m] by (fastforce simp: put_all_def case_prod_beta)
qed (simp add: put_all_def)

lemma to_any_JStr: "to_any j = JStr s \<longleftrightarrow> j = JStr s"
  by (cases j) auto

lemma unmarshal_fields_utf8:
  assumes "unmarshal_fields line = Some flds"
  shows "utf8_ok (stringField flds k)"
proof (cases "stringField flds k = []")
  case False
  then obtain m v where m: "flds = Some m" "map_of m k = Some (JStr v)" "stringField flds k = v"
    by (auto simp: stringField_def split: option.splits json.splits)
  obtain ms where j: "json_parse line = Some (JObj ms)" "m = put_all [] (map (map_prod id to_any) ms)"
    using assms m(1) by (auto simp: unmarshal_fields_def into_map_def split: json.splits if_splits bind_splits)
  have "(k, JStr v) \<in> set m" using m(2) by (rule map_of_SomeD)
  then obtain j' where "(k, j') \<in> set ms" "to_any j' = JStr v"
    using set_put_all [of "[]" "map (map_prod id to_any) ms"] j(2) by auto
  then have "(k, JStr v) \<in> set ms" by (simp add: to_any_JStr)
  then show ?thesis using json_parse_utf8 [OF j(1)] m(3) by (fastforce simp: list_all_iff)
qed (simp add: utf8_ok_ascii)

lemma out_keys_ascii: "list_all (\<lambda>(j, k). list_all ascii k) journalFieldMap"
  by code_simp

lemma payload_entries:
  assumes "(k, v) \<in> set (buildPayload order flds)"
  shows "\<exists>j. (j, k) \<in> set order \<and> v = JStr (stringField flds j)"
  using assms
proof (induction order rule: rev_induct)
  case (snoc x order)
  obtain j l where x: "x = (j, l)" by force
  have "set (buildPayload (order @ [x]) flds) \<subseteq> insert (l, JStr (stringField flds j)) (set (buildPayload order flds))"
    using set_map_put [of l "JStr (stringField flds j)" "buildPayload order flds"] by (auto simp: x buildPayload_snoc)
  then show ?case using snoc x by auto
qed simp

lemma payload_fit:
  assumes "unmarshal_fields line = Some flds" and "set order \<subseteq> set journalFieldMap"
  shows "payload_ok (Some (buildPayload order flds))"
proof -
  have e: "utf8_ok k \<and> (\<exists>s. v = JStr s \<and> utf8_ok s)" if kv: "(k, v) \<in> set (buildPayload order flds)" for k v
  proof -
    obtain j where j: "(j, k) \<in> set journalFieldMap" "v = JStr (stringField flds j)"
      using payload_entries [OF kv] assms(2) by auto
    then have "utf8_ok k" using out_keys_ascii by (intro utf8_ok_ascii) (auto simp: list_all_iff)
    then show ?thesis using unmarshal_fields_utf8 [OF assms(1)] j(2) by blast
  qed
  then have "json_ok (JObj (buildPayload order flds)) \<and> list_all snd (map (map_prod id json_canon) (buildPayload order flds))
      \<and> any_ok (JObj (buildPayload order flds))"
    by (auto simp: list_all_iff dest!: e)
  then show ?thesis by (simp add: payload_ok_def canonical_buildPayload)
qed

text \<open>The environment in which an entry is parsed: 16 random bytes, a UTF-8 host name, some order.\<close>

definition env_ok :: "entry_env \<Rightarrow> bool" where
  "env_ok ee \<longleftrightarrow> (\<exists>b. eeRandom ee = Some b \<and> length b = 16) \<and> utf8_ok (eeHost ee) \<and> mset (eeOrder ee) = mset journalFieldMap"

lemma parseEntry_ok:
  assumes "parseEntry ee line = Some (Inr (ev, cursor))" and "env_ok ee"
  shows "uuid_form (ID ev)" and "event_ok ev" and "cursor \<noteq> []" and "CollectedAt ev = eeNow ee"
    and "\<exists>flds us. unmarshal_fields line = Some flds \<and> cursor = stringField flds ''__CURSOR''
      \<and> parse_int64 (stringField flds ''__REALTIME_TIMESTAMP'') = Some us \<and> Timestamp ev = us * 1000
      \<and> Payload ev = Some (buildPayload journalFieldMap flds)"
    and "Source ev = collector_name" and "Host ev = eeHost ee"
proof -
  obtain flds ts where f: "unmarshal_fields line = Some flds" and c: "cursor = stringField flds ''__CURSOR''" "cursor \<noteq> []"
    and ts: "parseRealtime (stringField flds ''__REALTIME_TIMESTAMP'') = Some ts"
    and ne: "NewEvent (eeRandom ee) (eeNow ee) (eeHost ee) collector_name ts (buildPayload (eeOrder ee) flds) = Some ev"
    using assms(1) by (auto simp: parseEntry_def Let_def split: option.splits if_splits)
  obtain b where b: "eeRandom ee = Some b" "length b = 16" using assms(2) by (auto simp: env_ok_def)
  obtain u where u: "newUUID (Some b) = Some u"
    and ev: "ev = \<lparr>ID = u, Source = collector_name, Timestamp = ts, CollectedAt = eeNow ee, Host = eeHost ee,
      Payload = Some (buildPayload (eeOrder ee) flds)\<rparr>"
    using ne b by (auto simp: NewEvent_def)
  have ord: "mset (eeOrder ee) = mset journalFieldMap" using assms(2) by (simp add: env_ok_def)
  show "uuid_form (ID ev)" using newUUID_form [OF b(2) u] ev by simp
  moreover have "utf8_ok collector_name" by code_simp
  ultimately show "event_ok ev"
    using uuid_form_facts(3) payload_fit [OF f, of "eeOrder ee"] mset_eq_setD [OF ord] assms(2) ev
    by (simp add: event_ok_def env_ok_def)
  show "cursor \<noteq> []" "CollectedAt ev = eeNow ee" "Source ev = collector_name" "Host ev = eeHost ee"
    using c ev by simp_all
  have "buildPayload (eeOrder ee) flds = buildPayload journalFieldMap flds" by (rule buildPayload_order [OF ord])
  then show "\<exists>flds us. unmarshal_fields line = Some flds \<and> cursor = stringField flds ''__CURSOR''
      \<and> parse_int64 (stringField flds ''__REALTIME_TIMESTAMP'') = Some us \<and> Timestamp ev = us * 1000
      \<and> Payload ev = Some (buildPayload journalFieldMap flds)"
    using f c ts ev by (auto simp: parseRealtime_def unix_micro_time_def split: if_splits)
qed


definition demo_random :: "octet list" where
  "demo_random = replicate 16 0"

definition demo_env :: entry_env where
  "demo_env = \<lparr>eeRandom = Some demo_random, eeNow = 5, eeHost = ''web-1'', eeOrder = journalFieldMap\<rparr>"

lemma demo_env_ok: "env_ok demo_env"
proof -
  have "utf8_ok ''web-1''" by code_simp
  then show ?thesis by (simp add: env_ok_def demo_env_def demo_random_def)
qed

definition demo_entry :: "string \<Rightarrow> string \<Rightarrow> bytes" where
  "demo_entry cursor micros = print_json (JObj [(''__CURSOR'', JStr cursor), (''__REALTIME_TIMESTAMP'', JStr micros),
     (''MESSAGE'', JStr ''Failed password'')])"

definition demo_line :: bytes where
  "demo_line = demo_entry ''s=1;i=2'' ''1700000000000000''"

lemma demo_line_parses: "\<exists>ev. parseEntry demo_env demo_line = Some (Inr (ev, ''s=1;i=2''))"
proof -
  have "(case parseEntry demo_env demo_line of Some (Inr (ev, c)) \<Rightarrow> c = ''s=1;i=2'' | _ \<Rightarrow> False)" by code_simp
  then show ?thesis by (auto split: option.splits sum.splits prod.splits)
qed

text \<open>
  C26. What \<open>parseEntry\<close> accepts.  A successful result carries the entry's own cursor (never empty) and
  its realtime timestamp, the collector's name, a fresh UUID and the collection time it was given,
  and the mapped payload; and the event it makes is in the domain of the JSON codec, so whatever
  bytes it is stored as decode to the same event.
\<close>

theorem parsed_entry_is_sound:
  assumes "parseEntry ee line = Some (Inr (ev, cursor))" and "env_ok ee"
  shows "cursor \<noteq> [] \<and> uuid_form (ID ev) \<and> Source ev = ''auth.journald'' \<and> CollectedAt ev = eeNow ee \<and> Host ev = eeHost ee
    \<and> (\<exists>flds us. unmarshal_fields line = Some flds \<and> cursor = stringField flds ''__CURSOR''
        \<and> parse_int64 (stringField flds ''__REALTIME_TIMESTAMP'') = Some us \<and> Timestamp ev = us * 1000
        \<and> Payload ev = Some (buildPayload journalFieldMap flds))
    \<and> (\<forall>b. marshal_event ev = Some b \<longrightarrow> unmarshal_event b = Some ev)"
  using parseEntry_ok [OF assms] unmarshal_marshal_event by (simp add: collector_name_def)

theorem parsed_entry_is_sound_witness:
  "\<exists>ev. parseEntry demo_env demo_line = Some (Inr (ev, ''s=1;i=2'')) \<and> uuid_form (ID ev)
    \<and> (\<forall>b. marshal_event ev = Some b \<longrightarrow> unmarshal_event b = Some ev)"
  using demo_line_parses parsed_entry_is_sound [OF _ demo_env_ok] by blast

text \<open>An entry with a timestamp after the year 9999 is parsed but cannot be marshalled.\<close>

definition far_line :: bytes where
  "far_line = demo_entry ''s=1;i=3'' ''300000000000000000''"

lemma far_line_fields: "unmarshal_fields far_line = Some (Some [(''MESSAGE'', JStr ''Failed password''),
    (''__CURSOR'', JStr ''s=1;i=3''), (''__REALTIME_TIMESTAMP'', JStr ''300000000000000000'')])"
  by code_simp

lemma far_time: "parseRealtime ''300000000000000000'' = Some 300000000000000000000"
  "format_time 300000000000000000000 = None"
  by code_simp+

subsection \<open>The resume cursor\<close>

definition put_cursor :: "string \<Rightarrow> string \<Rightarrow> world \<Rightarrow> bool \<times> world" where
  "put_cursor path c w = (case writeCursor path c w of (r, w1) \<Rightarrow> (is_ok r, w1))"

lemma writeCursor_contents:
  assumes "writeCursor path c w = (r, w')"
  shows "contents path w' = (if is_ok r then Some (c @ [newline]) else contents path w)"
proof -
  let ?tmp = "path @ ''.tmp''"
  obtain r1 w1 where wt: "os_write_file ?tmp (c @ [newline]) (6 * 8 * 8) w = (r1, w1)" by force
  have w1: "contents path w1 = contents path w" by (rule write_other_file [OF wt]) simp
  show ?thesis
  proof (cases r1)
    case (Inl e)
    then show ?thesis using assms wt w1 by (auto simp: writeCursor_def Let_def)
  next
    case (Inr u)
    then have rn: "os_rename ?tmp path w1 = (r, w')" using assms wt by (simp add: writeCursor_def Let_def)
    show ?thesis
    proof (cases r)
      case (Inl e)
      then show ?thesis using rename_failed_contents [of ?tmp path w1 e w' path] rn w1 by simp
    next
      case (Inr v)
      then show ?thesis using write_then_rename [of ?tmp _ _ w u w1 path v w'] wt rn \<open>r1 = Inr u\<close> by simp
    qed
  qed
qed

interpretation cursor: atomic_store "put_cursor path" "contents path" "\<lambda>c. Some (c @ [newline])"
  for path
proof
  fix c s t
  show "put_cursor path c s = (True, t) \<Longrightarrow> contents path t = Some (c @ [newline])"
    "put_cursor path c s = (False, t) \<Longrightarrow> contents path t = contents path s"
    using writeCursor_contents [of path c s] by (auto simp: put_cursor_def split: prod.splits)
qed

lemma readCursor_contents:
  assumes "readCursor path w = (Inr c, w')"
  shows "c = (case contents path w of None \<Rightarrow> [] | Some b \<Rightarrow> trim_space b)"
proof -
  obtain r w1 where rd: "os_read_file path w = (r, w1)" by force
  show ?thesis
  proof (cases r)
    case (Inl e)
    then have "e = ENOENT" "c = []" using assms rd by (auto simp: readCursor_def split: if_splits)
    then show ?thesis using os_read_file_ENOENT [of path w w1] rd Inl by (simp add: contents_def)
  next
    case (Inr b)
    then show ?thesis using assms rd os_read_file_ok [of path w b w1] by (auto simp: readCursor_def contents_def)
  qed
qed

lemma newline_runes: "list_all (\<lambda>r. newline \<in> set r \<longrightarrow> r = [newline]) space_runes" "[newline] \<in> set space_runes"
  by code_simp+

lemma runes_nonempty: "list_all (\<lambda>r. r \<noteq> []) space_runes"
  by code_simp

lemma find_Some_mem: "find P xs = Some x \<Longrightarrow> x \<in> set xs \<and> P x"
  by (induction xs) (auto split: if_splits)

lemma find_exists: "x \<in> set xs \<Longrightarrow> P x \<Longrightarrow> \<exists>y. find P xs = Some y"
  by (induction xs) auto

lemma trim_space_line:
  assumes "no_outer_space c" and "c \<noteq> []"
  shows "trim_space (c @ [newline]) = c"
proof -
  have nl: "r = [newline]" if "r \<in> set space_runes" "newline \<in> set r" for r
    using that newline_runes(1) by (auto simp: list_all_iff)
  have ne: "r \<noteq> []" if "r \<in> set space_runes" for r using that runes_nonempty by (auto simp: list_all_iff)
  have front: "\<not> has_prefix (c @ [newline]) r" if r: "r \<in> set space_runes" for r
  proof
    assume "has_prefix (c @ [newline]) r"
    then obtain t where t: "c @ [newline] = r @ t" by (auto simp: has_prefix_iff)
    show False
    proof (cases t rule: rev_cases)
      case Nil
      then have "r = [newline]" using nl [OF r] t by (metis append_Nil2 in_set_conv_decomp)
      then show False using t Nil assms(2) by simp
    next
      case (snoc u x)
      then have "c = r @ u" using t by simp
      then show False using assms(1) r by (auto simp: no_outer_space_def has_prefix_iff)
    qed
  qed
  have s1: "trim_runes space_runes (c @ [newline]) = c @ [newline]" using front by (intro trim_runes_id) blast
  have tails: "\<not> has_prefix (rev c) r" if "r \<in> set (map rev space_runes)" for r
    using assms(1) that by (auto simp: no_outer_space_def has_prefix_rev)
  have only: "r = [newline]" if r: "r \<in> set (map rev space_runes)" and hp: "has_prefix (newline # rev c) r" for r
  proof -
    obtain r0 where r0: "r0 \<in> set space_runes" "r = rev r0" using r by auto
    obtain t where t: "newline # rev c = r @ t" using hp by (auto simp: has_prefix_iff)
    have "r \<noteq> []" using r0 ne by simp
    then have "newline \<in> set r" using t by (cases r) auto
    then have "newline \<in> set r0" using r0 by simp
    then show ?thesis using nl r0 by auto
  qed
  have "find (\<lambda>r. r \<noteq> [] \<and> has_prefix (newline # rev c) r) (map rev space_runes) = Some [newline]"
  proof -
    have "[newline] \<in> set (map rev space_runes)" using newline_runes(2) by force
    then have "\<exists>x. find (\<lambda>r. r \<noteq> [] \<and> has_prefix (newline # rev c) r) (map rev space_runes) = Some x"
      by (rule find_exists) (simp add: has_prefix_def)
    then obtain x where x: "find (\<lambda>r. r \<noteq> [] \<and> has_prefix (newline # rev c) r) (map rev space_runes) = Some x" by blast
    then have "x = [newline]" using only find_Some_mem by fast
    with x show ?thesis by simp
  qed
  then have "trim_runes (map rev space_runes) (newline # rev c) = trim_runes (map rev space_runes) (rev c)"
    by (subst trim_runes.simps) simp
  also have "\<dots> = rev c" using tails by (intro trim_runes_id) blast
  finally show ?thesis by (simp add: trim_space_def s1)
qed

text \<open>What the next start reads, from the contents of the file: nothing when there is no file.\<close>

definition saved_cursor :: "bytes option \<Rightarrow> string" where
  "saved_cursor file = (case file of None \<Rightarrow> [] | Some b \<Rightarrow> trim_space b)"

lemma quiet_readCursor:
  assumes "quiet w" and "\<forall>a. lookup w path \<noteq> Some (Dir a)"
  shows "\<exists>w'. readCursor path w = (Inr (saved_cursor (contents path w)), w')"
proof (cases "lookup w path")
  case None
  then show ?thesis
    using assms(1) by (simp add: readCursor_def os_read_file_def sys_quiet contents_def saved_cursor_def)
next
  case (Some nd)
  then obtain a b where "nd = File a b" using assms(2) by (cases nd) auto
  then show ?thesis
    using Some assms(1) by (simp add: readCursor_def os_read_file_def sys_quiet contents_def saved_cursor_def)
qed

lemma writeCursor_no_dir:
  assumes "writeCursor path c w = (r, w')" and "\<forall>a. lookup w path \<noteq> Some (Dir a)"
  shows "\<forall>a. lookup w' path \<noteq> Some (Dir a)"
proof -
  let ?tmp = "path @ ''.tmp''"
  obtain r1 w1 where wt: "os_write_file ?tmp (c @ [newline]) (6 * 8 * 8) w = (r1, w1)" by force
  have w1: "lookup w1 path = lookup w path"
  proof (cases r1)
    case (Inl e)
    have "w_files w1 = w_files w \<or> (\<exists>a n. w_files w1 = AList.update ?tmp (File a (take n (c @ [newline]))) (w_files w))"
      using os_write_file_err [OF wt [unfolded Inl]] by blast
    then show ?thesis by (auto simp: map_of_update)
  next
    case (Inr u)
    then show ?thesis using os_write_file_ok [of ?tmp "c @ [newline]" "6 * 8 * 8" w u w1] wt by (auto simp: map_of_update)
  qed
  show ?thesis
  proof (cases r1)
    case (Inl e)
    then show ?thesis using assms wt w1 by (simp add: writeCursor_def Let_def)
  next
    case (Inr u)
    then have rn: "os_rename ?tmp path w1 = (r, w')" using assms wt by (simp add: writeCursor_def Let_def)
    show ?thesis
    proof (cases r)
      case (Inl e)
      then have "w_files w' = w_files w1" using os_rename_err rn by blast
      then show ?thesis using w1 assms(2) by simp
    next
      case (Inr v)
      then obtain a b where "w_files w' = AList.update path (File a b) (AList.delete ?tmp (w_files w1))"
        using os_rename_ok [of ?tmp path w1 v w'] rn by blast
      then show ?thesis by (simp add: map_of_update)
    qed
  qed
qed

text \<open>
  C11. The cursor file is replaced atomically.  Whatever fails in \<open>writeCursor\<close>, and also when the process
  dies in it, the next start on a disk that works again (\<open>restarted\<close>) reads a cursor: the new one if the
  call reported success, and exactly the one that was saved before if it did not, never a truncated or
  mixed one.  A \<open>readCursor\<close> of the same process that succeeds returns the same.  The path is not that
  of a directory, and a cursor has no white space around it.
\<close>

theorem cursor_is_replaced_atomically:
  assumes "writeCursor path c w = (r, w1)" and "no_outer_space c" and "c \<noteq> []"
    and "\<forall>a. lookup w path \<noteq> Some (Dir a)"
  shows "(\<exists>w2. readCursor path (restarted w1)
        = (Inr (if is_ok r then c else saved_cursor (contents path w)), w2))
    \<and> (\<forall>c' w2. readCursor path w1 = (Inr c', w2) \<longrightarrow>
          c' = (if is_ok r then c else saved_cursor (contents path w)))"
proof -
  have now: "saved_cursor (contents path w1) = (if is_ok r then c else saved_cursor (contents path w))"
    using writeCursor_contents [OF assms(1)] trim_space_line [OF assms(2,3)] by (simp add: saved_cursor_def)
  have "contents path (restarted w1) = contents path w1" by (rule contents_same) simp
  moreover have "\<forall>a. lookup (restarted w1) path \<noteq> Some (Dir a)"
    using writeCursor_no_dir [OF assms(1,4)] by simp
  ultimately have "\<exists>w2. readCursor path (restarted w1) = (Inr (saved_cursor (contents path w1)), w2)"
    using quiet_readCursor [of "restarted w1" path] by simp
  then show ?thesis using readCursor_contents [of path w1] now by (auto simp: saved_cursor_def)
qed

definition empty_world :: world where
  "empty_world = \<lparr>w_files = [], w_umask = 2 * 8 + 2, w_ids = (0, 0), w_tick = 0, w_fault = \<lambda>_. Go,
     w_crashed = False, w_clock = \<lambda>n. int n\<rparr>"

text \<open>A cursor is saved, the next \<open>writeCursor\<close> dies before its rename or with half of its temporary file written.\<close>

definition cursor_world :: "nat \<Rightarrow> world" where
  "cursor_world n = empty_world\<lparr>w_files := [(''/cur'', File \<lparr>a_perm = 6 * 8 * 8, a_owner = (0, 0)\<rparr> (''s=1'' @ [newline]))],
     w_fault := \<lambda>k. if k = n then Halt 3 else Go\<rparr>"

theorem cursor_is_replaced_atomically_witness:
  "(\<exists>w1 w2. writeCursor ''/cur'' ''s=2'' (cursor_world 0) = (Inl EHALT, w1) \<and> readCursor ''/cur'' (restarted w1) = (Inr ''s=1'', w2))
    \<and> (\<exists>w1 w2. writeCursor ''/cur'' ''s=2'' (cursor_world 1) = (Inl EHALT, w1) \<and> readCursor ''/cur'' (restarted w1) = (Inr ''s=1'', w2))
    \<and> (\<exists>w1 w2. writeCursor ''/cur'' ''s=2'' (cursor_world 2) = (Inr (), w1) \<and> readCursor ''/cur'' (restarted w1) = (Inr ''s=2'', w2))"
proof -
  have c: "no_outer_space ''s=2''" by code_simp
  have d: "\<forall>a. lookup (cursor_world n) ''/cur'' \<noteq> Some (Dir a)" for n by (simp add: cursor_world_def)
  have old: "saved_cursor (contents ''/cur'' (cursor_world n)) = ''s=1''" for n
  proof -
    have "trim_space (''s=1'' @ [newline]) = ''s=1''" by code_simp
    then show ?thesis by (simp add: cursor_world_def contents_def saved_cursor_def)
  qed
  have run: "\<exists>w1 w2. writeCursor ''/cur'' ''s=2'' (cursor_world n) = (r, w1)
      \<and> readCursor ''/cur'' (restarted w1) = (Inr (if is_ok r then ''s=2'' else ''s=1''), w2)"
    if "fst (writeCursor ''/cur'' ''s=2'' (cursor_world n)) = r" for n r
  proof -
    have w: "writeCursor ''/cur'' ''s=2'' (cursor_world n) = (r, snd (writeCursor ''/cur'' ''s=2'' (cursor_world n)))"
      using that by (simp add: prod_eq_iff)
    from cursor_is_replaced_atomically [OF w c _ d] w show ?thesis unfolding old by auto
  qed
  have "fst (writeCursor ''/cur'' ''s=2'' (cursor_world 0)) = Inl EHALT" "fst (writeCursor ''/cur'' ''s=2'' (cursor_world 1)) = Inl EHALT"
    "fst (writeCursor ''/cur'' ''s=2'' (cursor_world 2)) = Inr ()" by code_simp+
  from run [OF this(1)] run [OF this(2)] run [OF this(3)] show ?thesis by simp
qed

subsection \<open>Scanning\<close>

definition entry_of :: "(nat \<Rightarrow> entry_env) \<Rightarrow> nat \<times> bytes \<Rightarrow> (event \<times> string) option" where
  "entry_of ee il =
     (if trim_space (snd il) = [] then None
      else case parseEntry (ee (fst il)) (snd il) of Some (Inr x) \<Rightarrow> Some x | _ \<Rightarrow> None)"

lemma parseEntry_no_panic: "eeRandom ee \<noteq> None \<Longrightarrow> parseEntry ee l \<noteq> None"
  by (auto simp: parseEntry_def Let_def NewEvent_def newUUID_def split: option.splits)

lemma scan_step_all:
  assumes "\<forall>j. eeRandom (ee j) \<noteq> None" and "scan_step_lines path ee (\<lambda>_. True) i ls w = (evs, fin, w')"
  shows "evs = List.map_filter (entry_of ee) (enumerate i ls) \<and> fin = ScanEOF
    \<and> w' = snd (cursor.puts path (map snd evs) w)"
  using assms(2)
proof (induction ls arbitrary: i w evs fin w')
  case (Cons l ls)
  obtain r where r: "parseEntry (ee i) l = Some r" using parseEntry_no_panic assms(1) by blast
  show ?case
  proof (cases "entry_of ee (i, l)")
    case None
    then have "scan_step_lines path ee (\<lambda>_. True) (Suc i) ls w = (evs, fin, w')"
      using Cons.prems r by (auto simp: entry_of_def split: if_splits sum.splits)
    from Cons.IH [OF this] None show ?thesis by (simp add: map_filter_simps)
  next
    case (Some x)
    obtain ev c where x: "x = (ev, c)" by force
    obtain r1 w1 where wc: "writeCursor path c w = (r1, w1)" by force
    obtain es f w2 where rest: "scan_step_lines path ee (\<lambda>_. True) (Suc i) ls w1 = (es, f, w2)" by (metis prod_cases3)
    have "evs = x # es \<and> fin = f \<and> w' = w2"
      using Cons.prems Some r wc rest x by (auto simp: entry_of_def split: if_splits sum.splits)
    moreover from Cons.IH [OF rest]
    have "es = List.map_filter (entry_of ee) (enumerate (Suc i) ls) \<and> f = ScanEOF \<and> w2 = snd (cursor.puts path (map snd es) w1)" .
    moreover have "put_cursor path c w = (is_ok r1, w1)" using wc by (simp add: put_cursor_def)
    ultimately show ?thesis
      using Some x by (simp add: map_filter_simps split: prod.splits)
  qed
qed (simp add: map_filter_simps)

text \<open>What one \<open>writeCursor\<close> after the other does: which of them reported success, and the world after all.\<close>

fun write_cursors :: "string \<Rightarrow> string list \<Rightarrow> world \<Rightarrow> (string \<times> bool) list \<times> world" where
  "write_cursors path [] w = ([], w)"
| "write_cursors path (c # cs) w =
     (case writeCursor path c w of
        (r, w1) \<Rightarrow> (case write_cursors path cs w1 of (log, w2) \<Rightarrow> ((c, is_ok r) # log, w2)))"

lemma write_cursors_puts: "write_cursors path cs w = cursor.puts path cs w"
  by (induction cs arbitrary: w) (simp_all add: put_cursor_def split: prod.split)

text \<open>A disk on which the cursor can be written: nothing fails, the directory is there, no directory is in the way.\<close>

definition cursor_writable :: "string \<Rightarrow> world \<Rightarrow> bool" where
  "cursor_writable path w \<longleftrightarrow> quiet w \<and> is_dir_in (w_files w) (dir_name path)
     \<and> is_dir_in (w_files w) (dir_name (path @ ''.tmp''))
     \<and> \<not> is_dir_in (w_files w) path \<and> \<not> is_dir_in (w_files w) (path @ ''.tmp'')"

lemma writable_writeCursor:
  assumes "cursor_writable path w"
  shows "\<exists>w'. writeCursor path c w = (Inr (), w') \<and> cursor_writable path w'"
proof -
  let ?tmp = "path @ ''.tmp''"
  have q: "quiet w" and d: "is_dir_in (w_files w) (dir_name path)" "is_dir_in (w_files w) (dir_name ?tmp)"
    "\<not> is_dir_in (w_files w) path" "\<not> is_dir_in (w_files w) ?tmp"
    using assms by (simp_all add: cursor_writable_def)
  obtain w1 where wt: "os_write_file ?tmp (c @ [newline]) (6 * 8 * 8) w = (Inr (), w1)"
    using q d by (simp add: os_write_file_def sys_quiet write_check_def)
  obtain a where f1: "w_files w1 = AList.update ?tmp (File a (c @ [newline])) (w_files w)"
    using os_write_file_ok [OF wt] by blast
  have q1: "quiet w1" using quiet_os(5) [OF wt q] .
  have keep1: "is_dir_in (w_files w1) x = is_dir_in (w_files w) x" for x
    using d(4) unfolding f1 is_dir_in_def by (auto simp: map_of_update)
  have l1: "lookup w1 ?tmp = Some (File a (c @ [newline]))" by (simp add: f1 map_of_update)
  obtain w2 where rn: "os_rename ?tmp path w1 = (Inr (), w2)"
    using q1 d l1 keep1 by (simp add: os_rename_def sys_quiet write_check_def)
  obtain a' b' where f2: "w_files w2 = AList.update path (File a' b') (AList.delete ?tmp (w_files w1))"
    using os_rename_ok [OF rn] by blast
  have keep2: "is_dir_in (w_files w2) x = is_dir_in (w_files w1) x" for x
    using d(3,4) keep1 unfolding f2 is_dir_in_def by (auto simp: map_of_update map_of_delete)
  have "quiet w2" using quiet_os(6) [OF rn q1] .
  then have "cursor_writable path w2" using d keep1 keep2 by (simp add: cursor_writable_def)
  then show ?thesis using wt rn by (simp add: writeCursor_def Let_def)
qed

lemma writable_cursors:
  "cursor_writable path w \<Longrightarrow> fst (write_cursors path cs w) = map (\<lambda>c. (c, True)) cs"
proof (induction cs arbitrary: w)
  case (Cons c cs)
  obtain w' where "writeCursor path c w = (Inr (), w')" "cursor_writable path w'"
    using writable_writeCursor [OF Cons.prems] by blast
  with Cons.IH [of w'] show ?case by (cases "write_cursors path cs w'") simp
qed simp

text \<open>
  C22. \<open>scan\<close> emits every usable entry once, in order, and no bad line stops it.  If the random source
  works and the consumer takes what it is offered, the events are exactly those of the lines that
  parse, whatever the others hold, and scanning ends only at the end of the stream or at an oversized
  line.  The files are then as after a \<open>writeCursor\<close> of each emitted cursor, in order, and the cursor file
  holds the last one whose \<open>writeCursor\<close> succeeded (or what it held before); where the cursor can be
  written that is the cursor of the last emitted entry.
\<close>

theorem scan_emits_every_usable_entry:
  assumes "\<forall>i. eeRandom (ee i) \<noteq> None" and "scan_lines stream = (ls, long)"
    and "scan path ee (\<lambda>_. True) stream w = (evs, fin, w')"
  shows "evs = List.map_filter (entry_of ee) (enumerate 0 ls)
    \<and> fin = (if long then ScanTooLong else ScanEOF)
    \<and> (\<exists>log. write_cursors path (map snd evs) w = (log, w')
         \<and> contents path w' = (case filter snd (rev log) of [] \<Rightarrow> contents path w | x # _ \<Rightarrow> Some (fst x @ [newline])))
    \<and> (cursor_writable path w \<longrightarrow>
         contents path w' = (if evs = [] then contents path w else Some (snd (last evs) @ [newline])))"
proof -
  obtain es f w1 where st: "scan_step_lines path ee (\<lambda>_. True) 0 ls w = (es, f, w1)" by (metis prod_cases3)
  note s = scan_step_all [OF assms(1) st]
  have e: "evs = es" "fin = (if f = ScanEOF \<and> long then ScanTooLong else f)" "w' = w1"
    using assms(2,3) st by (auto simp: scan_def)
  obtain log t where l: "cursor.puts path (map snd es) w = (log, t)" by force
  have wr: "write_cursors path (map snd evs) w = (log, w')" using l s e by (simp add: write_cursors_puts)
  have c: "contents path w' = (case filter snd (rev log) of [] \<Rightarrow> contents path w | x # _ \<Rightarrow> Some (fst x @ [newline]))"
    using cursor.puts_view [OF l] s l e by (simp add: cursor.last_done_def)
  have "log = map (\<lambda>c. (c, True)) (map snd evs)" if "cursor_writable path w"
    using writable_cursors [OF that, of "map snd evs"] wr by simp
  then have "cursor_writable path w \<longrightarrow>
         contents path w' = (if evs = [] then contents path w else Some (snd (last evs) @ [newline]))"
    using c by (cases evs rule: rev_cases) (auto simp: rev_map filter_map comp_def)
  with wr c s e show ?thesis by auto
qed

theorem scan_emits_every_usable_entry_witness:
  "\<exists>evs w'. scan ''/cur'' (\<lambda>_. demo_env) (\<lambda>_. True) (''junk'' @ [newline] @ demo_line @ [newline]) empty_world
      = (evs, ScanEOF, w') \<and> map snd evs = [''s=1;i=2''] \<and> contents ''/cur'' w' = Some (''s=1;i=2'' @ [newline])"
proof -
  let ?s = "''junk'' @ [newline] @ demo_line @ [newline]" and ?ee = "\<lambda>_ :: nat. demo_env"
  have ls: "scan_lines ?s = ([''junk'', demo_line], False)" by code_simp
  have rnd: "\<forall>i. eeRandom (?ee i) \<noteq> None" by (simp add: demo_env_def)
  obtain evs fin w' where sc: "scan ''/cur'' ?ee (\<lambda>_. True) ?s empty_world = (evs, fin, w')" by (metis prod_cases3)
  note t = scan_emits_every_usable_entry [OF rnd ls sc]
  have j: "entry_of ?ee (0, ''junk'') = None" by code_simp
  obtain ev where "parseEntry demo_env demo_line = Some (Inr (ev, ''s=1;i=2''))" using demo_line_parses by blast
  moreover have "trim_space demo_line \<noteq> []" by code_simp
  ultimately have d: "entry_of ?ee (Suc 0, demo_line) = Some (ev, ''s=1;i=2'')" by (simp add: entry_of_def)
  have "evs = [(ev, ''s=1;i=2'')]" "fin = ScanEOF" using t j d by (simp_all add: map_filter_simps)
  moreover have "cursor_writable ''/cur'' empty_world"
  proof -
    have "\<forall>p\<in>set [dir_name ''/cur'', dir_name (''/cur'' @ ''.tmp'')]. is_dir_in [] p" by code_simp
    moreover have "quiet empty_world" by (simp add: quiet_def empty_world_def)
    ultimately show ?thesis by (simp add: cursor_writable_def empty_world_def is_dir_in_def [of _ "_ # _"])
  qed
  ultimately show ?thesis using sc t by simp
qed

lemma takeWhile_shorter: "x \<in> set xs \<Longrightarrow> \<not> P x \<Longrightarrow> length (takeWhile P xs) < length xs"
  by (induction xs) auto

lemma scan_lines_oversized:
  assumes "snd (scan_lines pre) = False" and "pre = [] \<or> last pre = newline"
    and "newline \<notin> set big" and "maxLineBytes \<le> length big"
  shows "scan_lines (pre @ big @ rest) = (fst (scan_lines pre), True)"
  using assms(1,2)
proof (induction pre rule: scan_lines_induct)
  case (1 pre)
  show ?case
  proof (cases "pre = []")
    case True
    have "\<forall>x\<in>set big. x \<noteq> newline" using assms(3) by auto
    then have "length big \<le> length (takeWhile (\<lambda>c. c \<noteq> newline) (big @ rest))" by (simp add: takeWhile_append)
    then show ?thesis using True assms(4) by (simp add: scan_lines_simps [of "big @ rest"] scan_lines_simps [of "[]"] Let_def maxLineBytes_def)
  next
    case False
    let ?l = "takeWhile (\<lambda>c. c \<noteq> newline) pre"
    have "newline \<in> set pre" using False 1(3) by (metis last_in_set)
    then have tw: "takeWhile (\<lambda>c. c \<noteq> newline) (pre @ big @ rest) = ?l" and len: "length ?l < length pre"
      using takeWhile_shorter [of newline pre "\<lambda>c. c \<noteq> newline"] by (auto simp: takeWhile_append1)
    have short: "\<not> maxLineBytes \<le> length ?l" using 1(2) by (subst (asm) scan_lines_simps) (auto simp: Let_def split: if_splits)
    let ?t = "drop (Suc (length ?l)) pre"
    have s: "snd (scan_lines ?t) = False"
      using 1(2) False short by (subst (asm) scan_lines_simps) (auto simp: Let_def split: prod.splits)
    have "?t = [] \<or> last ?t = newline" using 1(3) False
      by (cases "Suc (length ?l) < length pre") (simp_all add: last_drop)
    from 1(1) [OF refl short False s this]
    have ih: "scan_lines (?t @ big @ rest) = (fst (scan_lines ?t), True)" .
    have "drop (Suc (length ?l)) (pre @ big @ rest) = ?t @ big @ rest" using len by simp
    then show ?thesis
      using short tw ih False by (simp add: scan_lines_simps [of "pre @ big @ rest"] scan_lines_simps [of pre] Let_def split: prod.splits)
  qed
qed

text \<open>
  C28. An oversized line takes the collector down.  Once the journal holds a line of \<open>2 ^ 20\<close> bytes or
  more, \<open>scan\<close> stops there with \<open>ErrTooLong\<close>: the events and the cursor are those of the lines before
  it, and nothing after it, however well-formed, is ever read.
\<close>

theorem oversized_line_stops_scan:
  assumes "scan_lines pre = (ls, False)" and "pre = [] \<or> last pre = newline"
    and "newline \<notin> set big" and "2 ^ 20 \<le> length big"
    and "scan path ee taken pre w = (evs, ScanEOF, w')"
  shows "scan path ee taken (pre @ big @ rest) w = (evs, ScanTooLong, w')"
proof -
  have "scan_lines (pre @ big @ rest) = (ls, True)"
    using scan_lines_oversized [of pre big rest] assms(1-4) by (simp add: maxLineBytes_def)
  then show ?thesis using assms(1,5) by (auto simp: scan_def split: prod.splits)
qed


theorem oversized_line_stops_scan_witness:
  "scan ''/cur'' (\<lambda>_. demo_env) (\<lambda>_. True) ([] @ replicate (2 ^ 20) (CHR ''x'') @ newline # demo_line) empty_world
     = ([], ScanTooLong, empty_world)"
proof (rule oversized_line_stops_scan)
  show "scan_lines [] = ([], False)" by code_simp
  show "newline \<notin> set (replicate (2 ^ 20) (CHR ''x''))" by (simp add: newline_def)
  show "scan ''/cur'' (\<lambda>_. demo_env) (\<lambda>_. True) [] empty_world = ([], ScanEOF, empty_world)"
    by (simp add: scan_def scan_lines_simps [of "[]"] Let_def maxLineBytes_def)
qed simp_all

text \<open>An entry dated after the year 9999 gets an event that has no JSON form.\<close>

lemma far_line_unmarshallable:
  assumes "env_ok ee"
  shows "\<exists>ev. parseEntry ee far_line = Some (Inr (ev, ''s=1;i=3'')) \<and> marshal_event ev = None"
proof -
  let ?f = "Some [(''MESSAGE'', JStr ''Failed password''), (''__CURSOR'', JStr ''s=1;i=3''),
    (''__REALTIME_TIMESTAMP'', JStr ''300000000000000000'')]"
  have s: "stringField ?f ''__CURSOR'' = ''s=1;i=3''" "stringField ?f ''__REALTIME_TIMESTAMP'' = ''300000000000000000''"
    by code_simp+
  obtain b u where "eeRandom ee = Some b" "newUUID (Some b) = Some u"
    using assms by (auto simp: env_ok_def newUUID_def Let_def)
  then show ?thesis
    using s far_time by (auto simp: parseEntry_def far_line_fields NewEvent_def marshal_event_def event_json_def Let_def)
qed

end
