(* ===== verification/Pipeline.thy ===== *)
theory Pipeline
  imports Buffer_Frame Sink Auth_Theorems Enroll
begin

text \<open>
  The agent as a whole: the start of \<open>runAgent\<close> in \<open>cmd/agent/main.go\<close> with the collector's \<open>Start\<close>, and
  the run of its three goroutines (collector, producer, consumer) as a step relation.  The goroutines
  interleave between operations in every way; each operation of the queue and each replacement of the
  cursor file is one step, and the process can die in any of them.
\<close>

subsection \<open>Starting\<close>

text \<open>
  \<open>exec.LookPath\<close> and the start of \<open>journalctl\<close> with its arguments, which gives the bytes it will write
  until its output ends.
\<close>

record journald =
  jcLookPath :: "string option"
  jcStart :: "string \<Rightarrow> string list \<Rightarrow> bytes option"

datatype collector_error = NoJournalctl | CursorUnreadable errno | JournalctlNotStarted

definition Start :: "journald \<Rightarrow> string \<Rightarrow> world \<Rightarrow> (collector_error + bytes) \<times> world" where
  "Start jc path w =
     (case jcLookPath jc of
        None \<Rightarrow> (Inl NoJournalctl, w)
      | Some journalctl \<Rightarrow>
          (case readCursor path w of
             (Inl e, w1) \<Rightarrow> (Inl (CursorUnreadable e), w1)
           | (Inr cursor, w1) \<Rightarrow>
               (case jcStart jc journalctl (journalctlArgs cursor) of
                  None \<Rightarrow> (Inl JournalctlNotStarted, w1)
                | Some stream \<Rightarrow> (Inr stream, w1))))"

text \<open>The identity \<open>buildSink\<close> returns; its delivery function is \<open>sink_deliver\<close>.\<close>

definition buildSink ::
  "('k, 'p, 'i, 'pool, 'n) crypto \<Rightarrow> ('pool, 'n) web \<Rightarrow> bool \<Rightarrow> config \<Rightarrow> world \<Rightarrow> 'n
    \<Rightarrow> (enroll_error + ('k, 'p, 'i, 'pool) identity option) \<times> world \<times> 'n"
where
  "buildSink cr web dryRun cfg w n =
     (if dryRun then (Inr None, w, n)
      else case EnsureIdentity cr web cfg w n of
          (Inl e, w1, n1) \<Rightarrow> (Inl e, w1, n1)
        | (Inr i, w1, n1) \<Rightarrow> (Inr (Some i), w1, n1))"

datatype start_error =
    NoStateDir errno
  | NoBuffer buf_error
  | NoSink enroll_error
  | NoCollector collector_error

definition queue_limits :: "config \<Rightarrow> limits" where
  "queue_limits cfg = \<lparr>MaxEvents = MaxQueueEvents cfg, MaxBytes = MaxQueueBytes cfg\<rparr>"

definition start_agent ::
  "('k, 'p, 'i, 'pool, 'n) crypto \<Rightarrow> ('pool, 'n) web \<Rightarrow> journald \<Rightarrow> bool \<Rightarrow> env \<Rightarrow> world \<Rightarrow> 'n
    \<Rightarrow> (start_error + queue \<times> ('k, 'p, 'i, 'pool) identity option \<times> bytes) \<times> world \<times> 'n"
where
  "start_agent cr web jc dryRun env w n =
     (let cfg = Load env in
      case EnsureStateDir cfg w of
        (Inl e, w1) \<Rightarrow> (Inl (NoStateDir e), w1, n)
      | (Inr _, w1) \<Rightarrow>
          (case Open (QueueDir cfg) (queue_limits cfg) w1 of
             (Inl e, w2) \<Rightarrow> (Inl (NoBuffer e), w2, n)
           | (Inr q, w2) \<Rightarrow>
               (case buildSink cr web dryRun cfg w2 n of
                  (Inl e, w3, n1) \<Rightarrow> (Inl (NoSink e), w3, n1)
                | (Inr i, w3, n1) \<Rightarrow>
                    (case Start jc (cursor_path (StateDir cfg)) w3 of
                       (Inl e, w4) \<Rightarrow> (Inl (NoCollector e), w4, n1)
                     | (Inr stream, w4) \<Rightarrow> (Inr (q, i, stream), w4, n1)))))"

subsection \<open>Running\<close>

text \<open>
  Where the goroutines are.  The collector has \<open>agLines\<close> left to scan, of which \<open>agIndex\<close> are behind it,
  and \<open>agOwed\<close> is the cursor of an emitted event it has still to persist.  The channel is unbuffered:
  an emitted event is at once with the producer, in \<open>agFlight\<close>, until \<open>Write\<close> has returned.  The
  consumer holds the batch \<open>agBatch\<close> between reading and settling it.  \<open>agStopping\<close> says that the
  context is cancelled.  \<open>agTaken\<close> and \<open>agWrote\<close> record what has passed the channel and what \<open>Write\<close>
  returned; no step reads them.
\<close>

record 'n agent =
  agLines :: "bytes list"
  agIndex :: nat
  agOwed :: "string option"
  agCollecting :: bool
  agFlight :: "event option"
  agProducing :: bool
  agBatch :: "batch option"
  agConsuming :: bool
  agStopping :: bool
  agSink :: "'n sink_state"
  agTaken :: "(event \<times> string) list"
  agWrote :: "(event \<times> (buf_error + unit)) list"

definition new_agent :: "queue \<Rightarrow> world \<Rightarrow> 'n \<Rightarrow> bytes \<Rightarrow> 'n agent" where
  "new_agent q w n stream =
     \<lparr>agLines = fst (scan_lines stream), agIndex = 0, agOwed = None, agCollecting = True, agFlight = None,
      agProducing = True, agBatch = None, agConsuming = True, agStopping = False,
      agSink = \<lparr>ssQueue = q, ssWorld = w, ssNet = n, ssAttempt = 0\<rparr>, agTaken = [], agWrote = []\<rparr>"

abbreviation agQueue :: "'n agent \<Rightarrow> queue" where "agQueue a \<equiv> ssQueue (agSink a)"
abbreviation agWorld :: "'n agent \<Rightarrow> world" where "agWorld a \<equiv> ssWorld (agSink a)"

definition with_store :: "queue \<Rightarrow> world \<Rightarrow> 'n agent \<Rightarrow> 'n agent" where
  "with_store q w a = a\<lparr>agSink := agSink a\<lparr>ssQueue := q, ssWorld := w\<rparr>\<rparr>"

text \<open>The consumer: reading a batch, and settling it by the outcome of its delivery.\<close>

definition consumer_read :: "config \<Rightarrow> 'n agent \<Rightarrow> 'n agent" where
  "consumer_read cfg a =
     (case ReadBatch (BatchSize cfg) 0 (agQueue a) (agWorld a) of
        (Inl e, q1, w1) \<Rightarrow> with_store q1 w1 a
      | (Inr b, q1, w1) \<Rightarrow>
          if batch_len b = 0 then (with_store q1 w1 a)\<lparr>agSink := (agSink a)\<lparr>ssQueue := q1, ssWorld := w1, ssAttempt := 0\<rparr>\<rparr>
          else (with_store q1 w1 a)\<lparr>agBatch := Some b\<rparr>)"

definition consumer_settle :: "'n deliver \<Rightarrow> batch \<Rightarrow> 'n agent \<Rightarrow> 'n agent" where
  "consumer_settle deliver b a =
     (let a0 = a\<lparr>agBatch := None\<rparr> in
      case deliver (Events b) (ssNet (agSink a)) of
        (Inr _, n1) \<Rightarrow>
          (case Ack b (agQueue a) (agWorld a) of
             (_, q2, w2) \<Rightarrow> a0\<lparr>agSink := \<lparr>ssQueue = q2, ssWorld = w2, ssNet = n1, ssAttempt = 0\<rparr>\<rparr>)
      | (Inl (ErrUnauthorized _), n1) \<Rightarrow>
          a0\<lparr>agSink := (agSink a)\<lparr>ssNet := n1\<rparr>, agStopping := True, agConsuming := False\<rparr>
      | (Inl (ErrPermanent _), n1) \<Rightarrow>
          (case DeadLetter b (agQueue a) (agWorld a) of
             (_, q2, w2) \<Rightarrow> a0\<lparr>agSink := \<lparr>ssQueue = q2, ssWorld = w2, ssNet = n1, ssAttempt = 0\<rparr>\<rparr>)
      | (Inl (ErrRetryable _), n1) \<Rightarrow>
          a0\<lparr>agSink := (agSink a)\<lparr>ssNet := n1, ssAttempt := ssAttempt (agSink a) + 1\<rparr>\<rparr>)"

definition producer_store :: "event \<Rightarrow> 'n agent \<Rightarrow> 'n agent" where
  "producer_store ev a =
     (case Write ev (agQueue a) (agWorld a) of
        (r, q1, w1) \<Rightarrow> (with_store q1 w1 a)\<lparr>agFlight := None, agWrote := agWrote a @ [(ev, r)]\<rparr>)"

definition collector_persist :: "string \<Rightarrow> string \<Rightarrow> 'n agent \<Rightarrow> 'n agent" where
  "collector_persist path c a = (with_store (agQueue a) (snd (writeCursor path c (agWorld a))) a)\<lparr>agOwed := None\<rparr>"

definition collector_emit :: "event \<Rightarrow> string \<Rightarrow> bytes list \<Rightarrow> 'n agent \<Rightarrow> 'n agent" where
  "collector_emit ev c ls a =
     a\<lparr>agLines := ls, agIndex := Suc (agIndex a), agOwed := Some c, agFlight := Some ev, agTaken := agTaken a @ [(ev, c)]\<rparr>"

text \<open>What the rest of the process and of the machine does: files that are neither the cursor's nor below the queue.\<close>

definition elsewhere :: "string \<Rightarrow> string \<Rightarrow> world \<Rightarrow> world \<Rightarrow> bool" where
  "elsewhere d path w w' \<longleftrightarrow> only_in (- (below d \<union> {path, path @ ''.tmp''})) w w'"

text \<open>
  One step.  \<open>collected\<close> is one round of the loop of \<open>scan\<close> over a line that gives no event, \<open>emitted\<close>
  the send on the channel, \<open>cursor\<close> the \<open>writeCursor\<close> after it; \<open>ended\<close> closes the channel; \<open>flushed\<close> is
  the final flush, which waits for the producer; \<open>cancelled\<close> is the signal.
\<close>

inductive agent_step ::
  "'n deliver \<Rightarrow> config \<Rightarrow> ('n \<Rightarrow> bool) \<Rightarrow> (nat \<Rightarrow> entry_env) \<Rightarrow> 'n agent \<Rightarrow> 'n agent \<Rightarrow> bool"
  for deliver cfg expired ee
where
  collected: "agCollecting a \<Longrightarrow> agOwed a = None \<Longrightarrow> agLines a = l # ls
    \<Longrightarrow> trim_space l = [] \<or> (\<exists>e. parseEntry (ee (agIndex a)) l = Some (Inl e))
    \<Longrightarrow> agent_step deliver cfg expired ee a (a\<lparr>agLines := ls, agIndex := Suc (agIndex a)\<rparr>)"
| emitted: "agCollecting a \<Longrightarrow> agOwed a = None \<Longrightarrow> agLines a = l # ls \<Longrightarrow> trim_space l \<noteq> []
    \<Longrightarrow> parseEntry (ee (agIndex a)) l = Some (Inr (ev, c)) \<Longrightarrow> agProducing a \<Longrightarrow> agFlight a = None
    \<Longrightarrow> agent_step deliver cfg expired ee a (collector_emit ev c ls a)"
| cursor: "agOwed a = Some c
    \<Longrightarrow> agent_step deliver cfg expired ee a (collector_persist (cursor_path (StateDir cfg)) c a)"
| ended: "agCollecting a \<Longrightarrow> agOwed a = None \<Longrightarrow> agStopping a \<or> agLines a = []
    \<Longrightarrow> agent_step deliver cfg expired ee a (a\<lparr>agCollecting := False\<rparr>)"
| stored: "agFlight a = Some ev \<Longrightarrow> agent_step deliver cfg expired ee a (producer_store ev a)"
| produced: "\<not> agCollecting a \<Longrightarrow> agFlight a = None \<Longrightarrow> agent_step deliver cfg expired ee a (a\<lparr>agProducing := False\<rparr>)"
| read: "agConsuming a \<Longrightarrow> agBatch a = None \<Longrightarrow> agent_step deliver cfg expired ee a (consumer_read cfg a)"
| settled: "agConsuming a \<Longrightarrow> agBatch a = Some b \<Longrightarrow> agent_step deliver cfg expired ee a (consumer_settle deliver b a)"
| flushed: "agConsuming a \<Longrightarrow> agBatch a = None \<Longrightarrow> agStopping a \<Longrightarrow> \<not> agProducing a
    \<Longrightarrow> finalFlush deliver cfg expired fuel (agSink a) = Some s
    \<Longrightarrow> agent_step deliver cfg expired ee a (a\<lparr>agSink := s, agConsuming := False\<rparr>)"
| cancelled: "agent_step deliver cfg expired ee a (a\<lparr>agStopping := True\<rparr>)"
| other: "elsewhere (qDir (agQueue a)) (cursor_path (StateDir cfg)) (agWorld a) w'
    \<Longrightarrow> agent_step deliver cfg expired ee a (with_store (agQueue a) w' a)"

inductive agent_reach ::
  "'n deliver \<Rightarrow> config \<Rightarrow> ('n \<Rightarrow> bool) \<Rightarrow> (nat \<Rightarrow> entry_env) \<Rightarrow> 'n agent \<Rightarrow> 'n agent \<Rightarrow> bool"
  for deliver cfg expired ee a0
where
  started: "agent_reach deliver cfg expired ee a0 a0"
| stepped: "agent_reach deliver cfg expired ee a0 a \<Longrightarrow> agent_step deliver cfg expired ee a a'
    \<Longrightarrow> agent_reach deliver cfg expired ee a0 a'"

end
