(* ===== verification/Pipeline_Theorems.thy ===== *)
theory Pipeline_Theorems
  imports Pipeline Enroll_Theorems
begin

text \<open>
  Invariants of the running agent: the flow of events from the collector to the queue, the cursor file
  against it, the limits of the queue, and that no stored event is lost.
\<close>

subsection \<open>Paths\<close>

definition queue_dir :: "config \<Rightarrow> string" where
  "queue_dir cfg = join_path [StateDir cfg, ''queue'']"

lemma valid_queue: "valid_name ''queue''" and valid_cursor: "valid_name cursorFileName"
  by code_simp+

lemma queue_dir_form: "queue_dir cfg = dir_prefix (clean (StateDir cfg)) @ ''queue''"
  by (simp add: queue_dir_def path_form [OF valid_queue])

lemma queue_dir_prefix: "dir_prefix (queue_dir cfg) = dir_prefix (clean (StateDir cfg)) @ ''queue/''"
  and queue_dir_not_dot: "queue_dir cfg \<noteq> ''.''"
  by (simp_all add: queue_dir_form dir_prefix_def append_eq_Cons_conv)

lemma queue_dir_clean: "StateDir cfg \<noteq> [] \<Longrightarrow> is_clean (queue_dir cfg)"
  unfolding queue_dir_def by (rule join_clean)

lemma cursor_not_below:
  "cursor_path (StateDir cfg) \<notin> below (queue_dir cfg)" "cursor_path (StateDir cfg) @ ''.tmp'' \<notin> below (queue_dir cfg)"
proof -
  have "cursor_path (StateDir cfg) = dir_prefix (clean (StateDir cfg)) @ cursorFileName"
    by (simp add: cursor_path_def path_form [OF valid_cursor])
  then show "cursor_path (StateDir cfg) \<notin> below (queue_dir cfg)" "cursor_path (StateDir cfg) @ ''.tmp'' \<notin> below (queue_dir cfg)"
    by (simp_all add: below_def queue_dir_prefix has_prefix_def cursorFileName_def)
qed

subsection \<open>What does not touch the queue\<close>

lemma only_in_contents: "only_in S w w' \<Longrightarrow> p \<notin> S \<Longrightarrow> contents p w' = contents p w"
  by (simp add: only_in_def contents_def)

lemma live_contents: "spool (w_files w) d n = (if event_name n then contents (join_path [d, n]) w else None)"
  by (auto simp: spool_def contents_def split: option.splits node.splits)

lemma beside_queue:
  assumes "queue_ok q" and "qDir q \<noteq> ''.''" and "only_in S w w'" and "S \<inter> below (qDir q) = {}"
  shows "live q w' = live q w" and "dead q w' = dead q w" and "file_names q w ns \<Longrightarrow> file_names q w' ns"
proof -
  have cl: "is_clean (qDir q)" using assms(1) by auto
  have i: "join_path [qDir q, n] \<notin> S" if "event_name n" for n
    using inside_child [OF cl, of n] that assms(4) by (auto simp: event_name_def)
  have j: "join_path [qDeadDir q, n] \<notin> S" if "event_name n" for n
    using inside_dead [OF assms(1,2), of n] that assms(4) by (auto simp: event_name_def)
  show "live q w' = live q w" by (rule ext) (auto simp: live_contents only_in_contents [OF assms(3)] i)
  show "dead q w' = dead q w" by (rule ext) (auto simp: live_contents only_in_contents [OF assms(3)] j)
  show "file_names q w ns \<Longrightarrow> file_names q w' ns"
    using i assms(3) by (auto simp: file_names_def is_dir_in_def only_in_def)
qed

lemma writeCursor_only: "writeCursor path c w = (r, w') \<Longrightarrow> only_in {path, path @ ''.tmp''} w w'"
proof -
  assume w: "writeCursor path c w = (r, w')"
  obtain r1 w1 where wt: "os_write_file (path @ ''.tmp'') (c @ [newline]) (6 * 8 * 8) w = (r1, w1)" by force
  obtain r2 w2 where rn: "os_rename (path @ ''.tmp'') path w1 = (r2, w2)" by force
  have "only_in {path, path @ ''.tmp''} w w1" "only_in {path, path @ ''.tmp''} w1 w2"
    using only_in_write [OF wt] only_in_rename [OF rn] by simp_all
  moreover have "w' = w1 \<or> w' = w2" using w wt rn by (auto simp: writeCursor_def split: sum.splits)
  ultimately show ?thesis using only_in_trans by blast
qed

subsection \<open>What the consumer does\<close>

lemma finalFlush_frame:
  assumes "finalFlush deliver cfg expired fuel s = Some s'" and "queue_ok (ssQueue s)" and "qDir (ssQueue s) \<noteq> ''.''"
  shows "only_in (below (qDir (ssQueue s))) (ssWorld s) (ssWorld s') \<and> same_conf (ssQueue s) (ssQueue s')
    \<and> qDropped (ssQueue s') = qDropped (ssQueue s)"
  using assms
proof (induction fuel arbitrary: s)
  case (Suc fuel)
  let ?d = "qDir (ssQueue s)"
  obtain r q1 w1 where rb: "ReadBatch (BatchSize cfg) 0 (ssQueue s) (ssWorld s) = (r, q1, w1)" by (metis prod_cases3)
  have c1: "only_in (below ?d) (ssWorld s) w1" "same_conf (ssQueue s) q1"
    using ReadBatch_confined [OF Suc.prems(2,3) rb] by auto
  have d1: "qDropped q1 = qDropped (ssQueue s)" using ReadBatch_spec [OF Suc.prems(2) rb] by auto
  have ok1: "queue_ok q1" "qDir q1 = ?d" using queue_ok_conf [OF Suc.prems(2) c1(2)] c1(2) by (simp_all add: same_conf_def)
  show ?case
  proof (cases "\<exists>b. r = Inr b \<and> batch_len b \<noteq> 0")
    case False
    then have "ssQueue s' = q1" "ssWorld s' = w1" using Suc.prems(1) rb by (auto split: sum.splits if_splits)
    then show ?thesis using c1 d1 by simp
  next
    case True
    then obtain b where b: "r = Inr b" "batch_len b \<noteq> 0" by blast
    obtain dr n1 where dv: "deliver (Events b) (ssNet s) = (dr, n1)" by force
    obtain q2 w2 where ad: "after_delivery dr b q1 w1 = (q2, w2)" by force
    obtain es where fb: "fresh_batch q1 w1 b es" using ReadBatch_fresh [OF Suc.prems(2) rb [unfolded b(1)]] by blast
    note fn = fresh_files [OF ok1(1) fb] and bf = fb [unfolded fresh_batch_def, THEN conjunct2, THEN conjunct1]
    have c2: "only_in (below ?d) w1 w2 \<and> same_conf q1 q2 \<and> qDropped q2 = qDropped q1"
    proof (cases dr)
      case (Inr u)
      then obtain ar where "Ack b q1 w1 = (ar, q2, w2)" using ad by (cases "Ack b q1 w1") (auto simp: after_delivery_def)
      then show ?thesis using Ack_confined [OF ok1(1) fn bf] Ack_spec [OF ok1(1) fn bf] ok1(2) by fastforce
    next
      case (Inl e)
      show ?thesis
      proof (cases "\<exists>f. e = ErrPermanent f")
        case True
        then obtain ar where "DeadLetter b q1 w1 = (ar, q2, w2)"
          using ad Inl by (cases "DeadLetter b q1 w1") (auto simp: after_delivery_def)
        then show ?thesis
          using DeadLetter_confined [OF ok1(1) _ fn bf] DeadLetter_spec [OF ok1(1) fn bf] ok1(2) Suc.prems(3) by fastforce
      next
        case False
        then have "q2 = q1" "w2 = w1" using ad Inl by (auto simp: after_delivery_def split: send_error.splits)
        then show ?thesis by (simp add: same_conf_def)
      qed
    qed
    let ?s2 = "s\<lparr>ssQueue := q2, ssWorld := w2, ssNet := n1\<rparr>"
    have "s' = ?s2 \<or> finalFlush deliver cfg expired fuel ?s2 = Some s'"
      using Suc.prems(1) rb b dv ad
      by (auto simp: after_delivery_def Let_def split: sum.splits send_error.splits prod.splits if_splits)
    then have "only_in (below (qDir q2)) w2 (ssWorld s') \<and> same_conf q2 (ssQueue s') \<and> qDropped (ssQueue s') = qDropped q2"
      using Suc.IH [of ?s2] queue_ok_conf [OF ok1(1)] c2 ok1(2) Suc.prems(3) by (auto simp: same_conf_def)
    moreover have "qDir q2 = ?d" using c2 ok1(2) by (simp add: same_conf_def)
    moreover have "only_in (below ?d) (ssWorld s) w2" using c1(1) c2 only_in_trans by blast
    ultimately show ?thesis using c1(2) c2 d1 only_in_trans by (auto simp: same_conf_def)
  qed
qed simp

abbreviation agHist :: "('n \<times> history) agent \<Rightarrow> history" where "agHist a \<equiv> snd (ssNet (agSink a))"

text \<open>The fields only the collector and the producer change.\<close>

definition same_flow :: "'n agent \<Rightarrow> 'n agent \<Rightarrow> bool" where
  "same_flow a a' \<longleftrightarrow> agLines a' = agLines a \<and> agIndex a' = agIndex a \<and> agOwed a' = agOwed a
     \<and> agCollecting a' = agCollecting a \<and> agFlight a' = agFlight a \<and> agProducing a' = agProducing a
     \<and> agTaken a' = agTaken a \<and> agWrote a' = agWrote a"

text \<open>\<open>emptied D N h\<close>: the consumer took \<open>N\<close> out of the queue, \<open>D\<close> of them to the dead letters, having sent \<open>h\<close>.\<close>

definition emptied :: "string set \<Rightarrow> string set \<Rightarrow> history \<Rightarrow> ('n \<times> history) agent \<Rightarrow> ('n \<times> history) agent \<Rightarrow> bool" where
  "emptied D N h a a' \<longleftrightarrow>
     Buffer_Ops.settled D N (agQueue a) (agWorld a) (agQueue a') (agWorld a') \<and> qDropped (agQueue a') = qDropped (agQueue a)
     \<and> only_in (below (qDir (agQueue a))) (agWorld a) (agWorld a') \<and> agHist a' = agHist a @ h \<and> same_flow a a'"

text \<open>A batch the consumer holds.\<close>

definition batch_ok :: "queue \<Rightarrow> world \<Rightarrow> batch \<Rightarrow> (string \<times> bytes) list \<Rightarrow> bool" where
  "batch_ok q w b es \<longleftrightarrow> Events b = decoded es \<and> bFiles b = paths_of q (map fst es) \<and> file_names q w (map fst es)
     \<and> (\<forall>(n, d)\<in>set es. unmarshal_event d \<noteq> None)"

lemma fresh_batch_ok: "queue_ok q \<Longrightarrow> fresh_batch q w b es \<Longrightarrow> batch_ok q w b es"
  using fresh_files by (auto simp: batch_ok_def fresh_batch_def)

lemma consumer_read_effect:
  assumes "queue_ok (agQueue a)" and "qDir (agQueue a) \<noteq> ''.''"
  shows "\<exists>D. emptied D D [] a (consumer_read cfg a)
    \<and> (agBatch (consumer_read cfg a) = agBatch a
       \<or> (\<exists>b es. agBatch (consumer_read cfg a) = Some b \<and> fresh_batch (agQueue (consumer_read cfg a)) (agWorld (consumer_read cfg a)) b es
            \<and> set (map fst es) \<subseteq> dom (live (agQueue a) (agWorld a))))"
proof -
  obtain r q1 w1 where rb: "ReadBatch (BatchSize cfg) 0 (agQueue a) (agWorld a) = (r, q1, w1)" by (metis prod_cases3)
  obtain D where D: "Buffer_Ops.settled D D (agQueue a) (agWorld a) q1 w1" "qDropped q1 = qDropped (agQueue a)"
    using ReadBatch_spec [OF assms(1) rb] by blast
  have st: "agQueue (consumer_read cfg a) = q1 \<and> agWorld (consumer_read cfg a) = w1 \<and> agHist (consumer_read cfg a) = agHist a
      \<and> same_flow a (consumer_read cfg a)"
    using rb by (cases r) (auto simp: consumer_read_def with_store_def same_flow_def)
  then have e: "emptied D D [] a (consumer_read cfg a)"
    using D ReadBatch_confined [OF assms rb] by (simp add: emptied_def)
  have b: "agBatch (consumer_read cfg a) = agBatch a \<or> (\<exists>b. r = Inr b \<and> agBatch (consumer_read cfg a) = Some b)"
    using rb by (cases r) (auto simp: consumer_read_def with_store_def)
  show ?thesis
  proof (cases "agBatch (consumer_read cfg a) = agBatch a")
    case False
    then obtain b where b: "r = Inr b" "agBatch (consumer_read cfg a) = Some b" using b by blast
    obtain es where fb: "fresh_batch q1 w1 b es" using ReadBatch_fresh [OF assms(1) rb [unfolded b(1)]] by blast
    have "set (map fst es) \<subseteq> dom (live (agQueue a) (agWorld a))"
      using fb D(1) by (fastforce simp: fresh_batch_def settled_def same_conf_def restrict_map_def split: if_splits)
    then show ?thesis using e b fb st by blast
  qed (use e in blast)
qed

lemma settle_dir: "queue_ok q \<Longrightarrow> is_clean (qDir q)"
  by auto

lemma consumer_settle_effect:
  assumes "queue_ok (agQueue a)" and "qDir (agQueue a) \<noteq> ''.''" and "batch_ok (agQueue a) (agWorld a) b es"
  shows "\<exists>D N h. emptied D N h a (consumer_settle (recorded deliver) b a) \<and> agBatch (consumer_settle (recorded deliver) b a) = None
    \<and> N \<subseteq> set (map fst es) \<and> (N \<subseteq> D \<or> (Events b, Inr ()) \<in> set h)"
proof -
  let ?a' = "consumer_settle (recorded deliver) b a"
  have fn: "file_names (agQueue a) (agWorld a) (map fst es)" and bf: "bFiles b = paths_of (agQueue a) (map fst es)"
    using assms(3) by (simp_all add: batch_ok_def)
  obtain r n1 where dv: "deliver (Events b) (fst (ssNet (agSink a))) = (r, n1)" by force
  have rec: "recorded deliver (Events b) (ssNet (agSink a)) = (r, (n1, agHist a @ [(Events b, r)]))"
    using dv by (simp add: recorded_def)
  consider (ack) "r = Inr ()" | (perm) f where "r = Inl (ErrPermanent f)"
    | (keep) f where "r = Inl (ErrUnauthorized f) \<or> r = Inl (ErrRetryable f)"
    by (metis sum.exhaust send_error.exhaust old.unit.exhaust)
  then show ?thesis
  proof cases
    case ack
    obtain ar q2 w2 where k: "Ack b (agQueue a) (agWorld a) = (ar, q2, w2)" by (metis prod_cases3)
    obtain N where N: "N \<subseteq> set (map fst es)" "Buffer_Ops.settled {} N (agQueue a) (agWorld a) q2 w2" "qDropped q2 = qDropped (agQueue a)"
      using Ack_spec [OF assms(1) fn bf k] by blast
    have "emptied {} N [(Events b, r)] a ?a' \<and> agBatch ?a' = None"
      using N(2,3) Ack_confined [OF assms(1) fn bf k] ack rec k by (simp add: emptied_def consumer_settle_def Let_def same_flow_def)
    then show ?thesis using N(1) ack by (intro exI [of _ "{}"] exI [of _ N] exI [of _ "[(Events b, r)]"]) simp
  next
    case perm
    obtain ar q2 w2 where k: "DeadLetter b (agQueue a) (agWorld a) = (ar, q2, w2)" by (metis prod_cases3)
    obtain N where N: "N \<subseteq> set (map fst es)" "Buffer_Ops.settled N N (agQueue a) (agWorld a) q2 w2" "qDropped q2 = qDropped (agQueue a)"
      using DeadLetter_spec [OF assms(1) fn bf k] by blast
    have "emptied N N [(Events b, r)] a ?a' \<and> agBatch ?a' = None"
      using N(2,3) DeadLetter_confined [OF assms(1,2) fn bf k] perm rec k
      by (simp add: emptied_def consumer_settle_def Let_def same_flow_def)
    then show ?thesis using N(1) by blast
  next
    case keep
    then have "agQueue ?a' = agQueue a" "agWorld ?a' = agWorld a" "agHist ?a' = agHist a @ [(Events b, r)]"
      "same_flow a ?a'" "agBatch ?a' = None"
      using rec by (auto simp: consumer_settle_def Let_def same_flow_def)
    then have "emptied {} {} [(Events b, r)] a ?a' \<and> agBatch ?a' = None"
      using settled_refl [of "agWorld a" "agWorld a" "agQueue a"] by (simp add: emptied_def)
    then show ?thesis by blast
  qed
qed

lemma flush_effect:
  assumes "queue_ok (agQueue a)" and "qDir (agQueue a) \<noteq> ''.''"
    and "finalFlush (recorded deliver) cfg expired fuel (agSink a) = Some s"
  shows "\<exists>D N h. emptied D N h a (a\<lparr>agSink := s, agConsuming := False\<rparr>)
    \<and> N - D \<subseteq> names_of (agQueue a, agWorld a) (acked_in h)"
proof -
  have "state_ok (sink_q (agSink a))" using assms(1) by (simp add: state_ok_def sink_q_def)
  then obtain h where h: "snd (ssNet s) = agHist a @ h"
    "sq.left_only (names_of (sink_q (agSink a)) (acked_in h)) (sink_q (agSink a)) (sink_q s)"
    using finalFlush_lossless [OF assms(3)] by (auto simp: lossless_def)
  then obtain D N where "Buffer_Ops.settled D N (agQueue a) (agWorld a) (ssQueue s) (ssWorld s)"
    "N - D \<subseteq> names_of (agQueue a, agWorld a) (acked_in h)"
    by (auto simp: sq.left_only_def spool_settled_def sink_q_def)
  then show ?thesis
    using h(1) finalFlush_frame [OF assms(3,1,2)] by (fastforce simp: emptied_def same_flow_def)
qed

subsection \<open>The queue of the running agent\<close>

definition agent_ok :: "config \<Rightarrow> 'n agent \<Rightarrow> bool" where
  "agent_ok cfg a \<longleftrightarrow>
     queue_ok (agQueue a) \<and> qDir (agQueue a) = queue_dir cfg \<and> qLimits (agQueue a) = queue_limits cfg
     \<and> covered (agQueue a) (agWorld a) \<and> (\<forall>ev. agFlight a = Some ev \<longrightarrow> slash \<notin> set (ID ev))
     \<and> (\<forall>b. agBatch a = Some b \<longrightarrow> (\<exists>es. batch_ok (agQueue a) (agWorld a) b es))
     \<and> ((\<exists>ev. (ev, Inr ()) \<in> set (agWrote a)) \<longrightarrow> within_limits (agQueue a) (agWorld a))"

lemma agent_dir: "agent_ok cfg a \<Longrightarrow> qDir (agQueue a) \<noteq> ''.''"
  using queue_dir_not_dot by (simp add: agent_ok_def)

text \<open>A step that leaves the queue alone.\<close>

definition stays :: "'n agent \<Rightarrow> 'n agent \<Rightarrow> bool" where
  "stays a a' \<longleftrightarrow> agQueue a' = agQueue a \<and> ssNet (agSink a') = ssNet (agSink a) \<and> agBatch a' = agBatch a
     \<and> agWrote a' = agWrote a \<and> (\<exists>S. only_in S (agWorld a) (agWorld a') \<and> S \<inter> below (qDir (agQueue a)) = {})"

lemma stays_store:
  assumes "agent_ok cfg a" and "stays a a'"
  shows "live (agQueue a') (agWorld a') = live (agQueue a) (agWorld a)" "dead (agQueue a') (agWorld a') = dead (agQueue a) (agWorld a)"
    and "batch_ok (agQueue a) (agWorld a) b es \<Longrightarrow> batch_ok (agQueue a') (agWorld a') b es"
proof -
  have ok: "queue_ok (agQueue a)" using assms(1) by (simp add: agent_ok_def)
  obtain S where S: "only_in S (agWorld a) (agWorld a')" "S \<inter> below (qDir (agQueue a)) = {}" "agQueue a' = agQueue a"
    using assms(2) by (auto simp: stays_def)
  note b = beside_queue [OF ok agent_dir [OF assms(1)] S(1,2)]
  show "live (agQueue a') (agWorld a') = live (agQueue a) (agWorld a)" "dead (agQueue a') (agWorld a') = dead (agQueue a) (agWorld a)"
    and "batch_ok (agQueue a) (agWorld a) b es \<Longrightarrow> batch_ok (agQueue a') (agWorld a') b es"
    using b S(3) by (simp_all add: batch_ok_def)
qed

lemma stays_ok:
  assumes "agent_ok cfg a" and "stays a a'" and "\<forall>ev. agFlight a' = Some ev \<longrightarrow> slash \<notin> set (ID ev)"
  shows "agent_ok cfg a'"
proof -
  have "agQueue a' = agQueue a" "agBatch a' = agBatch a" "agWrote a' = agWrote a" using assms(2) by (simp_all add: stays_def)
  with stays_store [OF assms(1,2)] assms(1,3) show ?thesis
    unfolding agent_ok_def covered_def within_limits_def by metis
qed

lemma emptied_ok:
  assumes "agent_ok cfg a" and "emptied D N h a a'"
    and "\<forall>b. agBatch a' = Some b \<longrightarrow> (\<exists>es. batch_ok (agQueue a') (agWorld a') b es)"
  shows "agent_ok cfg a'"
proof -
  have ok: "queue_ok (agQueue a)" and c: "covered (agQueue a) (agWorld a)" using assms(1) by (simp_all add: agent_ok_def)
  have s: "Buffer_Ops.settled D N (agQueue a) (agWorld a) (agQueue a') (agWorld a')" and f: "same_flow a a'"
    using assms(2) by (simp_all add: emptied_def)
  show ?thesis
    using settled_queue_ok [OF ok s] settled_covered [OF c s] settled_within [OF ok _ s] assms(1,3) f s
    by (auto simp: agent_ok_def same_flow_def settled_def same_conf_def)
qed

lemma batch_ok_settled:
  "batch_ok q w b es \<Longrightarrow> same_conf q q' \<Longrightarrow> dirs_kept w w' \<Longrightarrow> batch_ok q' w' b es"
  using file_names_kept by (auto simp: batch_ok_def same_conf_def)

lemma Write_keeps:
  assumes "queue_ok q" and "slash \<notin> set (ID ev)" and "Write ev q w = (r, q', w')"
  shows "same_conf q q'" and "dirs_kept w w'" and "qDropped q \<le> qDropped q'"
proof -
  from assms have "same_conf q q' \<and> dirs_kept w w' \<and> qDropped q \<le> qDropped q'"
  proof (cases rule: Write_cases)
    case (failed e k)
    then show ?thesis by (simp add: settled_def)
  next
    case (stored b k q1 w1)
    then show ?thesis using dirs_kept_trans by (auto simp: settled_def same_conf_def)
  qed
  then show "same_conf q q'" "dirs_kept w w'" "qDropped q \<le> qDropped q'" by simp_all
qed

text \<open>The four ways a step can change the queue.\<close>

lemma agent_step_kinds:
  assumes "agent_step (recorded deliver) cfg expired ee a a'" and "agent_ok cfg a"
  obtains (stays) "stays a a'"
  | (read) D where "emptied D D [] a a'"
      "agBatch a' = agBatch a \<or> (\<exists>b es. agBatch a' = Some b \<and> fresh_batch (agQueue a') (agWorld a') b es
         \<and> set (map fst es) \<subseteq> dom (live (agQueue a) (agWorld a)))"
  | (settle) b where "agBatch a = Some b" "a' = consumer_settle (recorded deliver) b a"
  | (flush) D N h where "agBatch a = None" "agBatch a' = None" "emptied D N h a a'"
      "N - D \<subseteq> names_of (agQueue a, agWorld a) (acked_in h)"
  | (store) ev where "agFlight a = Some ev" "a' = producer_store ev a"
proof -
  have ok: "queue_ok (agQueue a)" using assms(2) by (simp add: agent_ok_def)
  note dir = agent_dir [OF assms(2)]
  have still: "stays a a'" if "agSink a' = agSink a" "agBatch a' = agBatch a" "agWrote a' = agWrote a"
    using that by (auto simp: stays_def intro!: exI [of _ "{}"])
  from assms(1) show thesis
  proof (cases rule: agent_step.cases)
    case (cursor c)
    obtain r w1 where wc: "writeCursor (cursor_path (StateDir cfg)) c (agWorld a) = (r, w1)" by force
    have "stays a a'"
      using cursor(1) wc writeCursor_only [OF wc] cursor_not_below [of cfg] assms(2)
      by (auto simp: stays_def collector_persist_def with_store_def agent_ok_def intro!: exI)
    then show thesis by (rule stays)
  next
    case (read)
    then show thesis using consumer_read_effect [OF ok dir, of cfg] that(2) by blast
  next
    case (flushed fuel s)
    then show thesis using flush_effect [OF ok dir flushed(6)] that(4) by (auto intro: that(4))
  next
    case (other w')
    then have "stays a a'" using assms(2) by (auto simp: stays_def with_store_def elsewhere_def intro!: exI)
    then show thesis by (rule stays)
  next
    case (collected l ls)
    then show thesis using still stays by simp
  next
    case (emitted l ls ev c)
    then show thesis using still stays by (simp add: collector_emit_def)
  next
    case ended
    then show thesis using still stays by simp
  next
    case produced
    then show thesis using still stays by simp
  next
    case cancelled
    then show thesis using still stays by simp
  next
    case (stored ev)
    then show thesis using store by blast
  next
    case (settled b)
    then show thesis using settle by blast
  qed
qed

subsection \<open>The flow of events\<close>

lemma uuid_no_slash: "newUUID r = Some u \<Longrightarrow> slash \<notin> set u"
proof -
  assume u: "newUUID r = Some u"
  have "\<not> lower_hex slash" by (simp add: lower_hex_def)
  then have "slash \<notin> set (hex_encode b)" for b using hex_encode_lower by blast
  then show "slash \<notin> set u" using u by (auto simp: newUUID_def Let_def split: option.splits)
qed

lemma parsed_no_slash: "parseEntry ee l = Some (Inr (ev, c)) \<Longrightarrow> slash \<notin> set (ID ev)"
  by (auto simp: parseEntry_def NewEvent_def Let_def uuid_no_slash split: option.splits if_splits)

lemma consumer_flow: "same_flow a (consumer_read cfg a)" "same_flow a (consumer_settle deliver b a)"
  by (auto simp: consumer_read_def consumer_settle_def with_store_def same_flow_def Let_def
      split: prod.split sum.split send_error.split)

text \<open>The steps by what they do to the flow.\<close>

lemma agent_step_flow:
  assumes "agent_step deliver cfg expired ee a a'"
  obtains (same) "same_flow a a'"
  | (collected) l ls where "agCollecting a" "agOwed a = None" "agLines a = l # ls" "entry_of ee (agIndex a, l) = None"
      "same_flow (a\<lparr>agLines := ls, agIndex := Suc (agIndex a)\<rparr>) a'"
  | (emitted) l ls ev c where "agCollecting a" "agOwed a = None" "agFlight a = None" "agLines a = l # ls" "agProducing a"
      "entry_of ee (agIndex a, l) = Some (ev, c)" "a' = collector_emit ev c ls a" "slash \<notin> set (ID ev)"
  | (cursor) c where "agOwed a = Some c" "a' = collector_persist (cursor_path (StateDir cfg)) c a"
  | (ended) "agOwed a = None" "same_flow (a\<lparr>agCollecting := False\<rparr>) a'"
  | (stored) ev where "agFlight a = Some ev" "a' = producer_store ev a"
  | (produced) "\<not> agCollecting a" "agFlight a = None" "same_flow (a\<lparr>agProducing := False\<rparr>) a'"
  using assms
proof (cases rule: agent_step.cases)
  case (collected l ls)
  then show thesis using that(2) by (auto simp: entry_of_def same_flow_def)
next
  case (emitted l ls ev c)
  then show thesis using that(3) parsed_no_slash by (auto simp: entry_of_def)
next
  case (cursor c)
  then show thesis using that(4) by blast
next
  case ended
  then show thesis using that(5) by (auto simp: same_flow_def)
next
  case (stored ev)
  then show thesis using that(6) by blast
next
  case produced
  then show thesis using that(7) by (auto simp: same_flow_def)
next
  case read
  then show thesis using that(1) consumer_flow(1) by blast
next
  case (settled b)
  then show thesis using that(1) consumer_flow(2) by blast
qed (rule that(1), simp add: same_flow_def with_store_def)+

definition flow_ok :: "(nat \<Rightarrow> entry_env) \<Rightarrow> bytes list \<Rightarrow> 'n agent \<Rightarrow> bool" where
  "flow_ok ee ls a \<longleftrightarrow>
     map fst (agTaken a) = map fst (agWrote a) @ (case agFlight a of None \<Rightarrow> [] | Some ev \<Rightarrow> [ev])
     \<and> agIndex a \<le> length ls \<and> agLines a = drop (agIndex a) ls
     \<and> agTaken a = List.map_filter (entry_of ee) (enumerate 0 (take (agIndex a) ls))
     \<and> (\<not> agCollecting a \<longrightarrow> agOwed a = None) \<and> (\<not> agProducing a \<longrightarrow> \<not> agCollecting a \<and> agFlight a = None)
     \<and> (\<forall>c. agOwed a = Some c \<longrightarrow> agTaken a \<noteq> [] \<and> snd (last (agTaken a)) = c)"

lemma flow_same: "same_flow a a' \<Longrightarrow> flow_ok ee ls a' \<longleftrightarrow> flow_ok ee ls a"
  by (simp add: flow_ok_def same_flow_def)

lemma map_filter_snoc: "List.map_filter f (xs @ [x]) = List.map_filter f xs @ (case f x of None \<Rightarrow> [] | Some y \<Rightarrow> [y])"
  by (simp add: List.map_filter_def split: option.split)

lemma next_line:
  assumes "drop i ls = l # rest" and "i \<le> length ls"
  shows "Suc i \<le> length ls" "drop (Suc i) ls = rest" "enumerate 0 (take (Suc i) ls) = enumerate 0 (take i ls) @ [(i, l)]"
proof -
  have i: "i < length ls" using assms(1) by (metis drop_all list.distinct(1) not_less)
  then show "Suc i \<le> length ls" by simp
  have "ls ! i = l" "drop (Suc i) ls = rest" using assms(1) i by (metis Cons_nth_drop_Suc list.inject)+
  then show "drop (Suc i) ls = rest" "enumerate 0 (take (Suc i) ls) = enumerate 0 (take i ls) @ [(i, l)]"
    using i by (simp_all add: take_Suc_conv_app_nth enumerate_append_eq)
qed

lemma agent_step_flow_ok:
  assumes "agent_step deliver cfg expired ee a a'" and "flow_ok ee ls a"
  shows "flow_ok ee ls a'"
  using assms(1)
proof (cases rule: agent_step_flow)
  case same
  then show ?thesis using flow_same assms(2) by blast
next
  case (collected l rest)
  have i: "drop (agIndex a) ls = l # rest" "agIndex a \<le> length ls" using collected(3) assms(2) by (simp_all add: flow_ok_def)
  have "flow_ok ee ls (a\<lparr>agLines := rest, agIndex := Suc (agIndex a)\<rparr>)"
    using assms(2) next_line [OF i] collected(2,4) by (auto simp: flow_ok_def map_filter_snoc)
  then show ?thesis using flow_same collected(5) by blast
next
  case (emitted l rest ev c)
  have i: "drop (agIndex a) ls = l # rest" "agIndex a \<le> length ls" using emitted(4) assms(2) by (simp_all add: flow_ok_def)
  show ?thesis
    using assms(2) next_line [OF i] emitted by (auto simp: flow_ok_def map_filter_snoc collector_emit_def)
next
  case (cursor c)
  then show ?thesis using assms(2) by (auto simp: flow_ok_def collector_persist_def with_store_def)
next
  case ended
  then show ?thesis using assms(2) ended(1) flow_same [OF ended(2)] by (auto simp: flow_ok_def)
next
  case (stored ev)
  then show ?thesis using assms(2)
    by (cases "Write ev (agQueue a) (agWorld a)") (auto simp: flow_ok_def producer_store_def with_store_def)
next
  case produced
  then show ?thesis using assms(2) produced flow_same [OF produced(3)] by (auto simp: flow_ok_def)
qed

lemma agent_step_ok:
  assumes "agent_step (recorded deliver) cfg expired ee a a'" and "agent_ok cfg a"
  shows "agent_ok cfg a'"
proof -
  have ok: "queue_ok (agQueue a)" and c: "covered (agQueue a) (agWorld a)" using assms(2) by (simp_all add: agent_ok_def)
  have fl: "\<forall>ev. agFlight a' = Some ev \<longrightarrow> slash \<notin> set (ID ev)"
    using assms(1)
  proof (cases rule: agent_step_flow)
    case (stored ev)
    then show ?thesis by (simp add: producer_store_def with_store_def split: prod.splits)
  qed (use assms(2) in \<open>auto simp: agent_ok_def same_flow_def collector_emit_def collector_persist_def with_store_def\<close>)
  from assms show ?thesis
  proof (cases rule: agent_step_kinds)
    case stays
    then show ?thesis using stays_ok [OF assms(2)] fl by blast
  next
    case (read D)
    have "\<exists>es. batch_ok (agQueue a') (agWorld a') b es" if "agBatch a' = Some b" for b
      using read(2)
    proof
      assume "agBatch a' = agBatch a"
      then have "agBatch a = Some b" using that by simp
      then obtain es where "batch_ok (agQueue a) (agWorld a) b es" using assms(2) unfolding agent_ok_def by blast
      then show ?thesis using batch_ok_settled read(1) by (fastforce simp: emptied_def settled_def)
    next
      assume "\<exists>b es. agBatch a' = Some b \<and> fresh_batch (agQueue a') (agWorld a') b es
         \<and> set (map fst es) \<subseteq> dom (live (agQueue a) (agWorld a))"
      moreover have "queue_ok (agQueue a')" using settled_queue_ok [OF ok] read(1) by (auto simp: emptied_def)
      ultimately show ?thesis using fresh_batch_ok that by fastforce
    qed
    then show ?thesis using emptied_ok [OF assms(2) read(1)] by blast
  next
    case (settle b)
    obtain es where es: "batch_ok (agQueue a) (agWorld a) b es" using settle(1) assms(2) by (auto simp: agent_ok_def)
    show ?thesis
      using consumer_settle_effect [OF ok agent_dir [OF assms(2)] es, of deliver] emptied_ok [OF assms(2)] settle(2) by force
  next
    case (flush D N h)
    then show ?thesis using emptied_ok [OF assms(2)] by simp
  next
    case (store ev)
    have sl: "slash \<notin> set (ID ev)" using store(1) assms(2) by (simp add: agent_ok_def)
    obtain r q1 w1 where wr: "Write ev (agQueue a) (agWorld a) = (r, q1, w1)" by (metis prod_cases3)
    have a': "a' = (with_store q1 w1 a)\<lparr>agFlight := None, agWrote := agWrote a @ [(ev, r)]\<rparr>"
      using store(2) wr by (simp add: producer_store_def)
    note k = Write_keeps [OF ok sl wr]
    have "within_limits q1 w1" if "\<exists>ev. (ev, Inr ()) \<in> set (agWrote a')"
    proof (cases r)
      case (Inr u)
      then show ?thesis using Write_within [OF c sl] wr by blast
    next
      case (Inl e)
      then have w: "within_limits (agQueue a) (agWorld a)" using that assms(2) a' by (auto simp: agent_ok_def)
      from ok sl wr show ?thesis
        by (cases rule: Write_cases) (use settled_within [OF ok w] Inl in auto)
    qed
    moreover have "covered q1 w1" by (rule Write_covered [OF c sl wr])
    moreover have "\<exists>es. batch_ok q1 w1 b es" if "agBatch a = Some b" for b
      using that assms(2) batch_ok_settled k by (fastforce simp: agent_ok_def)
    ultimately show ?thesis
      using assms(2) k(1) queue_ok_conf [OF ok k(1)] by (auto simp: agent_ok_def a' with_store_def same_conf_def)
  qed
qed

subsection \<open>The cursor file\<close>

lemma emptied_cursor: "agent_ok cfg a \<Longrightarrow> emptied D N h a a' \<Longrightarrow>
    contents (cursor_path (StateDir cfg)) (agWorld a') = contents (cursor_path (StateDir cfg)) (agWorld a)"
  using cursor_not_below(1) only_in_contents by (auto simp: emptied_def agent_ok_def)

lemma cursor_by_collector:
  assumes "agent_step (recorded deliver) cfg expired ee a a'" and "agent_ok cfg a"
    and "\<forall>c. agOwed a = Some c \<longrightarrow> a' \<noteq> collector_persist (cursor_path (StateDir cfg)) c a"
  shows "contents (cursor_path (StateDir cfg)) (agWorld a') = contents (cursor_path (StateDir cfg)) (agWorld a)"
proof -
  let ?p = "cursor_path (StateDir cfg)"
  have ok: "queue_ok (agQueue a)" using assms(2) by (simp add: agent_ok_def)
  note dir = agent_dir [OF assms(2)]
  from assms(1) show ?thesis
  proof (cases rule: agent_step.cases)
    case (cursor c)
    then show ?thesis using assms(3) by blast
  next
    case (stored ev)
    obtain r q1 w1 where wr: "Write ev (agQueue a) (agWorld a) = (r, q1, w1)" by (metis prod_cases3)
    have "slash \<notin> set (ID ev)" using stored(2) assms(2) by (simp add: agent_ok_def)
    then have "only_in (below (queue_dir cfg)) (agWorld a) w1"
      using Write_confined [OF ok _ wr] assms(2) by (simp add: agent_ok_def)
    moreover have "agWorld a' = w1" using stored(1) wr by (simp add: producer_store_def with_store_def)
    ultimately show ?thesis using only_in_contents cursor_not_below(1) by blast
  next
    case read
    then show ?thesis using consumer_read_effect [OF ok dir, of cfg] emptied_cursor [OF assms(2)] by blast
  next
    case (settled b)
    obtain es where "batch_ok (agQueue a) (agWorld a) b es" using settled(3) assms(2) by (auto simp: agent_ok_def)
    then show ?thesis using consumer_settle_effect [OF ok dir, of b es deliver] emptied_cursor [OF assms(2)] settled(1) by blast
  next
    case (flushed fuel s)
    then show ?thesis using flush_effect [OF ok dir flushed(6)] emptied_cursor [OF assms(2)] by blast
  next
    case (other w')
    then show ?thesis using only_in_contents [OF other(2) [unfolded elsewhere_def], of ?p] by (simp add: with_store_def)
  qed (simp_all add: collector_emit_def)
qed

definition cursor_ok :: "config \<Rightarrow> world \<Rightarrow> 'n agent \<Rightarrow> bool" where
  "cursor_ok cfg w0 a \<longleftrightarrow>
     contents (cursor_path (StateDir cfg)) (agWorld a) \<in>
       insert (contents (cursor_path (StateDir cfg)) w0) ((\<lambda>x. Some (snd x @ [newline])) ` set (agTaken a))"

lemma taken_grows: "agent_step deliver cfg expired ee a a' \<Longrightarrow> set (agTaken a) \<subseteq> set (agTaken a')"
  by (erule agent_step_flow)
    (auto simp: same_flow_def collector_emit_def collector_persist_def producer_store_def with_store_def split: prod.splits)

lemma agent_step_cursor_ok:
  assumes "agent_step (recorded deliver) cfg expired ee a a'" and "agent_ok cfg a" and "flow_ok ee ls a" and "cursor_ok cfg w0 a"
  shows "cursor_ok cfg w0 a'"
proof (cases "\<exists>c. agOwed a = Some c \<and> a' = collector_persist (cursor_path (StateDir cfg)) c a")
  case True
  then obtain c where c: "agOwed a = Some c" "a' = collector_persist (cursor_path (StateDir cfg)) c a" by blast
  obtain r w1 where wc: "writeCursor (cursor_path (StateDir cfg)) c (agWorld a) = (r, w1)" by force
  have "agTaken a \<noteq> [] \<and> snd (last (agTaken a)) = c" using c(1) assms(3) by (auto simp: flow_ok_def)
  then have "\<exists>x\<in>set (agTaken a). snd x = c" by (intro bexI [of _ "last (agTaken a)"]) auto
  then show ?thesis using assms(4) writeCursor_contents [OF wc] wc c(2)
    by (auto simp: cursor_ok_def collector_persist_def with_store_def split: if_splits)
next
  case False
  then show ?thesis using cursor_by_collector [OF assms(1,2)] assms(4) taken_grows [OF assms(1)] by (auto simp: cursor_ok_def)
qed

subsection \<open>No stored event is lost\<close>

definition wrote_names :: "'n agent \<Rightarrow> string set" where
  "wrote_names a = (\<lambda>x. fileName (fst x)) ` set (agWrote a)"

text \<open>Event IDs are random: no two events of the run, and none left over from before it, share a file name.\<close>

definition fresh_names :: "(string \<Rightarrow> bytes option) \<Rightarrow> 'n agent \<Rightarrow> bool" where
  "fresh_names m0 a \<longleftrightarrow> distinct (map (\<lambda>x. fileName (fst x)) (agTaken a)) \<and> dom m0 \<inter> (\<lambda>x. fileName (fst x)) ` set (agTaken a) = {}"

text \<open>The events the queue has taken on: those it started with and those a \<open>Write\<close> reported stored.\<close>

definition entrusted :: "(string \<Rightarrow> bytes option) \<Rightarrow> 'n agent \<Rightarrow> string \<Rightarrow> bytes \<Rightarrow> bool" where
  "entrusted m0 a n b \<longleftrightarrow> m0 n = Some b \<or> (\<exists>ev. (ev, Inr ()) \<in> set (agWrote a) \<and> n = fileName ev \<and> marshal_event ev = Some b)"

definition delivered :: "('n \<times> history) agent \<Rightarrow> bytes \<Rightarrow> bool" where
  "delivered a b \<longleftrightarrow> (\<exists>ev. unmarshal_event b = Some ev \<and> ev \<in> acked_in (agHist a))"

definition kept_safe :: "('n \<times> history) agent \<Rightarrow> string \<Rightarrow> bytes \<Rightarrow> bool" where
  "kept_safe a n b \<longleftrightarrow> live (agQueue a) (agWorld a) n = Some b
     \<or> live (agQueue a) (agWorld a) n = None \<and> dead (agQueue a) (agWorld a) n = Some b \<or> delivered a b"

definition loses_nothing :: "(string \<Rightarrow> bytes option) \<Rightarrow> ('n \<times> history) agent \<Rightarrow> bool" where
  "loses_nothing m0 a \<longleftrightarrow>
     0 \<le> qDropped (agQueue a) \<and> dom (live (agQueue a) (agWorld a)) \<subseteq> dom m0 \<union> wrote_names a
     \<and> (\<forall>b. agBatch a = Some b \<longrightarrow> (\<exists>es. batch_ok (agQueue a) (agWorld a) b es \<and> set (map fst es) \<subseteq> dom m0 \<union> wrote_names a
          \<and> (\<forall>(n, d)\<in>set es. live (agQueue a) (agWorld a) n \<in> {None, Some d})))
     \<and> (qDropped (agQueue a) = 0 \<longrightarrow> (\<forall>n b. entrusted m0 a n b \<longrightarrow> kept_safe a n b))"

lemma stays_loses_nothing:
  assumes "agent_ok cfg a" and "stays a a'" and "loses_nothing m0 a"
  shows "loses_nothing m0 a'"
proof -
  note s = stays_store [OF assms(1,2)]
  have eq: "agQueue a' = agQueue a" "agBatch a' = agBatch a" "agWrote a' = agWrote a" "agHist a' = agHist a"
    using assms(2) by (simp_all add: stays_def)
  have b: "batch_ok (agQueue a) (agWorld a') b es" if "batch_ok (agQueue a) (agWorld a) b es" for b es
    using s(3) [OF that] eq(1) by simp
  have "kept_safe a' = kept_safe a" "entrusted m0 a' = entrusted m0 a" "wrote_names a' = wrote_names a"
    using s(1,2) eq by (simp_all add: fun_eq_iff kept_safe_def delivered_def entrusted_def wrote_names_def)
  note t = this s(1) [unfolded eq]
  show ?thesis using assms(3) b unfolding loses_nothing_def eq t by blast
qed

text \<open>Taking events out of the queue loses nothing if those that do not go to the dead letters were delivered.\<close>

lemma emptied_safe:
  assumes "emptied D N h a a'" and "kept_safe a n b"
    and "n \<in> N - D \<Longrightarrow> live (agQueue a) (agWorld a) n = Some b \<Longrightarrow> \<exists>ev. unmarshal_event b = Some ev \<and> ev \<in> acked_in h"
  shows "kept_safe a' n b"
proof -
  have l: "live (agQueue a') (agWorld a') = live (agQueue a) (agWorld a) |` (- N)"
    and d: "dead (agQueue a') (agWorld a') = dead (agQueue a) (agWorld a) ++ (live (agQueue a) (agWorld a) |` D)"
    and sub: "D \<subseteq> N" and h: "agHist a' = agHist a @ h"
    using assms(1) by (auto simp: emptied_def settled_def same_conf_def)
  have ack: "acked_in (agHist a') = acked_in (agHist a) \<union> acked_in h" using h by (auto simp: acked_in_def)
  consider (live) "live (agQueue a) (agWorld a) n = Some b"
    | (dead) "live (agQueue a) (agWorld a) n = None" "dead (agQueue a) (agWorld a) n = Some b" | (sent) "delivered a b"
    using assms(2) by (auto simp: kept_safe_def)
  then show ?thesis
  proof cases
    case live
    consider "n \<notin> N" | "n \<in> D" | "n \<in> N - D" by blast
    then show ?thesis
      using l d sub live assms(3) ack
      by cases (auto simp: kept_safe_def delivered_def restrict_map_def map_add_def split: option.splits)
  next
    case dead
    then show ?thesis using l d by (auto simp: kept_safe_def restrict_map_def map_add_def split: option.splits)
  next
    case sent
    then show ?thesis using ack by (auto simp: kept_safe_def delivered_def)
  qed
qed

lemma emptied_loses_nothing:
  assumes "agent_ok cfg a" and "emptied D N h a a'" and "loses_nothing m0 a"
    and "\<And>n b. n \<in> N - D \<Longrightarrow> live (agQueue a) (agWorld a) n = Some b \<Longrightarrow> \<exists>ev. unmarshal_event b = Some ev \<and> ev \<in> acked_in h"
    and "agBatch a' \<in> {None, agBatch a} \<or> (\<exists>b es. agBatch a' = Some b \<and> fresh_batch (agQueue a') (agWorld a') b es
       \<and> set (map fst es) \<subseteq> dom (live (agQueue a) (agWorld a)))"
  shows "loses_nothing m0 a'"
proof -
  have s: "Buffer_Ops.settled D N (agQueue a) (agWorld a) (agQueue a') (agWorld a')"
    and w: "agWrote a' = agWrote a" and q: "qDropped (agQueue a') = qDropped (agQueue a)"
    using assms(2) by (simp_all add: emptied_def same_flow_def)
  have l: "live (agQueue a') (agWorld a') = live (agQueue a) (agWorld a) |` (- N)"
    using s by (simp add: settled_def same_conf_def)
  have ok': "queue_ok (agQueue a')" using settled_queue_ok [OF _ s] assms(1) by (simp add: agent_ok_def)
  have d: "dom (live (agQueue a) (agWorld a)) \<subseteq> dom m0 \<union> wrote_names a" using assms(3) by (simp add: loses_nothing_def)
  have n: "wrote_names a' = wrote_names a" using w by (simp add: wrote_names_def)
  have "\<exists>es. batch_ok (agQueue a') (agWorld a') b es \<and> set (map fst es) \<subseteq> dom m0 \<union> wrote_names a
          \<and> (\<forall>(n, d)\<in>set es. live (agQueue a') (agWorld a') n \<in> {None, Some d})" if b: "agBatch a' = Some b" for b
  proof (cases "agBatch a = Some b")
    case True
    then obtain es where es: "batch_ok (agQueue a) (agWorld a) b es" "set (map fst es) \<subseteq> dom m0 \<union> wrote_names a"
      "\<forall>(n, d)\<in>set es. live (agQueue a) (agWorld a) n \<in> {None, Some d}"
      using assms(3) unfolding loses_nothing_def by blast
    have "batch_ok (agQueue a') (agWorld a') b es"
      by (rule batch_ok_settled [OF es(1)]) (use s in \<open>simp_all add: settled_def\<close>)
    moreover have "live (agQueue a') (agWorld a') n \<in> {None, Some d}" if "(n, d) \<in> set es" for n d
      using es(3) that by (cases "n \<in> N") (auto simp: l)
    ultimately show ?thesis using es(2) by blast
  next
    case False
    obtain es where "fresh_batch (agQueue a') (agWorld a') b es" "set (map fst es) \<subseteq> dom (live (agQueue a) (agWorld a))"
      using assms(5) b False by auto
    moreover have "\<forall>(n, d)\<in>set es. live (agQueue a') (agWorld a') n \<in> {None, Some d}"
      using calculation(1) by (auto simp: fresh_batch_def)
    ultimately show ?thesis using fresh_batch_ok [OF ok'] d by blast
  qed
  moreover have "kept_safe a' n b" if "qDropped (agQueue a') = 0" "entrusted m0 a' n b" for n b
  proof (rule emptied_safe [OF assms(2)])
    have "entrusted m0 a n b" using that(2) w by (simp add: entrusted_def)
    then show "kept_safe a n b" using assms(3) that(1) q by (simp add: loses_nothing_def)
  qed (rule assms(4))
  ultimately show ?thesis using assms(3) l d n q by (auto simp: loses_nothing_def)
qed

lemma settle_delivers:
  assumes "batch_ok q w b es" and "\<forall>(n, d)\<in>set es. live q w n \<in> {None, Some d}" and "n \<in> set (map fst es)"
    and "live q w n = Some d"
  shows "\<exists>ev. unmarshal_event d = Some ev \<and> ev \<in> set (Events b)"
proof -
  obtain d' where d': "(n, d') \<in> set es" using assms(3) by auto
  then have "d' = d" using assms(2,4) by fastforce
  then show ?thesis using assms(1) d' by (force simp: batch_ok_def decoded_def image_iff)
qed

lemma store_loses_nothing:
  assumes "agent_ok cfg a" and "agFlight a = Some ev" and "flow_ok ee ls a" and "loses_nothing m0 a" and "fresh_names m0 a"
  shows "loses_nothing m0 (producer_store ev a)"
proof -
  have ok: "queue_ok (agQueue a)" and sl: "slash \<notin> set (ID ev)" using assms(1,2) by (simp_all add: agent_ok_def)
  obtain r q1 w1 where wr: "Write ev (agQueue a) (agWorld a) = (r, q1, w1)" by (metis prod_cases3)
  define a' where "a' = producer_store ev a"
  have f: "agQueue a' = q1" "agWorld a' = w1" "agBatch a' = agBatch a" "agWrote a' = agWrote a @ [(ev, r)]" "agHist a' = agHist a"
    by (simp_all add: a'_def producer_store_def wr with_store_def)
  have tk: "map fst (agTaken a) = map fst (agWrote a) @ [ev]" using assms(2,3) by (auto simp: flow_ok_def)
  have new: "fileName ev \<notin> dom m0 \<union> wrote_names a"
  proof -
    have "map fileName (map fst (agTaken a)) = map fileName (map fst (agWrote a)) @ [fileName ev]" by (simp add: tk)
    then have m: "map (\<lambda>x. fileName (fst x)) (agTaken a) = map (\<lambda>x. fileName (fst x)) (agWrote a) @ [fileName ev]"
      by (simp add: comp_def)
    then have "fileName ev \<in> (\<lambda>x. fileName (fst x)) ` set (agTaken a)" by (metis list.set_map in_set_conv_decomp)
    then show ?thesis using assms(5) m by (auto simp: fresh_names_def wrote_names_def)
  qed
  have names: "wrote_names a' = insert (fileName ev) (wrote_names a)" using f(4) by (simp add: wrote_names_def)
  let ?l = "live (agQueue a) (agWorld a)" and ?l' = "live q1 w1"
  note keep = Write_keeps [OF ok sl wr]
  from ok sl wr have l: "(\<forall>n. n \<noteq> fileName ev \<longrightarrow> ?l' n \<in> {None, ?l n}) \<and> ?l' (fileName ev) \<in> {?l (fileName ev), None} \<union> Some ` {b. marshal_event ev = Some b}
      \<and> (r = Inr () \<longrightarrow> (\<exists>b. marshal_event ev = Some b \<and> ?l' (fileName ev) = Some b))
      \<and> (qDropped q1 = qDropped (agQueue a) \<longrightarrow> (\<forall>n. n \<noteq> fileName ev \<longrightarrow> ?l' n = ?l n))
      \<and> dead q1 w1 = dead (agQueue a) (agWorld a)"
  proof (cases rule: Write_cases)
    case (failed e k)
    then show ?thesis by (auto simp: settled_def same_conf_def restrict_map_def)
  next
    case (stored b k q2 w2)
    then show ?thesis by (auto simp: settled_def same_conf_def restrict_map_def)
  qed
  have d0: "dom ?l \<subseteq> dom m0 \<union> wrote_names a" and q0: "0 \<le> qDropped (agQueue a)" using assms(4) by (simp_all add: loses_nothing_def)
  have "dom ?l' \<subseteq> dom m0 \<union> wrote_names a'"
  proof
    fix n assume "n \<in> dom ?l'"
    then have "n = fileName ev \<or> n \<in> dom ?l" using l by (cases "n = fileName ev") force+
    then show "n \<in> dom m0 \<union> wrote_names a'" using names d0 by blast
  qed
  moreover have "\<exists>es. batch_ok q1 w1 b es \<and> set (map fst es) \<subseteq> dom m0 \<union> wrote_names a'
          \<and> (\<forall>(n, d)\<in>set es. ?l' n \<in> {None, Some d})" if b: "agBatch a' = Some b" for b
  proof -
    obtain es where es: "batch_ok (agQueue a) (agWorld a) b es" "set (map fst es) \<subseteq> dom m0 \<union> wrote_names a"
      "\<forall>(n, d)\<in>set es. ?l n \<in> {None, Some d}"
      using assms(4) b f(3) unfolding loses_nothing_def by metis
    have "?l' n \<in> {None, Some d}" if nd: "(n, d) \<in> set es" for n d
    proof -
      have "n \<noteq> fileName ev" using nd es(2) new by force
      then have "?l' n \<in> {None, ?l n}" using l by blast
      moreover have "?l n \<in> {None, Some d}" using es(3) nd by blast
      ultimately show ?thesis by auto
    qed
    then show ?thesis using batch_ok_settled [OF es(1) keep(1,2)] es(2) names by blast
  qed
  moreover have "kept_safe a' n b" if q: "qDropped q1 = 0" and e: "entrusted m0 a' n b" for n b
  proof -
    have same: "qDropped q1 = qDropped (agQueue a)" using q q0 keep(3) by simp
    show ?thesis
    proof (cases "entrusted m0 a n b")
      case True
      then have "kept_safe a n b" using assms(4) q same by (simp add: loses_nothing_def)
      moreover have "n \<noteq> fileName ev" using True new by (force simp: entrusted_def wrote_names_def)
      ultimately show ?thesis using l same f by (simp add: kept_safe_def delivered_def)
    next
      case False
      then have "r = Inr () \<and> n = fileName ev \<and> marshal_event ev = Some b" using e f(4) by (auto simp: entrusted_def)
      then show ?thesis using l f by (simp add: kept_safe_def)
    qed
  qed
  ultimately have "loses_nothing m0 a'" using q0 keep(3) unfolding loses_nothing_def f(1,2) by simp
  then show ?thesis by (simp add: a'_def)
qed

lemma agent_step_loses_nothing:
  assumes "agent_step (recorded deliver) cfg expired ee a a'" and "agent_ok cfg a" and "flow_ok ee ls a"
    and "loses_nothing m0 a" and "fresh_names m0 a"
  shows "loses_nothing m0 a'"
proof -
  have ok: "queue_ok (agQueue a)" using assms(2) by (simp add: agent_ok_def)
  from assms(1,2) show ?thesis
  proof (cases rule: agent_step_kinds)
    case stays
    then show ?thesis using stays_loses_nothing assms(2,4) by blast
  next
    case (read D)
    then show ?thesis by (intro emptied_loses_nothing [OF assms(2) read(1) assms(4)]) auto
  next
    case (settle b)
    obtain es where es: "batch_ok (agQueue a) (agWorld a) b es" "\<forall>(n, d)\<in>set es. live (agQueue a) (agWorld a) n \<in> {None, Some d}"
      using settle(1) assms(4) unfolding loses_nothing_def by metis
    obtain D N h where e: "emptied D N h a a'" "agBatch a' = None" "N \<subseteq> set (map fst es)" "N \<subseteq> D \<or> (Events b, Inr ()) \<in> set h"
      using consumer_settle_effect [OF ok agent_dir [OF assms(2)] es(1), of deliver] settle(2) by blast
    show ?thesis
    proof (rule emptied_loses_nothing [OF assms(2) e(1) assms(4)])
      fix n d assume nd: "n \<in> N - D" "live (agQueue a) (agWorld a) n = Some d"
      then obtain ev where "unmarshal_event d = Some ev" "ev \<in> set (Events b)"
        using settle_delivers [OF es] e(3) by blast
      moreover have "(Events b, Inr ()) \<in> set h" using nd(1) e(4) by blast
      ultimately show "\<exists>ev. unmarshal_event d = Some ev \<and> ev \<in> acked_in h" by (auto simp: acked_in_def)
    qed (simp add: e(2))
  next
    case (flush D N h)
    then show ?thesis
      by (intro emptied_loses_nothing [OF assms(2) flush(3) assms(4)]) (auto simp: names_of_def held_events_def)
  next
    case (store ev)
    then show ?thesis using store_loses_nothing assms by blast
  qed
qed

subsection \<open>Starting\<close>

lemma store_identity_other:
  assumes "store_identity cfg keyPEM certPEM w = (r, w')" and "x \<noteq> key_path cfg" "x \<noteq> key_path cfg @ ''.tmp''"
    "x \<noteq> cert_path cfg" "x \<noteq> cert_path cfg @ ''.tmp''"
  shows "contents x w' = contents x w"
proof -
  obtain r1 w1 where k: "writeFileAtomic (key_path cfg) keyPEM (6 * 8 * 8) w = (r1, w1)" by force
  obtain r2 w2 where c: "writeFileAtomic (cert_path cfg) certPEM (6 * 8 * 8 + 4 * 8 + 4) w1 = (r2, w2)" by force
  have "w' = w1 \<or> w' = w2" using assms(1) k c by (auto simp: store_identity_def split: sum.splits)
  then show ?thesis
    using writeFileAtomic_contents(2) [OF k assms(2,3)] writeFileAtomic_contents(2) [OF c assms(4,5)] by auto
qed

lemma EnsureIdentity_other:
  assumes "EnsureIdentity cr web cfg w n = (Inr i, w', n')" and "x \<noteq> key_path cfg" "x \<noteq> key_path cfg @ ''.tmp''"
    "x \<noteq> cert_path cfg" "x \<noteq> cert_path cfg @ ''.tmp''"
  shows "contents x w' = contents x w"
proof -
  obtain r1 w1 n1 where st: "stored_identity cr cfg w n = (r1, w1, n1)" by (metis prod_cases3)
  have f: "contents x w1 = contents x w" using stored_identity_frame [OF st] by (rule contents_same)
  show ?thesis
  proof (cases "r1 = Inr None")
    case True
    then have "enrol cr web cfg w1 n1 = (Inr i, w', n')" using assms(1) st by (simp add: EnsureIdentity_def)
    then obtain w2 rs keyPEM certPEM where "\<And>p. contents p w2 = contents p w1" "store_identity cfg keyPEM certPEM w2 = (rs, w')"
      by (rule enrol_stores) blast+
    then show ?thesis using store_identity_other [OF _ assms(2-5)] f by metis
  next
    case False
    then have "w' = w1" using assms(1) st by (auto simp: EnsureIdentity_def split: sum.splits option.splits)
    then show ?thesis using f by simp
  qed
qed

lemma certs_not_below:
  assumes "p \<in> below (queue_dir cfg)" and "CertDir cfg = join_path [StateDir cfg, ''certs'']"
  shows "p \<noteq> key_path cfg" "p \<noteq> key_path cfg @ ''.tmp''" "p \<noteq> cert_path cfg" "p \<noteq> cert_path cfg @ ''.tmp''"
proof -
  have v: "valid_name ''certs''" by code_simp
  have d: "CertDir cfg = dir_prefix (clean (StateDir cfg)) @ ''certs''" using assms(2) path_form [OF v] by simp
  have cl: "is_clean (CertDir cfg)"
  proof -
    have "CertDir cfg = join_path [clean (StateDir cfg), ''certs'']" using assms(2) join_path_clean [OF v] by simp
    then show ?thesis using is_clean_join [OF is_clean_clean v] by simp
  qed
  have "dir_prefix (CertDir cfg) = CertDir cfg @ [slash]" using d by (auto simp: dir_prefix_def append_eq_Cons_conv)
  then have "join_path [CertDir cfg, f] @ s = dir_prefix (clean (StateDir cfg)) @ ''certs/'' @ f @ s" if "valid_name f" for f s
    using join_path_name [OF cl that] d by simp
  then have "join_path [CertDir cfg, f] @ s \<notin> below (queue_dir cfg)" if "valid_name f" for f s
    using that by (simp add: below_def queue_dir_prefix has_prefix_def)
  from this [of _ "[]"] this [of _ "''.tmp''"] names_valid
  show "p \<noteq> key_path cfg" "p \<noteq> key_path cfg @ ''.tmp''" "p \<noteq> cert_path cfg" "p \<noteq> cert_path cfg @ ''.tmp''"
    using assms(1) by auto
qed

lemma start_agent_ok:
  assumes "start_agent cr web jc dryRun env w n = (Inr (q, i, stream), w', n')"
  shows "agent_ok (Load env) (new_agent q w' (n', h) stream)" and "qDropped q = 0"
proof -
  let ?c = "Load env"
  obtain u w1 where e: "EnsureStateDir ?c w = (Inr u, w1)"
    using assms by (auto simp: start_agent_def Let_def split: prod.splits sum.splits)
  obtain q' w2 where o: "Open (QueueDir ?c) (queue_limits ?c) w1 = (Inr q', w2)"
    using assms e by (auto simp: start_agent_def Let_def split: prod.splits sum.splits)
  obtain i' w3 n3 where b: "buildSink cr web dryRun ?c w2 n = (Inr i', w3, n3)"
    using assms e o by (auto simp: start_agent_def Let_def split: prod.splits sum.splits)
  obtain s w4 where s: "Start jc (cursor_path (StateDir ?c)) w3 = (Inr s, w4)"
    using assms e o b by (auto simp: start_agent_def Let_def split: prod.splits sum.splits)
  have eq: "q' = q" "w4 = w'" using assms e o b s by (auto simp: start_agent_def)
  have qd: "QueueDir ?c = queue_dir ?c" using Load_paths(2) by (simp add: queue_dir_def)
  have cl: "is_clean (QueueDir ?c)" unfolding qd using queue_dir_clean Load_paths(1) by blast
  have conf: "queue_ok q" "qDir q = queue_dir ?c" "qLimits q = queue_limits ?c" "qDropped q = 0" "covered q w2"
    using o Open_spec [OF cl o] Open_covered [OF cl o] eq(1) qd by (auto simp: Open_def initLocked_def Let_def split: prod.splits sum.splits)
  show "qDropped q = 0" by (rule conf(4))
  have "contents p w3 = contents p w2" if "p \<in> below (queue_dir ?c)" for p
    using b EnsureIdentity_other [of cr web ?c w2 n _ w3 n3 p] certs_not_below [OF that Load_paths(3)]
    by (auto simp: buildSink_def split: if_splits prod.splits sum.splits)
  moreover have "w_files w' = w_files w3"
    using s eq by (auto simp: Start_def readCursor_def frame_simps split: option.splits prod.splits sum.splits if_splits)
  ultimately have c: "contents p w' = contents p w2" if "p \<in> below (queue_dir ?c)" for p
    using that contents_same by metis
  have "live q w' = live q w2"
    using conf(1,2) inside_child [of "qDir q"] by (intro ext) (auto simp: live_contents event_name_def queue_ok_def intro!: c)
  then have "covered q w'" using conf(5) by (simp add: covered_def)
  then show "agent_ok ?c (new_agent q w' (n', h) stream)" using conf by (simp add: agent_ok_def new_agent_def)
qed

subsection \<open>The theorems\<close>

text \<open>
  \<open>a\<close> is a state of the agent that was started in the world \<open>w\<close> and then ran; \<open>q\<close> and \<open>w0\<close> are the queue
  and the world when it had started, \<open>stream\<close> what journalctl gives it.
\<close>

definition runs_to ::
  "('k, 'p, 'i, 'pool, 'n) crypto \<Rightarrow> ('pool, 'n) web \<Rightarrow> journald \<Rightarrow> bool \<Rightarrow> env \<Rightarrow> world \<Rightarrow> 'n \<Rightarrow> 'n deliver
    \<Rightarrow> (('n \<times> history) \<Rightarrow> bool) \<Rightarrow> (nat \<Rightarrow> entry_env) \<Rightarrow> queue \<Rightarrow> world \<Rightarrow> bytes \<Rightarrow> ('n \<times> history) agent \<Rightarrow> bool"
where
  "runs_to cr web jc dryRun env w n deliver expired ee q w0 stream a \<longleftrightarrow>
     (\<exists>i n0. start_agent cr web jc dryRun env w n = (Inr (q, i, stream), w0, n0)
       \<and> agent_reach (recorded deliver) (Load env) expired ee (new_agent q w0 (n0, []) stream) a)"

lemma taken_prefix:
  assumes "agent_step deliver cfg expired ee a a'"
  shows "\<exists>xs. agTaken a' = agTaken a @ xs"
  using assms
  by (cases rule: agent_step_flow)
    (auto simp: same_flow_def collector_emit_def collector_persist_def producer_store_def with_store_def split: prod.splits)

lemma fresh_before: "agent_step deliver cfg expired ee a a' \<Longrightarrow> fresh_names m0 a' \<Longrightarrow> fresh_names m0 a"
proof -
  assume "agent_step deliver cfg expired ee a a'" and f: "fresh_names m0 a'"
  then obtain xs where "agTaken a' = agTaken a @ xs" using taken_prefix by blast
  then show "fresh_names m0 a" using f by (auto simp: fresh_names_def)
qed

lemma reach_invariants:
  assumes "agent_reach (recorded deliver) cfg expired ee a0 a" and "agent_ok cfg a0" and "flow_ok ee ls a0" and "cursor_ok cfg w0 a0"
  shows "agent_ok cfg a \<and> flow_ok ee ls a \<and> cursor_ok cfg w0 a
    \<and> (loses_nothing m0 a0 \<and> fresh_names m0 a \<longrightarrow> loses_nothing m0 a)"
  using assms(1)
proof induction
  case (stepped a a')
  then show ?case
    using agent_step_ok [OF stepped(2)] agent_step_flow_ok [OF stepped(2)] agent_step_cursor_ok [OF stepped(2)]
      agent_step_loses_nothing [OF stepped(2), of ls m0] fresh_before [OF stepped(2), of m0] by blast
qed (use assms in simp)

lemma runs_invariants:
  assumes "runs_to cr web jc dryRun env w n deliver expired ee q w0 stream a"
  shows "agent_ok (Load env) a" "flow_ok ee (fst (scan_lines stream)) a" "cursor_ok (Load env) w0 a"
    and "fresh_names (live q w0) a \<Longrightarrow> loses_nothing (live q w0) a"
proof -
  obtain i n0 where st: "start_agent cr web jc dryRun env w n = (Inr (q, i, stream), w0, n0)"
    and r: "agent_reach (recorded deliver) (Load env) expired ee (new_agent q w0 (n0, []) stream) a"
    using assms by (auto simp: runs_to_def)
  let ?a0 = "new_agent q w0 (n0, [] :: history) stream"
  have f: "flow_ok ee (fst (scan_lines stream)) ?a0" and c: "cursor_ok (Load env) w0 ?a0"
    by (simp_all add: flow_ok_def cursor_ok_def new_agent_def map_filter_simps)
  have l: "loses_nothing (live q w0) ?a0"
    using start_agent_ok(2) [OF st] by (simp add: loses_nothing_def new_agent_def entrusted_def kept_safe_def)
  from reach_invariants [OF r start_agent_ok(1) [OF st] f c, of "live q w0"] l
  show "agent_ok (Load env) a" "flow_ok ee (fst (scan_lines stream)) a" "cursor_ok (Load env) w0 a"
    and "fresh_names (live q w0) a \<Longrightarrow> loses_nothing (live q w0) a" by blast+
qed

text \<open>
  C1. No stored event is lost, end to end.  In every state the agent can reach, with any interleaving of
  collector, producer and consumer, any failures and any answers of the platform, as long as the
  limits have not made the queue drop events: an event that was pending when the agent started, or
  that a \<open>Write\<close> has reported stored, is pending unchanged, or dead-lettered unchanged, or was in a
  batch the platform acknowledged.
\<close>

theorem stored_event_survives:
  assumes "runs_to cr web jc dryRun env w n deliver expired ee q w0 stream a" and "fresh_names (live q w0) a"
    and "qDropped (agQueue a) = 0"
    and "live q w0 name = Some b \<or> (ev, Inr ()) \<in> set (agWrote a) \<and> name = fileName ev \<and> marshal_event ev = Some b"
  shows "live (agQueue a) (agWorld a) name = Some b \<or> dead (agQueue a) (agWorld a) name = Some b
    \<or> (\<exists>e evs. unmarshal_event b = Some e \<and> e \<in> set evs \<and> (evs, Inr ()) \<in> set (agHist a))"
proof -
  have "loses_nothing (live q w0) a" by (rule runs_invariants(4) [OF assms(1,2)])
  moreover have "entrusted (live q w0) a name b" using assms(4) by (auto simp: entrusted_def)
  ultimately have "kept_safe a name b" using assms(3) by (simp add: loses_nothing_def)
  then show ?thesis by (auto simp: kept_safe_def delivered_def acked_in_def)
qed

text \<open>
  C2. The way of an event to the queue.  In every reachable state the events taken from the collector
  are exactly those of the usable entries among the lines scanned so far, in order; \<open>Write\<close> has been
  called for each of them in that order, but for one the producer still holds; the cursor file is as
  it was at the start or holds the cursor of an event that was taken.  Once the producer has ended,
  as it has before the final flush of an orderly shutdown, no event is in between and no cursor is owed.
\<close>

theorem every_event_is_accounted_for:
  assumes "runs_to cr web jc dryRun env w n deliver expired ee q w0 stream a"
  shows "agTaken a = List.map_filter (entry_of ee) (enumerate 0 (take (agIndex a) (fst (scan_lines stream))))
    \<and> map fst (agTaken a) = map fst (agWrote a) @ (case agFlight a of None \<Rightarrow> [] | Some ev \<Rightarrow> [ev])
    \<and> contents (cursor_path (StateDir (Load env))) (agWorld a) \<in>
        insert (contents (cursor_path (StateDir (Load env))) w0) ((\<lambda>x. Some (snd x @ [newline])) ` set (agTaken a))
    \<and> (agProducing a \<or> agFlight a = None \<and> agOwed a = None)"
  using runs_invariants(2,3) [OF assms] by (auto simp: flow_ok_def cursor_ok_def)

text \<open>
  C5. The limits of the running agent.  With the configuration \<open>Load\<close> gives, from the first event it
  stores on, the agent never has more than 100000 events in its queue directory; nor more than
  256 MiB of them, with one exception the code makes (\<open>buffer.go\<close> line 270): the queue may consist of a single
  event, and that one may be larger.
\<close>

theorem agent_queue_is_bounded:
  assumes "runs_to cr web jc dryRun env w n deliver expired ee q w0 stream a" and "(ev, Inr ()) \<in> set (agWrote a)"
  shows "card (dom (live (agQueue a) (agWorld a))) \<le> 100000
    \<and> (bytes_of (live (agQueue a) (agWorld a)) \<le> 256 * 2 ^ 20 \<or> card (dom (live (agQueue a) (agWorld a))) = 1)"
proof -
  have l: "MaxQueueEvents (Load env) = 100000" "MaxQueueBytes (Load env) = 256 * 2 ^ 20"
    by (simp_all add: Load_def Default_def Let_def)
  have "within_limits (agQueue a) (agWorld a)" "qLimits (agQueue a) = queue_limits (Load env)"
    using runs_invariants(1) [OF assms(1)] assms(2) by (auto simp: agent_ok_def)
  moreover have "MaxEvents (qLimits (agQueue a)) = 100000" "MaxBytes (qLimits (agQueue a)) = 256 * 2 ^ 20"
    using calculation(2) l by (simp_all add: queue_limits_def)
  ultimately have "int (card (dom (live (agQueue a) (agWorld a)))) \<le> 100000"
    "bytes_of (live (agQueue a) (agWorld a)) \<le> 256 * 2 ^ 20 \<or> card (dom (live (agQueue a) (agWorld a))) = 1"
    unfolding within_limits_def by simp_all
  then show ?thesis by simp
qed

end
