(* ===== verification/Pipeline_Runs.thy ===== *)
theory Pipeline_Runs
  imports Pipeline_Theorems Pki_Theorems
begin

text \<open>
  The run in which the cursor gets ahead of the queue, and concrete runs on which the theorems of
  \<open>Pipeline_Theorems\<close> are instantiated.
\<close>

subsection \<open>The cursor gets ahead\<close>

lemma Start_resumes:
  assumes "contents path w = Some (c @ [newline])" and "no_outer_space c" and "c \<noteq> []" and "quiet w" and "jcLookPath jc = Some j"
  shows "fst (Start jc path w) = (case jcStart jc j (journalctlArgs c) of None \<Rightarrow> Inl JournalctlNotStarted | Some s \<Rightarrow> Inr s)"
proof -
  obtain w' where "os_read_file path w = (Inr (c @ [newline]), w')" using quiet_read [OF assms(4,1)] by blast
  then have "readCursor path w = (Inr c, w')" by (simp add: readCursor_def trim_space_line [OF assms(2,3)])
  then show ?thesis using assms(5) by (simp add: Start_def split: option.split)
qed

lemma entry_cursor: "entry_of ee (i, l) = Some (ev, c) \<Longrightarrow> c \<noteq> []"
  by (auto simp: entry_of_def parseEntry_def Let_def split: if_splits option.splits sum.splits)

text \<open>
  C3. The cursor can overtake the event.  Whenever the first usable line of a start gives the event
  \<open>ev\<close> and its cursor can be written, the agent reaches a state in which the cursor file is past \<open>ev\<close>
  while \<open>ev\<close> has not been given to \<open>Write\<close> and the queue and the dead-letter directory are as they
  were.  If the process dies there, then after the next start, however the machine came back,
  \<open>journalctl\<close> is asked for what follows \<open>ev\<close>: the event is lost.
\<close>

theorem cursor_overtakes_the_event:
  assumes "start_agent cr web jc dryRun env w n = (Inr (q, i, stream), w0, n0)"
    and "fst (scan_lines stream) = l # ls" and "entry_of ee (0, l) = Some (ev, c)" and "no_outer_space c"
    and "writeCursor (cursor_path (StateDir (Load env))) c w0 = (Inr (), w1)"
  shows "\<exists>a. runs_to cr web jc dryRun env w n deliver expired ee q w0 stream a
    \<and> agTaken a = [(ev, c)] \<and> agWrote a = [] \<and> agFlight a = Some ev \<and> agWorld a = w1
    \<and> live (agQueue a) w1 = live q w0 \<and> dead (agQueue a) w1 = dead q w0
    \<and> (\<forall>w2 jc2 j. w_files w2 = w_files w1 \<and> quiet w2 \<and> jcLookPath jc2 = Some j \<longrightarrow>
         fst (Start jc2 (cursor_path (StateDir (Load env))) w2) =
           (case jcStart jc2 j (journalctlArgs c) of None \<Rightarrow> Inl JournalctlNotStarted | Some s \<Rightarrow> Inr s))"
proof -
  let ?cfg = "Load env"
  let ?p = "cursor_path (StateDir ?cfg)"
  let ?a0 = "new_agent q w0 (n0, [] :: history) stream"
  define a1 where "a1 = collector_emit ev c ls ?a0"
  define a2 where "a2 = collector_persist ?p c a1"
  have p: "trim_space l \<noteq> []" "parseEntry (ee 0) l = Some (Inr (ev, c))"
    using assms(3) by (auto simp: entry_of_def split: if_splits option.splits sum.splits)
  have s1: "agent_step (recorded deliver) ?cfg expired ee ?a0 a1"
    unfolding a1_def using assms(2) p by (intro agent_step.emitted [of _ l]) (simp_all add: new_agent_def)
  have s2: "agent_step (recorded deliver) ?cfg expired ee a1 a2"
    unfolding a2_def by (rule agent_step.cursor) (simp add: a1_def collector_emit_def)
  have "agent_reach (recorded deliver) ?cfg expired ee ?a0 a2"
    by (rule agent_reach.stepped [OF agent_reach.stepped [OF agent_reach.started s1] s2])
  then have run: "runs_to cr web jc dryRun env w n deliver expired ee q w0 stream a2"
    using assms(1) by (auto simp: runs_to_def)
  have f: "agTaken a2 = [(ev, c)]" "agWrote a2 = []" "agFlight a2 = Some ev" "agWorld a2 = w1" "agQueue a2 = q"
    by (simp_all add: a2_def a1_def collector_persist_def collector_emit_def new_agent_def with_store_def assms(5))
  have ok: "queue_ok q" "qDir q = queue_dir ?cfg"
    using start_agent_ok(1) [OF assms(1), of "[] :: history"] by (simp_all add: agent_ok_def new_agent_def)
  have "live q w1 = live q w0" "dead q w1 = dead q w0"
    using beside_queue(1,2) [OF ok(1) _ writeCursor_only [OF assms(5)]] queue_dir_not_dot cursor_not_below [of ?cfg] ok(2) by auto
  moreover have "contents ?p w1 = Some (c @ [newline])" using writeCursor_contents [OF assms(5)] by simp
  then have "contents ?p w2 = Some (c @ [newline])" if "w_files w2 = w_files w1" for w2 using that by (simp add: contents_def)
  ultimately show ?thesis
    using run f Start_resumes [OF _ assms(4) entry_cursor [OF assms(3)]] by (intro exI [of _ a2]) auto
qed

subsection \<open>Concrete runs\<close>

definition demo_journal :: journald where
  "demo_journal = \<lparr>jcLookPath = Some ''/bin/journalctl'', jcStart = \<lambda>_ _. Some (demo_line @ [newline])\<rparr>"

definition demo_env_vars :: env where
  "demo_env_vars k = (if k = ''HOST_AGENT_STATE_DIR'' then ''/s'' else [])"

definition demo_web :: "(bytes, desk) web" where
  "demo_web = \<lparr>webUrlOk = \<lambda>_. True, webDo = \<lambda>_ _ n. (None, n), webHostname = None\<rparr>"

definition demo_started :: "(start_error + queue \<times> (nat, nat, unit, bytes) identity option \<times> bytes) \<times> world \<times> desk" where
  "demo_started = start_agent desk_crypto demo_web demo_journal True demo_env_vars empty_world demo_desk"

lemma demo_started_ok:
  obtains q i w0 where "demo_started = (Inr (q, i, demo_line @ [newline]), w0, demo_desk)"
    and "fst (snd demo_started) = w0" and "fst demo_started = Inr (q, i, demo_line @ [newline])"
proof -
  have "(case fst demo_started of Inr (q, i, s) \<Rightarrow> s = demo_line @ [newline] | _ \<Rightarrow> False)" by code_simp
  then obtain q i where "fst demo_started = Inr (q, i, demo_line @ [newline])" by (auto split: sum.splits)
  moreover have "snd (snd demo_started) = demo_desk"
    by (simp add: demo_started_def start_agent_def buildSink_def Let_def split: prod.split sum.split)
  ultimately show thesis using that [of q i "fst (snd demo_started)"] by (metis prod.collapse)
qed

abbreviation demo_accept :: "event list \<Rightarrow> desk \<Rightarrow> (send_error + unit) \<times> desk" where
  "demo_accept evs n \<equiv> (Inr (), n)"

definition demo_envs :: "nat \<Rightarrow> entry_env" where
  "demo_envs i = demo_env"

lemma demo_entry_of: obtains ev where "entry_of demo_envs (0, demo_line) = Some (ev, ''s=1;i=2'')"
proof -
  obtain ev where "parseEntry demo_env demo_line = Some (Inr (ev, ''s=1;i=2''))" using demo_line_parses by blast
  moreover have "trim_space demo_line \<noteq> []" by code_simp
  ultimately show thesis using that by (simp add: entry_of_def demo_envs_def)
qed

lemma demo_lines: "scan_lines (demo_line @ [newline]) = ([demo_line], False)"
  by code_simp

theorem cursor_overtakes_the_event_witness:
  "\<exists>ev q i w0 a. demo_started = (Inr (q, i, demo_line @ [newline]), w0, demo_desk)
    \<and> runs_to desk_crypto demo_web demo_journal True demo_env_vars empty_world demo_desk demo_accept (\<lambda>_. False) demo_envs
        q w0 (demo_line @ [newline]) a
    \<and> agTaken a = [(ev, ''s=1;i=2'')] \<and> agWrote a = []"
proof -
  obtain q i w0 where st: "demo_started = (Inr (q, i, demo_line @ [newline]), w0, demo_desk)" "fst (snd demo_started) = w0"
    by (rule demo_started_ok)
  obtain ev where ev: "entry_of demo_envs (0, demo_line) = Some (ev, ''s=1;i=2'')" by (rule demo_entry_of)
  have "fst (writeCursor (cursor_path (StateDir (Load demo_env_vars))) ''s=1;i=2'' (fst (snd demo_started))) = Inr ()" by code_simp
  then obtain w1 where w1: "writeCursor (cursor_path (StateDir (Load demo_env_vars))) ''s=1;i=2'' w0 = (Inr (), w1)"
    unfolding st(2) by (metis prod.collapse)
  have c: "no_outer_space ''s=1;i=2''" by code_simp
  have l: "fst (scan_lines (demo_line @ [newline])) = demo_line # []" by (simp add: demo_lines)
  from cursor_overtakes_the_event [OF st(1) [unfolded demo_started_def] l ev c w1, of demo_accept "\<lambda>_. False"]
  show ?thesis using st(1) by blast
qed

definition demo_write :: "(buf_error + unit) option" where
  "demo_write =
     (case (fst demo_started, entry_of demo_envs (0, demo_line)) of
        (Inr (q, _, _), Some (ev, _)) \<Rightarrow>
          (case Write ev q (fst (snd demo_started)) of
             (r, q1, _) \<Rightarrow> if qDropped q1 = 0 \<and> fst (sortedPendingLocked q (fst (snd demo_started))) = Inr [] then Some r else None)
      | _ \<Rightarrow> None)"

lemma demo_write_ok: "demo_write = Some (Inr ())"
  by code_simp

text \<open>The agent that has stored its first event.\<close>

lemma demo_run:
  obtains ev b q i w0 a where "runs_to desk_crypto demo_web demo_journal True demo_env_vars empty_world demo_desk
      demo_accept (\<lambda>_. False) demo_envs q w0 (demo_line @ [newline]) a"
    and "agTaken a = [(ev, ''s=1;i=2'')]" and "agWrote a = [(ev, Inr ())]" and "qDropped (agQueue a) = 0"
    and "marshal_event ev = Some b" and "dom (live q w0) = {}"
proof -
  obtain q i w0 where st: "demo_started = (Inr (q, i, demo_line @ [newline]), w0, demo_desk)" "fst (snd demo_started) = w0"
    "fst demo_started = Inr (q, i, demo_line @ [newline])" by (rule demo_started_ok)
  obtain ev where ev: "entry_of demo_envs (0, demo_line) = Some (ev, ''s=1;i=2'')" by (rule demo_entry_of)
  obtain r q1 w1 where wr: "Write ev q w0 = (r, q1, w1)" by (metis prod_cases3)
  have d: "r = Inr () \<and> qDropped q1 = 0 \<and> fst (sortedPendingLocked q w0) = Inr []"
    using demo_write_ok unfolding demo_write_def st(2,3) ev by (simp add: wr split: if_splits)
  let ?cfg = "Load demo_env_vars"
  let ?a0 = "new_agent q w0 (demo_desk, [] :: history) (demo_line @ [newline])"
  define a1 where "a1 = collector_emit ev ''s=1;i=2'' [] ?a0"
  define a2 where "a2 = producer_store ev a1"
  have p: "trim_space demo_line \<noteq> []" "parseEntry (demo_envs 0) demo_line = Some (Inr (ev, ''s=1;i=2''))"
    using ev by (auto simp: entry_of_def split: if_splits option.splits sum.splits)
  have s1: "agent_step (recorded demo_accept) ?cfg (\<lambda>_. False) demo_envs ?a0 a1"
    unfolding a1_def using p by (intro agent_step.emitted [of _ demo_line]) (simp_all add: new_agent_def demo_lines)
  have s2: "agent_step (recorded demo_accept) ?cfg (\<lambda>_. False) demo_envs a1 a2"
    unfolding a2_def by (rule agent_step.stored) (simp add: a1_def collector_emit_def)
  have "agent_reach (recorded demo_accept) ?cfg (\<lambda>_. False) demo_envs ?a0 a2"
    by (rule agent_reach.stepped [OF agent_reach.stepped [OF agent_reach.started s1] s2])
  then have run: "runs_to desk_crypto demo_web demo_journal True demo_env_vars empty_world demo_desk
      demo_accept (\<lambda>_. False) demo_envs q w0 (demo_line @ [newline]) a2"
    using st(1) by (auto simp: runs_to_def demo_started_def)
  have f: "agTaken a2 = [(ev, ''s=1;i=2'')]" "agWrote a2 = [(ev, Inr ())]" "qDropped (agQueue a2) = 0"
    using d by (simp_all add: a2_def a1_def producer_store_def collector_emit_def new_agent_def with_store_def wr)
  have ok: "queue_ok q" using start_agent_ok(1) [OF st(1) [unfolded demo_started_def], of "[] :: history"]
    by (simp add: agent_ok_def new_agent_def)
  have "marshal_event ev \<noteq> None" using wr d by (auto simp: Write_def split: option.splits)
  moreover have "dom (live q w0) = {}"
    using set_names [OF ok, of w0] listed_names [OF ok, of w0 "[]"] d by (metis list.set(1) prod.collapse)
  ultimately show thesis using that [OF run f] by auto
qed

theorem stored_event_survives_witness:
  "\<exists>ev b q w0 a. runs_to desk_crypto demo_web demo_journal True demo_env_vars empty_world demo_desk
      demo_accept (\<lambda>_. False) demo_envs q w0 (demo_line @ [newline]) a
    \<and> (live (agQueue a) (agWorld a) (fileName ev) = Some b \<or> dead (agQueue a) (agWorld a) (fileName ev) = Some b
       \<or> (\<exists>e evs. unmarshal_event b = Some e \<and> e \<in> set evs \<and> (evs, Inr ()) \<in> set (agHist a)))"
proof -
  obtain ev b q i w0 a where r: "runs_to desk_crypto demo_web demo_journal True demo_env_vars empty_world demo_desk
      demo_accept (\<lambda>_. False) demo_envs q w0 (demo_line @ [newline]) a"
    and t: "agTaken a = [(ev, ''s=1;i=2'')]" "agWrote a = [(ev, Inr ())]" "qDropped (agQueue a) = 0" "marshal_event ev = Some b"
    and e: "dom (live q w0) = {}" by (rule demo_run)
  have "fresh_names (live q w0) a" using t e by (simp add: fresh_names_def)
  from stored_event_survives [OF r this t(3), of "fileName ev" b ev] t(2,4)
  have "live (agQueue a) (agWorld a) (fileName ev) = Some b \<or> dead (agQueue a) (agWorld a) (fileName ev) = Some b
       \<or> (\<exists>e evs. unmarshal_event b = Some e \<and> e \<in> set evs \<and> (evs, Inr ()) \<in> set (agHist a))" by simp
  with r show ?thesis by blast
qed

theorem every_event_is_accounted_for_witness:
  "\<exists>ev q w0 a. runs_to desk_crypto demo_web demo_journal True demo_env_vars empty_world demo_desk
      demo_accept (\<lambda>_. False) demo_envs q w0 (demo_line @ [newline]) a
    \<and> map fst (agTaken a) = [ev] \<and> agFlight a = None"
proof -
  obtain ev b q i w0 a where r: "runs_to desk_crypto demo_web demo_journal True demo_env_vars empty_world demo_desk
      demo_accept (\<lambda>_. False) demo_envs q w0 (demo_line @ [newline]) a"
    and t: "agTaken a = [(ev, ''s=1;i=2'')]" "agWrote a = [(ev, Inr ())]" by (rule demo_run)
  from every_event_is_accounted_for [OF r] t have "agFlight a = None" by (cases "agFlight a") auto
  moreover have "map fst (agTaken a) = [ev]" using t by simp
  ultimately show ?thesis by (intro exI [of _ ev] exI [of _ q] exI [of _ w0] exI [of _ a] conjI r)
qed

theorem agent_queue_is_bounded_witness:
  "\<exists>q w0 a. runs_to desk_crypto demo_web demo_journal True demo_env_vars empty_world demo_desk
      demo_accept (\<lambda>_. False) demo_envs q w0 (demo_line @ [newline]) a
    \<and> card (dom (live (agQueue a) (agWorld a))) \<le> 100000"
proof -
  obtain ev b q i w0 a where r: "runs_to desk_crypto demo_web demo_journal True demo_env_vars empty_world demo_desk
      demo_accept (\<lambda>_. False) demo_envs q w0 (demo_line @ [newline]) a"
    and t: "agWrote a = [(ev, Inr ())]" by (rule demo_run)
  have "(ev, Inr ()) \<in> set (agWrote a)" by (simp add: t)
  from agent_queue_is_bounded [OF r this] r show ?thesis by blast
qed

end
