(* ===== verification/Onboard.thy ===== *)
theory Onboard
  imports Enroll Auth_Collector
begin

text \<open>
  \<open>cmd/agent/onboard.go\<close>: \<open>install\<close>, \<open>uninstall\<close>, \<open>status\<close> and \<open>doctor\<close>, and the dispatch of \<open>main\<close>.  The
  commands they run (\<open>useradd\<close>, \<open>systemctl\<close>, ...), the user database and the network are the fields of a
  record; the files are the file table of \<open>Go_World\<close>.  A fatal error ends the command with the error as
  its result.  What is printed is left out, but for the documents of the dry run and the checks of \<open>doctor\<close>.
\<close>

subsection \<open>Names and options\<close>

definition defaultUser :: string where "defaultUser = ''shadowtwin''"
definition defaultBinName :: string where "defaultBinName = ''shadowtwin-agent''"
definition defaultBinDir :: string where "defaultBinDir = ''/usr/local/bin''"
definition installStateDir :: string where "installStateDir = ''/var/lib/shadowtwin-agent''"
definition defaultUnitDir :: string where "defaultUnitDir = ''/etc/systemd/system''"
definition defaultEnvDir :: string where "defaultEnvDir = ''/etc/shadowtwin-agent''"
definition journalGroup :: string where "journalGroup = ''systemd-journal''"

record install_opts =
  optServer :: string
  optToken :: string
  optUser :: string
  optBinPath :: string
  optStateDir :: string
  optEnvFile :: string
  optUnitPath :: string
  optSvcName :: string

text \<open>The command line after flag parsing, defaults filled in.\<close>

record install_flags =
  flServer :: string
  flToken :: string
  flCA :: string
  flUser :: string
  flStateDir :: string
  flDryRun :: bool

definition install_options :: "install_flags \<Rightarrow> install_opts" where
  "install_options f =
     \<lparr>optServer = trim_right_char slash (flServer f), optToken = flToken f, optUser = flUser f,
      optBinPath = join_path [defaultBinDir, defaultBinName], optStateDir = flStateDir f,
      optEnvFile = join_path [defaultEnvDir, ''agent.env''],
      optUnitPath = join_path [defaultUnitDir, defaultBinName @ ''.service''], optSvcName = defaultBinName\<rparr>"

definition endpointsFromServer :: "string \<Rightarrow> string \<times> string \<times> string \<times> string" where
  "endpointsFromServer base =
     (let b = trim_right_char slash base in (b @ ''/enroll'', b @ ''/ingest'', b @ ''/renew'', b @ ''/ca''))"

subsection \<open>The two documents\<close>

definition unlines :: "string list \<Rightarrow> string" where
  "unlines ls = concat (map (\<lambda>l. l @ [newline]) ls)"

definition renderUnit :: "install_opts \<Rightarrow> string" where
  "renderUnit opt = unlines
     [''[Unit]'',
      ''Description=ShadowTwin host agent'',
      ''Documentation=https://github.com/Aakhri-Pastaa/ShadowTwin'',
      ''After=network-online.target'',
      ''Wants=network-online.target'',
      [],
      ''[Service]'',
      ''Type=simple'',
      ''User='' @ optUser opt,
      ''Group='' @ optUser opt,
      ''EnvironmentFile='' @ optEnvFile opt,
      ''ExecStart='' @ optBinPath opt,
      ''Restart=on-failure'',
      ''RestartSec=5'',
      [],
      ''# Hardening: the agent only reads the journal and dials out over TLS.'',
      ''NoNewPrivileges=true'',
      ''ProtectSystem=strict'',
      ''ProtectHome=true'',
      ''PrivateTmp=true'',
      ''PrivateDevices=true'',
      ''ProtectKernelTunables=true'',
      ''ProtectKernelModules=true'',
      ''ProtectControlGroups=true'',
      ''ProtectClock=true'',
      ''RestrictAddressFamilies=AF_INET AF_INET6 AF_UNIX'',
      ''RestrictNamespaces=true'',
      ''RestrictRealtime=true'',
      ''LockPersonality=true'',
      ''MemoryDenyWriteExecute=true'',
      ''RestrictSUIDSGID=true'',
      ''SystemCallArchitectures=native'',
      ''CapabilityBoundingSet='',
      ''AmbientCapabilities='',
      ''ReadWritePaths='' @ optStateDir opt,
      [],
      ''[Install]'',
      ''WantedBy=multi-user.target'']"

definition env_comment :: string where
  "env_comment = ''# Managed by 'shadowtwin-agent install'. Contains the enrollment token; keep mode 0600.''"

definition envFileContent :: "install_opts \<Rightarrow> string \<Rightarrow> string \<Rightarrow> string \<Rightarrow> string" where
  "envFileContent opt enrollURL ingestURL renewURL = unlines
     [env_comment,
      ''HOST_AGENT_STATE_DIR='' @ optStateDir opt,
      ''INGEST_ENDPOINT='' @ ingestURL,
      ''AGENT_ENROLL_ENDPOINT='' @ enrollURL,
      ''AGENT_RENEW_ENDPOINT='' @ renewURL,
      ''AGENT_ENROLL_TOKEN='' @ optToken opt]"

subsection \<open>The machine\<close>

text \<open>
  \<open>hExec\<close> runs a command to its end: whether it exits with zero, and its standard output.  \<open>hGet\<close> is a
  GET that does not verify the server, with the status and the body as far as it could be read;
  \<open>hDial\<close> a TLS handshake, against a pool of roots or unverified, and the close after it.  \<open>hSleep\<close> lets a second pass.
\<close>

type_synonym 'h machine = "world \<times> 'h"

record ('pool, 'h) host =
  hEuid :: int
  hExecutable :: "string option"
  hEvalSymlinks :: "string \<Rightarrow> string option"
  hLookPath :: "string \<Rightarrow> bool"
  hExec :: "string list \<Rightarrow> 'h machine \<Rightarrow> (bool \<times> bytes) \<times> 'h machine"
  hUser :: "string \<Rightarrow> 'h \<Rightarrow> (string \<times> string) option"
  hGroup :: "string \<Rightarrow> 'h \<Rightarrow> string option"
  hGroupIds :: "string \<Rightarrow> 'h \<Rightarrow> string list option"
  hGet :: "string \<Rightarrow> 'h \<Rightarrow> (int \<times> bytes option) option \<times> 'h"
  hParseURL :: "string \<Rightarrow> (string \<times> string) option"
  hDial :: "string \<Rightarrow> string \<Rightarrow> 'pool option \<Rightarrow> 'h \<Rightarrow> bool \<times> 'h"
  hSleep :: "'h machine \<Rightarrow> 'h machine"

definition run_command :: "('pool, 'h) host \<Rightarrow> string list \<Rightarrow> 'h machine \<Rightarrow> bool \<times> 'h machine" where
  "run_command h args m = (case hExec h args m of (r, m1) \<Rightarrow> (fst r, m1))"

definition userExists :: "('pool, 'h) host \<Rightarrow> string \<Rightarrow> 'h \<Rightarrow> bool" where
  "userExists h name s = (hUser h name s \<noteq> None)"

text \<open>A call on the files, as a call on the machine.\<close>

definition on_files :: "(world \<Rightarrow> 'a \<times> world) \<Rightarrow> 'h machine \<Rightarrow> 'a \<times> 'h machine" where
  "on_files f m = (case f (fst m) of (r, w1) \<Rightarrow> (r, (w1, snd m)))"

subsection \<open>The service user\<close>

fun first_existing :: "string list \<Rightarrow> world \<Rightarrow> string option \<times> world" where
  "first_existing [] w = (None, w)"
| "first_existing (p # ps) w = (case fileExists p w of (b, w1) \<Rightarrow> if b then (Some p, w1) else first_existing ps w1)"

definition nologinShell :: "world \<Rightarrow> string \<times> world" where
  "nologinShell w =
     (case first_existing [''/usr/sbin/nologin'', ''/sbin/nologin'', ''/bin/false''] w of
        (Some p, w1) \<Rightarrow> (p, w1)
      | (None, w1) \<Rightarrow> (''/bin/false'', w1))"

definition ensureUser :: "('pool, 'h) host \<Rightarrow> string \<Rightarrow> 'h machine \<Rightarrow> bool \<times> 'h machine" where
  "ensureUser h name m =
     (if userExists h name (snd m) then (True, m)
      else if \<not> hLookPath h ''useradd'' then (False, m)
      else case on_files nologinShell m of
          (shell, m1) \<Rightarrow> run_command h [''useradd'', ''--system'', ''--no-create-home'', ''--shell'', shell, name] m1)"

definition ensureUserInGroup :: "('pool, 'h) host \<Rightarrow> string \<Rightarrow> string \<Rightarrow> 'h machine \<Rightarrow> bool \<times> 'h machine" where
  "ensureUserInGroup h userName grp m =
     (if hGroup h grp (snd m) = None then (False, m)
      else if \<not> hLookPath h ''usermod'' then (False, m)
      else run_command h [''usermod'', ''-aG'', grp, userName] m)"

definition userInGroup :: "('pool, 'h) host \<Rightarrow> string \<Rightarrow> string \<Rightarrow> 'h \<Rightarrow> bool" where
  "userInGroup h userName grp s =
     (case (hUser h userName s, hGroup h grp s, hGroupIds h userName s) of
        (Some _, Some gid, Some ids) \<Rightarrow> gid \<in> set ids
      | _ \<Rightarrow> False)"

text \<open>\<open>strconv.Atoi\<close> with its error dropped: zero for what is no number, the nearest bound for one out of range.\<close>

definition atoi :: "string \<Rightarrow> int" where
  "atoi s =
     (let neg = (s \<noteq> [] \<and> hd s = CHR ''-'');
          ds = (if s \<noteq> [] \<and> (hd s = CHR ''-'' \<or> hd s = CHR ''+'') then tl s else s);
          v = (if neg then - int (dval ds) else int (dval ds))
      in if ds = [] \<or> \<not> list_all is_digit ds then 0 else max (- (2 ^ 63)) (min (2 ^ 63 - 1) v))"

definition lookupIDs :: "('pool, 'h) host \<Rightarrow> string \<Rightarrow> 'h \<Rightarrow> (int \<times> int) option" where
  "lookupIDs h name s = map_option (\<lambda>(uid, gid). (atoi uid, atoi gid)) (hUser h name s)"

subsection \<open>Files\<close>

definition copyExecutable :: "string \<Rightarrow> string \<Rightarrow> world \<Rightarrow> (errno + unit) \<times> world" where
  "copyExecutable src dst w =
     (case os_read_file src w of
        (Inl e, w1) \<Rightarrow> (Inl e, w1)
      | (Inr data, w1) \<Rightarrow>
          (let tmp = dst @ ''.tmp'' in
           case os_write_file tmp data (7 * 8 * 8 + 5 * 8 + 5) w1 of
             (Inl e, w2) \<Rightarrow> (Inl e, w2)
           | (Inr _, w2) \<Rightarrow>
               (case os_chmod tmp (7 * 8 * 8 + 5 * 8 + 5) w2 of
                  (Inl e, w3) \<Rightarrow> (Inl e, w3)
                | (Inr _, w3) \<Rightarrow> os_rename tmp dst w3)))"

definition writeRootFile :: "string \<Rightarrow> string \<Rightarrow> perm \<Rightarrow> world \<Rightarrow> (errno + unit) \<times> world" where
  "writeRootFile path content mode w =
     (case os_mkdir_all (dir_name path) (7 * 8 * 8 + 5 * 8 + 5) w of
        (Inl e, w1) \<Rightarrow> (Inl e, w1)
      | (Inr _, w1) \<Rightarrow>
          (case os_write_file path content mode w1 of
             (Inl e, w2) \<Rightarrow> (Inl e, w2)
           | (Inr _, w2) \<Rightarrow> os_chmod path mode w2))"

text \<open>
  \<open>filepath.WalkDir\<close> with a function that does not look at its entry: the path itself, then, for a
  directory, its entries in the order of their names.  The fuel bounds the depth; \<open>None\<close> is running out.
\<close>

fun walk_dir :: "nat \<Rightarrow> (string \<Rightarrow> world \<Rightarrow> (errno + unit) \<times> world) \<Rightarrow> string \<Rightarrow> bool \<Rightarrow> world \<Rightarrow> ((errno + unit) \<times> world) option"
  and walk_entries :: "nat \<Rightarrow> (string \<Rightarrow> world \<Rightarrow> (errno + unit) \<times> world) \<Rightarrow> string \<Rightarrow> (string \<times> bool) list \<Rightarrow> world
    \<Rightarrow> ((errno + unit) \<times> world) option"
where
  "walk_dir fuel f p isdir w =
     (case f p w of
        (Inl e, w1) \<Rightarrow> Some (Inl e, w1)
      | (Inr _, w1) \<Rightarrow>
          if \<not> isdir then Some (Inr (), w1)
          else (case fuel of
              0 \<Rightarrow> None
            | Suc k \<Rightarrow>
                (case os_read_dir p w1 of
                   (Inl e, w2) \<Rightarrow> Some (Inl e, w2)
                 | (Inr es, w2) \<Rightarrow> walk_entries k f p es w2)))"
| "walk_entries k f p [] w = Some (Inr (), w)"
| "walk_entries k f p ((n, isdir) # es) w =
     (case walk_dir k f (join_path [p, n]) isdir w of
        None \<Rightarrow> None
      | Some (Inl e, w1) \<Rightarrow> Some (Inl e, w1)
      | Some (Inr _, w1) \<Rightarrow> walk_entries k f p es w1)"

definition chownTree :: "nat \<Rightarrow> string \<Rightarrow> int \<times> int \<Rightarrow> world \<Rightarrow> ((errno + unit) \<times> world) option" where
  "chownTree fuel root ids w =
     (case (if root = [] then (Inl ENOENT, w) else os_stat (clean root) w) of
        (Inl e, w1) \<Rightarrow> Some (Inl e, w1)
      | (Inr nd, w1) \<Rightarrow>
          walk_dir fuel (\<lambda>p. os_chown p ids) (clean root) (case nd of Dir _ \<Rightarrow> True | File _ _ \<Rightarrow> False) w1)"

definition queueDepth :: "string \<Rightarrow> world \<Rightarrow> int \<times> world" where
  "queueDepth stateDir w =
     (case os_read_dir (join_path [stateDir, ''queue'']) w of
        (Inl e, w1) \<Rightarrow> (0, w1)
      | (Inr es, w1) \<Rightarrow> (int (length (filter (\<lambda>(n, isdir). \<not> isdir \<and> has_suffix n ''.json'') es)), w1))"

definition presence :: "string \<Rightarrow> world \<Rightarrow> string \<times> world" where
  "presence path w = (case fileExists path w of (b, w1) \<Rightarrow> (path @ (if b then '' (present)'' else '' (missing)''), w1))"

subsection \<open>The environment file\<close>

text \<open>The default line limit of \<open>bufio.Scanner\<close>.\<close>

definition maxScanTokenSize :: nat where
  "maxScanTokenSize = 64 * 1024"

definition env_entry :: "string \<Rightarrow> (string \<times> string) option" where
  "env_entry l =
     (let line = trim_space l in
      if line = [] \<or> has_prefix line ''#'' then None
      else map_option (\<lambda>(k, v). (trim_space k, trim_space v)) (cut (CHR ''='') line))"

definition env_settings :: "string list \<Rightarrow> string gomap" where
  "env_settings ls = foldl (\<lambda>m l. case env_entry l of None \<Rightarrow> m | Some (k, v) \<Rightarrow> map_put k v m) [] ls"

datatype env_error = EnvOpen errno | EnvRead errno | EnvTooLong

text \<open>
  The settings of the lines that could be read, a last partial one included, and the error if there was one:
  that of \<open>Open\<close>, then there are none, or that of the scanner.
\<close>

definition parseEnvFile :: "string \<Rightarrow> world \<Rightarrow> (string gomap \<times> env_error option) \<times> world" where
  "parseEnvFile path w =
     (case os_open_read path w of
        (Inl e, w1) \<Rightarrow> (([], Some (EnvOpen e)), w1)
      | (Inr (b, failed), w1) \<Rightarrow>
          (case lines_within maxScanTokenSize b of
             (ls, long) \<Rightarrow> ((env_settings ls, if long then Some EnvTooLong else map_option EnvRead failed), w1)))"

definition setting :: "string gomap \<Rightarrow> string \<Rightarrow> string" where
  "setting m key = (case map_of m key of None \<Rightarrow> [] | Some v \<Rightarrow> v)"

definition envOr :: "string gomap \<Rightarrow> string \<Rightarrow> string \<Rightarrow> string" where
  "envOr m key def = (if setting m key \<noteq> [] then setting m key else def)"

subsection \<open>The platform\<close>

datatype ca_error = CAUnreadable errno | CAGet | CAStatus int | CABody | CANotPem

definition fetchCAInsecure ::
  "('k, 'p, 'i, 'pool, 'n) crypto \<Rightarrow> ('pool, 'h) host \<Rightarrow> string \<Rightarrow> 'h \<Rightarrow> (ca_error + bytes) \<times> 'h"
where
  "fetchCAInsecure cr h rawURL s =
     (case hGet h rawURL s of
        (None, s1) \<Rightarrow> (Inl CAGet, s1)
      | (Some (status, body), s1) \<Rightarrow>
          if status \<noteq> 200 then (Inl (CAStatus status), s1)
          else (case body of
              None \<Rightarrow> (Inl CABody, s1)
            | Some b0 \<Rightarrow>
                let b = read_limited (2 ^ 20) b0
                in if pemDecode cr b = None then (Inl CANotPem, s1) else (Inr b, s1)))"

text \<open>The CA, and whether it was fetched without verification.\<close>

definition obtainCA ::
  "('k, 'p, 'i, 'pool, 'n) crypto \<Rightarrow> ('pool, 'h) host \<Rightarrow> string \<Rightarrow> string \<Rightarrow> 'h machine \<Rightarrow> (ca_error + bytes) \<times> bool \<times> 'h machine"
where
  "obtainCA cr h caSrc caURL m =
     (if caSrc = [] \<or> has_prefix caSrc ''http://'' \<or> has_prefix caSrc ''https://'' then
        (case fetchCAInsecure cr h (if caSrc = [] then caURL else caSrc) (snd m) of
           (r, s1) \<Rightarrow> (r, True, (fst m, s1)))
      else
        (case os_read_file (clean caSrc) (fst m) of
           (Inl e, w1) \<Rightarrow> (Inl (CAUnreadable e), False, (w1, snd m))
         | (Inr b, w1) \<Rightarrow> (Inr b, False, (w1, snd m))))"

datatype cert_error = CertUnreadable errno | CertNoPem | CertUnparsable

definition certNotAfter :: "('k, 'p, 'i, 'pool, 'n) crypto \<Rightarrow> string \<Rightarrow> world \<Rightarrow> (cert_error + time) \<times> world" where
  "certNotAfter cr path w =
     (case os_read_file path w of
        (Inl e, w1) \<Rightarrow> (Inl (CertUnreadable e), w1)
      | (Inr b, w1) \<Rightarrow>
          (case pemDecode cr b of
             None \<Rightarrow> (Inl CertNoPem, w1)
           | Some der \<Rightarrow>
               (case cryParseCert cr der of
                  None \<Rightarrow> (Inl CertUnparsable, w1)
                | Some c \<Rightarrow> (Inr (NotAfter c), w1))))"

datatype probe_error = ProbeURL | ProbeCA | ProbeDial

definition probeTLS ::
  "('k, 'p, 'i, 'pool, 'n) crypto \<Rightarrow> ('pool, 'h) host \<Rightarrow> string \<Rightarrow> bytes \<Rightarrow> 'h \<Rightarrow> (probe_error + unit) \<times> 'h"
where
  "probeTLS cr h endpoint caPEM s =
     (case hParseURL h endpoint of
        None \<Rightarrow> (Inl ProbeURL, s)
      | Some (host, hostname) \<Rightarrow>
          let addr = (if CHR '':'' \<in> set host then host else host @ '':443'');
              dial = (\<lambda>pool. (case hDial h addr hostname pool s of (ok, s1) \<Rightarrow> ((if ok then Inr () else Inl ProbeDial), s1)))
          in if caPEM = [] then dial None
             else (case cryPool cr caPEM of None \<Rightarrow> (Inl ProbeCA, s) | Some pool \<Rightarrow> dial (Some pool)))"

definition isActive :: "('pool, 'h) host \<Rightarrow> string \<Rightarrow> 'h machine \<Rightarrow> bool \<times> 'h machine" where
  "isActive h svc m = (case hExec h [''systemctl'', ''is-active'', svc] m of (r, m1) \<Rightarrow> (trim_space (snd r) = ''active'', m1))"

text \<open>\<open>verifyInstall\<close>; \<open>rounds\<close> is how often its clock is found before the deadline of 25 seconds.\<close>

datatype verify_error = NotReachable probe_error | NotEnrolledInTime

fun await_service :: "('pool, 'h) host \<Rightarrow> string \<Rightarrow> string \<Rightarrow> nat \<Rightarrow> 'h machine \<Rightarrow> (verify_error + unit) \<times> 'h machine" where
  "await_service h svc certPath 0 m = (Inl NotEnrolledInTime, m)"
| "await_service h svc certPath (Suc rounds) m =
     (case isActive h svc m of
        (active, m1) \<Rightarrow>
          (case (if active then on_files (fileExists certPath) m1 else (False, m1)) of
             (there, m2) \<Rightarrow>
               if there then (Inr (), m2) else await_service h svc certPath rounds (hSleep h m2)))"

definition verifyInstall ::
  "('k, 'p, 'i, 'pool, 'n) crypto \<Rightarrow> ('pool, 'h) host \<Rightarrow> install_opts \<Rightarrow> string \<Rightarrow> bytes \<Rightarrow> nat \<Rightarrow> 'h machine
    \<Rightarrow> (verify_error + unit) \<times> 'h machine"
where
  "verifyInstall cr h opt ingestURL caPEM rounds m =
     (case probeTLS cr h ingestURL caPEM (snd m) of
        (Inl e, s1) \<Rightarrow> (Inl (NotReachable e), (fst m, s1))
      | (Inr _, s1) \<Rightarrow>
          await_service h (optSvcName opt) (join_path [optStateDir opt, ''certs'', ''client.crt'']) rounds (fst m, s1))"

subsection \<open>Installing\<close>

datatype install_error =
    FlagsMissing | NoExecutable | NotRoot | UserNotCreated | UserUnknown
  | CopyFailed errno | StateDirNotCreated errno | CANotObtained ca_error | CANotWritten errno
  | ChownFailed errno | EnvNotWritten errno | UnitNotWritten errno
  | ReloadFailed | EnableFailed | VerificationFailed verify_error string

text \<open>From the service user to the directory for the state: the steps that come before the CA.\<close>

definition install_program ::
  "('pool, 'h) host \<Rightarrow> install_opts \<Rightarrow> string \<Rightarrow> 'h machine \<Rightarrow> (install_error + int \<times> int) \<times> 'h machine"
where
  "install_program h opt self m =
     (case ensureUser h (optUser opt) m of
        (ok, m1) \<Rightarrow>
          if \<not> ok then (Inl UserNotCreated, m1)
          else (case ensureUserInGroup h (optUser opt) journalGroup m1 of
              (_, m2) \<Rightarrow>
                (case lookupIDs h (optUser opt) (snd m2) of
                   None \<Rightarrow> (Inl UserUnknown, m2)
                 | Some ids \<Rightarrow>
                     (case on_files (copyExecutable self (optBinPath opt)) m2 of
                        (Inl e, m3) \<Rightarrow> (Inl (CopyFailed e), m3)
                      | (Inr _, m3) \<Rightarrow>
                          (case on_files (os_mkdir_all (join_path [optStateDir opt, ''certs'']) (7 * 8 * 8)) m3 of
                             (Inl e, m4) \<Rightarrow> (Inl (StateDirNotCreated e), m4)
                           | (Inr _, m4) \<Rightarrow> (Inr ids, m4))))))"

text \<open>The CA, the owner of the state directory, and the two documents.\<close>

definition install_files ::
  "('k, 'p, 'i, 'pool, 'n) crypto \<Rightarrow> ('pool, 'h) host \<Rightarrow> install_opts \<Rightarrow> string \<Rightarrow> nat \<Rightarrow> int \<times> int \<Rightarrow> 'h machine
    \<Rightarrow> ((install_error + bytes) \<times> 'h machine) option"
where
  "install_files cr h opt caSrc fuel ids m =
     (case endpointsFromServer (optServer opt) of
        (enrollURL, ingestURL, renewURL, caURL) \<Rightarrow>
          (case obtainCA cr h caSrc caURL m of
             (Inl e, _, m1) \<Rightarrow> Some (Inl (CANotObtained e), m1)
           | (Inr caPEM, _, m1) \<Rightarrow>
               (case on_files (os_write_file (join_path [join_path [optStateDir opt, ''certs''], ''ca.crt'']) caPEM (6 * 8 * 8 + 4 * 8 + 4)) m1 of
                  (Inl e, m2) \<Rightarrow> Some (Inl (CANotWritten e), m2)
                | (Inr _, m2) \<Rightarrow>
                    (case chownTree fuel (optStateDir opt) ids (fst m2) of
                       None \<Rightarrow> None
                     | Some (Inl e, w3) \<Rightarrow> Some (Inl (ChownFailed e), (w3, snd m2))
                     | Some (Inr _, w3) \<Rightarrow>
                         (case writeRootFile (optEnvFile opt) (envFileContent opt enrollURL ingestURL renewURL) (6 * 8 * 8) w3 of
                            (Inl e, w4) \<Rightarrow> Some (Inl (EnvNotWritten e), (w4, snd m2))
                          | (Inr _, w4) \<Rightarrow>
                              (case writeRootFile (optUnitPath opt) (renderUnit opt) (6 * 8 * 8 + 4 * 8 + 4) w4 of
                                 (Inl e, w5) \<Rightarrow> Some (Inl (UnitNotWritten e), (w5, snd m2))
                               | (Inr _, w5) \<Rightarrow> Some (Inr caPEM, (w5, snd m2))))))))"

definition journalTail :: "('pool, 'h) host \<Rightarrow> string \<Rightarrow> nat \<Rightarrow> 'h machine \<Rightarrow> string \<times> 'h machine" where
  "journalTail h svc n m =
     (case hExec h [''journalctl'', ''-u'', svc, ''-n'', itoa n, ''--no-pager''] m of
        (r, m1) \<Rightarrow> ((if snd r = [] then ''(no logs)'' else snd r), m1))"

definition start_service ::
  "('k, 'p, 'i, 'pool, 'n) crypto \<Rightarrow> ('pool, 'h) host \<Rightarrow> install_opts \<Rightarrow> bytes \<Rightarrow> nat \<Rightarrow> 'h machine
    \<Rightarrow> (install_error + unit) \<times> 'h machine"
where
  "start_service cr h opt caPEM rounds m =
     (case endpointsFromServer (optServer opt) of
        (_, ingestURL, _, _) \<Rightarrow>
          (case run_command h [''systemctl'', ''daemon-reload''] m of
             (ok1, m1) \<Rightarrow>
               if \<not> ok1 then (Inl ReloadFailed, m1)
               else (case run_command h [''systemctl'', ''enable'', ''--now'', optSvcName opt] m1 of
                   (ok2, m2) \<Rightarrow>
                     if \<not> ok2 then (Inl EnableFailed, m2)
                     else (case verifyInstall cr h opt ingestURL caPEM rounds m2 of
                         (Inl e, m3) \<Rightarrow> (case journalTail h (optSvcName opt) 20 m3 of (logs, m4) \<Rightarrow> (Inl (VerificationFailed e logs), m4))
                       | (Inr _, m3) \<Rightarrow> (Inr (), m3)))))"

text \<open>\<open>DryRun\<close> carries the unit and the environment file that would be written.\<close>

datatype install_outcome = DryRun string string | Installed

definition runInstall ::
  "('k, 'p, 'i, 'pool, 'n) crypto \<Rightarrow> ('pool, 'h) host \<Rightarrow> install_flags \<Rightarrow> nat \<Rightarrow> nat \<Rightarrow> 'h machine
    \<Rightarrow> ((install_error + install_outcome) \<times> 'h machine) option"
where
  "runInstall cr h f fuel rounds m =
     (if flServer f = [] \<or> flToken f = [] then Some (Inl FlagsMissing, m)
      else case hExecutable h of
          None \<Rightarrow> Some (Inl NoExecutable, m)
        | Some exe \<Rightarrow>
            let self = (case hEvalSymlinks h exe of Some p \<Rightarrow> p | None \<Rightarrow> exe);
                opt = install_options f
            in case endpointsFromServer (optServer opt) of
                (enrollURL, ingestURL, renewURL, caURL) \<Rightarrow>
                  if flDryRun f then
                    Some (Inr (DryRun (renderUnit opt) (envFileContent opt enrollURL ingestURL renewURL)), m)
                  else if hEuid h \<noteq> 0 then Some (Inl NotRoot, m)
                  else (case install_program h opt self m of
                      (Inl e, m1) \<Rightarrow> Some (Inl e, m1)
                    | (Inr ids, m1) \<Rightarrow>
                        (case install_files cr h opt (flCA f) fuel ids m1 of
                           None \<Rightarrow> None
                         | Some (Inl e, m2) \<Rightarrow> Some (Inl e, m2)
                         | Some (Inr caPEM, m2) \<Rightarrow>
                             (case start_service cr h opt caPEM rounds m2 of
                                (Inl e, m3) \<Rightarrow> Some (Inl e, m3)
                              | (Inr _, m3) \<Rightarrow> Some (Inr Installed, m3)))))"

subsection \<open>Uninstalling\<close>

definition removed :: "string \<Rightarrow> 'h machine \<Rightarrow> bool \<times> 'h machine" where
  "removed p m = (case on_files (os_remove p) m of (r, m1) \<Rightarrow> (is_ok r, m1))"

text \<open>\<open>os.RemoveAll\<close> of a directory given by the user: nothing for the empty path, refused for one that ends in a dot.\<close>

definition purge_dir :: "string \<Rightarrow> world \<Rightarrow> (errno + unit) option \<times> world" where
  "purge_dir d w =
     (if d = [] then (Some (Inr ()), w)
      else if d = ''.'' \<or> has_suffix d ''/.'' then (None, w)
      else (case os_remove_all (clean d) w of (r, w1) \<Rightarrow> (Some r, w1)))"

text \<open>What was reported as removed: the unit, the binary, and the user.\<close>

definition runUninstall ::
  "('pool, 'h) host \<Rightarrow> bool \<Rightarrow> string \<Rightarrow> string \<Rightarrow> 'h machine \<Rightarrow> (install_error + bool \<times> bool \<times> bool) \<times> 'h machine"
where
  "runUninstall h purge userName stateDir m =
     (if hEuid h \<noteq> 0 then (Inl NotRoot, m)
      else case run_command h [''systemctl'', ''disable'', ''--now'', defaultBinName] m of
          (_, m1) \<Rightarrow>
            (case removed (join_path [defaultUnitDir, defaultBinName @ ''.service'']) m1 of
               (unit, m2) \<Rightarrow>
                 (case run_command h [''systemctl'', ''daemon-reload''] m2 of
                    (_, m3) \<Rightarrow>
                      (case removed (join_path [defaultBinDir, defaultBinName]) m3 of
                         (binary, m4) \<Rightarrow>
                           if \<not> purge then (Inr (unit, binary, False), m4)
                           else (case on_files (purge_dir stateDir) m4 of
                               (_, m5) \<Rightarrow>
                                 (case on_files (os_remove_all defaultEnvDir) m5 of
                                    (_, m6) \<Rightarrow>
                                      if userExists h userName (snd m6) \<and> hLookPath h ''userdel'' then
                                        (case run_command h [''userdel'', userName] m6 of
                                           (gone, m7) \<Rightarrow> (Inr (unit, binary, gone), m7))
                                      else (Inr (unit, binary, False), m6)))))))"

subsection \<open>Looking after an installation\<close>

definition agent_env_file :: string where
  "agent_env_file = join_path [defaultEnvDir, ''agent.env'']"

record status =
  stBinary :: string
  stActive :: string
  stEnabled :: string
  stCert :: "time option"
  stEndpoint :: string
  stQueue :: int

definition cmdOut :: "('pool, 'h) host \<Rightarrow> string list \<Rightarrow> 'h machine \<Rightarrow> string \<times> 'h machine" where
  "cmdOut h args m =
     (case hExec h args m of (r, m1) \<Rightarrow> ((if trim_space (snd r) \<noteq> [] then trim_space (snd r) else ''unknown''), m1))"

definition runStatus :: "('k, 'p, 'i, 'pool, 'n) crypto \<Rightarrow> ('pool, 'h) host \<Rightarrow> 'h machine \<Rightarrow> status \<times> 'h machine" where
  "runStatus cr h m =
     (case on_files (presence (join_path [defaultBinDir, defaultBinName])) m of
        (binary, m1) \<Rightarrow>
      (case cmdOut h [''systemctl'', ''is-active'', defaultBinName] m1 of
        (active, m2) \<Rightarrow>
      (case cmdOut h [''systemctl'', ''is-enabled'', defaultBinName] m2 of
        (enabled, m3) \<Rightarrow>
      (case on_files (parseEnvFile agent_env_file) m3 of
        ((env, _), m4) \<Rightarrow>
          let stateDir = envOr env ''HOST_AGENT_STATE_DIR'' installStateDir in
          (case on_files (certNotAfter cr (join_path [stateDir, ''certs'', ''client.crt''])) m4 of
            (cert, m5) \<Rightarrow>
          (case on_files (queueDepth stateDir) m5 of
            (depth, m6) \<Rightarrow>
              (\<lparr>stBinary = binary, stActive = active, stEnabled = enabled,
                stCert = (case cert of Inl _ \<Rightarrow> None | Inr t \<Rightarrow> Some t),
                stEndpoint = envOr env ''INGEST_ENDPOINT'' ''(unset)'', stQueue = depth\<rparr>, m6)))))))"

text \<open>A line of \<open>doctor\<close>: a check with its outcome, or a warning.\<close>

datatype check_name =
    BinaryInstalled | UserThere | UserReadsJournal | ConfigPresent | CertPresent | CertNotExpired
  | PlatformReachable | ServiceActive

datatype check_line = Check check_name bool | WarnCertNearExpiry | WarnNoEndpoint | WarnNoSystemctl

definition check_fails :: "check_line \<Rightarrow> bool" where
  "check_fails l = (case l of Check _ ok \<Rightarrow> \<not> ok | _ \<Rightarrow> False)"

text \<open>The clock is read again for the second comparison.\<close>

definition cert_check :: "cert_error + time \<Rightarrow> world \<Rightarrow> check_line \<times> world" where
  "cert_check r w =
     (case r of
        Inl _ \<Rightarrow> (Check CertPresent False, w)
      | Inr na \<Rightarrow>
          (case time_now w of
             (t1, w1) \<Rightarrow>
               if clamp64 (na - t1) \<le> 0 then (Check CertNotExpired False, w1)
               else (case time_now w1 of
                   (t2, w2) \<Rightarrow>
                     if clamp64 (na - t2) < 7 * 24 * 3600 * ns_per_s then (WarnCertNearExpiry, w2)
                     else (Check CertNotExpired True, w2))))"

definition doctor_user :: "('pool, 'h) host \<Rightarrow> 'h \<Rightarrow> check_line list" where
  "doctor_user h s =
     (if userExists h defaultUser s then [Check UserThere True, Check UserReadsJournal (userInGroup h defaultUser journalGroup s)]
      else [Check UserThere False])"

definition doctor_platform ::
  "('k, 'p, 'i, 'pool, 'n) crypto \<Rightarrow> ('pool, 'h) host \<Rightarrow> string \<Rightarrow> string \<Rightarrow> 'h machine \<Rightarrow> check_line \<times> 'h machine"
where
  "doctor_platform cr h ingest stateDir m =
     (if ingest = [] then (WarnNoEndpoint, m)
      else case on_files (os_read_file (join_path [stateDir, ''certs'', ''ca.crt''])) m of
          (ca, m1) \<Rightarrow>
            (case probeTLS cr h ingest (case ca of Inl _ \<Rightarrow> [] | Inr b \<Rightarrow> b) (snd m1) of
               (r, s2) \<Rightarrow> (Check PlatformReachable (is_ok r), (fst m1, s2))))"

text \<open>\<open>doctor\<close>: its lines, the number of events it reports as buffered, and whether it exits with an error.\<close>

definition runDoctor ::
  "('k, 'p, 'i, 'pool, 'n) crypto \<Rightarrow> ('pool, 'h) host \<Rightarrow> 'h machine \<Rightarrow> (check_line list \<times> int \<times> bool) \<times> 'h machine"
where
  "runDoctor cr h m =
     (case on_files (fileExists (join_path [defaultBinDir, defaultBinName])) m of
        (binary, m1) \<Rightarrow>
      (case on_files (parseEnvFile agent_env_file) m1 of
        ((env, envErr), m2) \<Rightarrow>
          let stateDir = envOr env ''HOST_AGENT_STATE_DIR'' installStateDir in
          (case on_files (certNotAfter cr (join_path [stateDir, ''certs'', ''client.crt''])) m2 of
            (cert, m3) \<Rightarrow>
          (case on_files (cert_check cert) m3 of
            (cert_line, m4) \<Rightarrow>
          (case doctor_platform cr h (setting env ''INGEST_ENDPOINT'') stateDir m4 of
            (platform, m5) \<Rightarrow>
          (case (if hLookPath h ''systemctl'' then (case isActive h defaultBinName m5 of (ok, m6) \<Rightarrow> (Check ServiceActive ok, m6))
                 else (WarnNoSystemctl, m5)) of
            (service, m6) \<Rightarrow>
          (case on_files (queueDepth stateDir) m6 of
            (depth, m7) \<Rightarrow>
              let ls = Check BinaryInstalled binary # doctor_user h (snd m1) @ [Check ConfigPresent (envErr = None), cert_line, platform, service]
              in ((ls, depth, list_ex check_fails ls), m7))))))))"

subsection \<open>The commands\<close>

datatype command = RunAgent "string list" | Install "string list" | Uninstall "string list" | Status "string list"
  | Doctor "string list" | UnknownCommand string

definition main_command :: "string list \<Rightarrow> command" where
  "main_command args =
     (let (cmd, rest) = (if args \<noteq> [] \<and> \<not> has_prefix (hd args) ''-'' then (hd args, tl args) else ([], args))
      in if cmd = [] \<or> cmd = ''run'' then RunAgent rest
         else if cmd = ''install'' then Install rest
         else if cmd = ''uninstall'' then Uninstall rest
         else if cmd = ''status'' then Status rest
         else if cmd = ''doctor'' then Doctor rest
         else UnknownCommand cmd)"

end
