(* ===== verification/Onboard_Theorems.thy ===== *)
theory Onboard_Theorems
  imports Onboard Enroll_Theorems Auth_Theorems
begin

text \<open>
  The environment file of an installation: what \<open>install\<close> writes, \<open>parseEnvFile\<close> reads back line by line, and
  the configuration made of it is the one that was asked for.
\<close>

subsection \<open>Lines\<close>

lemma lines_within_nil: "0 < most \<Longrightarrow> lines_within most [] = ([], False)"
  by (simp add: lines_within.simps [of most "[]"])

lemma lines_of_unlines:
  assumes "0 < most" and "\<forall>l\<in>set ls. newline \<notin> set l \<and> length l < most \<and> (l = [] \<or> last l \<noteq> CHR 0x0D)"
  shows "lines_within most (unlines ls) = (ls, False)"
  using assms(2)
proof (induction ls)
  case Nil
  then show ?case using lines_within_nil [OF assms(1)] by (simp add: unlines_def)
next
  case (Cons l ls)
  have u: "unlines (l # ls) = l @ newline # unlines ls" by (simp add: unlines_def)
  have "takeWhile (\<lambda>c. c \<noteq> newline) (l @ newline # unlines ls) = l"
    using Cons.prems by (intro takeWhile_append_stop) auto
  then show ?case using Cons by (auto simp: u lines_within.simps [of most "l @ newline # unlines ls"] drop_cr_def)
qed

subsection \<open>A setting as a line\<close>

lemma runes_short: "list_all (\<lambda>r. CHR ''='' \<notin> set r \<and> length r \<le> 3) space_runes"
  by code_simp

lemma has_prefix_longer: "has_prefix (s @ t) r \<Longrightarrow> length r \<le> length s \<Longrightarrow> has_prefix s r"
  by (simp add: has_prefix_def)

lemma setting_trimmed:
  assumes "no_outer_space k" and "3 \<le> length k" and "no_outer_space v"
  shows "no_outer_space (k @ ''='' @ v)"
proof -
  have r: "CHR ''='' \<notin> set r \<and> length r \<le> 3" if "r \<in> set space_runes" for r
    using runes_short that by (simp add: list_all_iff)
  have "\<not> has_prefix (k @ ''='' @ v) r" if m: "r \<in> set space_runes" for r
    using has_prefix_longer [of k "''='' @ v" r] r [OF m] m assms(1,2) by (auto simp: no_outer_space_def)
  moreover have "\<not> has_suffix (k @ ''='' @ v) r" if m: "r \<in> set space_runes" for r
  proof
    assume "has_suffix (k @ ''='' @ v) r"
    then obtain t where t: "k @ ''='' @ v = t @ r" by (auto simp: has_suffix_iff)
    show False
    proof (cases "length r \<le> length v")
      case True
      obtain u where "v = u @ r" using t True by (auto simp: append_eq_append_conv2 append_eq_Cons_conv Cons_eq_append_conv)
      then show False using assms(3) m by (auto simp: no_outer_space_def has_suffix_iff)
    next
      case False
      have "r = drop (length t) (k @ ''='' @ v)" using t by simp
      moreover have "length t \<le> length k" using arg_cong [OF t, of length] False by simp
      ultimately have "CHR ''='' \<in> set r" by simp
      then show False using r [OF m] by simp
    qed
  qed
  ultimately show ?thesis by (auto simp: no_outer_space_def)
qed

text \<open>The keys the code writes.\<close>

definition env_keys :: "string list" where
  "env_keys = [''HOST_AGENT_STATE_DIR'', ''INGEST_ENDPOINT'', ''AGENT_ENROLL_ENDPOINT'', ''AGENT_RENEW_ENDPOINT'', ''AGENT_ENROLL_TOKEN'']"

lemma env_keys_plain:
  "list_all (\<lambda>k. no_outer_space k \<and> 3 \<le> length k \<and> length k \<le> 21 \<and> CHR ''='' \<notin> set k \<and> hd k \<noteq> CHR ''#''
     \<and> newline \<notin> set k \<and> trim_space k = k) env_keys"
  by code_simp

lemma env_entry_setting:
  assumes "k \<in> set env_keys" and "no_outer_space v"
  shows "env_entry (k @ ''='' @ v) = Some (k, v)"
proof -
  have k: "no_outer_space k" "3 \<le> length k" "CHR ''='' \<notin> set k" "hd k \<noteq> CHR ''#''" "trim_space k = k" "k \<noteq> []"
    using env_keys_plain assms(1) by (auto simp: list_all_iff)
  have t: "trim_space (k @ ''='' @ v) = k @ ''='' @ v" by (rule trim_space_id [OF setting_trimmed [OF k(1,2) assms(2)]])
  have "\<not> has_prefix (k @ ''='' @ v) ''#''" using k(4,6) by (cases k) (auto simp: has_prefix_def)
  moreover have "cut (CHR ''='') (k @ ''='' @ v) = Some (k, v)" using cut_append [OF k(3)] by simp
  ultimately show ?thesis using t k(5,6) trim_space_id [OF assms(2)] by (simp add: env_entry_def Let_def)
qed

text \<open>A value that can stand in the file: no white space around it, one line, and short enough for the scanner.\<close>

definition plain_value :: "string \<Rightarrow> bool" where
  "plain_value v \<longleftrightarrow> no_outer_space v \<and> newline \<notin> set v \<and> length v \<le> 65000"

lemma carriage_return_space: "[CHR 0x0D] \<in> set space_runes"
  by code_simp

lemma plain_line:
  assumes "k \<in> set env_keys" and "plain_value v"
  shows "newline \<notin> set (k @ ''='' @ v) \<and> length (k @ ''='' @ v) < maxScanTokenSize \<and> last (k @ ''='' @ v) \<noteq> CHR 0x0D"
proof -
  have k: "length k \<le> 21" "newline \<notin> set k" using env_keys_plain assms(1) by (auto simp: list_all_iff)
  have "v = [] \<or> last v \<noteq> CHR 0x0D"
    using assms(2) carriage_return_space by (cases v rule: rev_cases) (auto simp: plain_value_def no_outer_space_def has_suffix_iff)
  then show ?thesis using assms(2) k by (auto simp: plain_value_def maxScanTokenSize_def newline_def)
qed

lemma env_comment_line:
  "env_entry env_comment = None" "newline \<notin> set env_comment" "length env_comment < maxScanTokenSize" "last env_comment \<noteq> CHR 0x0D"
  by code_simp+

definition env_lines :: "install_opts \<Rightarrow> string \<Rightarrow> string \<Rightarrow> string \<Rightarrow> (string \<times> string) list" where
  "env_lines opt enrollURL ingestURL renewURL =
     [(''HOST_AGENT_STATE_DIR'', optStateDir opt), (''INGEST_ENDPOINT'', ingestURL), (''AGENT_ENROLL_ENDPOINT'', enrollURL),
      (''AGENT_RENEW_ENDPOINT'', renewURL), (''AGENT_ENROLL_TOKEN'', optToken opt)]"

lemma env_content_lines:
  "envFileContent opt e i r = unlines (env_comment # map (\<lambda>(k, v). k @ ''='' @ v) (env_lines opt e i r))"
  by (simp add: envFileContent_def env_lines_def)

lemma env_settings_lines:
  assumes "\<forall>(k, v)\<in>set kvs. k \<in> set env_keys \<and> no_outer_space v"
  shows "map_of (env_settings (env_comment # map (\<lambda>(k, v). k @ ''='' @ v) kvs)) = foldl (\<lambda>m (k, v). m(k \<mapsto> v)) Map.empty kvs"
proof -
  have "map_of (foldl (\<lambda>m l. case env_entry l of None \<Rightarrow> m | Some (k, v) \<Rightarrow> map_put k v m) m0 (map (\<lambda>(k, v). k @ ''='' @ v) kvs))
      = foldl (\<lambda>m (k, v). m(k \<mapsto> v)) (map_of m0) kvs" for m0 :: "string gomap"
    using assms
  proof (induction kvs arbitrary: m0)
    case (Cons kv kvs)
    obtain k v where kv: "kv = (k, v)" by force
    have "env_entry (k @ ''='' @ v) = Some (k, v)" using Cons.prems kv by (intro env_entry_setting) auto
    then show ?case using Cons.IH [of "map_put k v m0"] Cons.prems kv by simp
  qed simp
  from this [of "[]"] show ?thesis by (simp add: env_settings_def env_comment_line)
qed

lemma env_content_scans:
  assumes "list_all plain_value [optStateDir opt, e, i, r, optToken opt]"
  shows "lines_within maxScanTokenSize (envFileContent opt e i r)
    = (env_comment # map (\<lambda>(k, v). k @ ''='' @ v) (env_lines opt e i r), False)"
proof -
  have "\<forall>(k, v)\<in>set (env_lines opt e i r). k \<in> set env_keys \<and> plain_value v"
    using assms by (simp add: env_lines_def env_keys_def)
  then have "\<forall>l\<in>set (env_comment # map (\<lambda>(k, v). k @ ''='' @ v) (env_lines opt e i r)).
      newline \<notin> set l \<and> length l < maxScanTokenSize \<and> (l = [] \<or> last l \<noteq> CHR 0x0D)"
    using plain_line env_comment_line by fastforce
  then show ?thesis unfolding env_content_lines by (intro lines_of_unlines) (simp_all add: maxScanTokenSize_def)
qed

text \<open>No line of a prefix is too long when none of the whole is.\<close>

lemma lines_within_take: "\<not> snd (lines_within most s) \<Longrightarrow> \<not> snd (lines_within most (take k s))"
proof (induction most s arbitrary: k rule: lines_within.induct)
  case (1 most s)
  let ?l = "takeWhile (\<lambda>c. c \<noteq> newline) s" and ?l' = "takeWhile (\<lambda>c. c \<noteq> newline) (take k s)"
  have short: "length ?l < most" using "1.prems" by (subst (asm) lines_within.simps) (auto simp: Let_def split: if_splits)
  have t: "?l' = take k ?l"
    by (induction s arbitrary: k) (auto simp: take_Cons split: nat.splits)
  have ns: "\<not> snd (lines_within most (drop (Suc (length ?l)) s))" if "s \<noteq> []"
    using "1.prems" short that by (subst (asm) lines_within.simps) (auto simp: Let_def split: prod.splits)
  show ?case
  proof (cases "take k s = []")
    case True
    show ?thesis unfolding True using short by (subst lines_within.simps) (simp add: Let_def)
  next
    case False
    then have s: "s \<noteq> []" by auto
    have d: "drop (Suc (length ?l')) (take k s) = take (k - Suc (length ?l)) (drop (Suc (length ?l)) s)"
      by (cases "length ?l < k") (auto simp: t drop_take)
    have "\<not> snd (lines_within most (drop (Suc (length ?l')) (take k s)))"
      unfolding d using "1.IH" [OF refl _ s ns [OF s]] short by simp
    then show ?thesis
      using short False by (subst lines_within.simps) (auto simp: Let_def t split: prod.splits)
  qed
qed

text \<open>What can come of reading a file with known contents.\<close>

lemma open_read_contents:
  assumes "os_open_read p w = (r, w')" and "contents p w = Some b"
  shows "(\<exists>e. r = Inl e) \<or> r = Inr (b, None) \<or> (\<exists>k e. r = Inr (take k b, Some e))"
proof -
  obtain rb w1 where rd: "os_read_file p w = (rb, w1)" by force
  show ?thesis
  proof (cases rb)
    case (Inr c)
    then show ?thesis using assms rd read_contents [of p w c w1] by (auto simp: os_open_read_def)
  next
    case (Inl e)
    have dir: "e \<noteq> EISDIR" using rd assms(2) unfolding Inl
      by (auto simp: os_read_file_def contents_def sys_def Let_def split: option.splits node.splits if_splits fault.splits)
    obtain a where "lookup w p = Some (File a b)"
      using assms(2) by (auto simp: contents_def split: option.splits node.splits)
    then show ?thesis
      using assms(1) rd Inl dir by (auto simp: os_open_read_def split: fault.splits nat.splits if_splits)
  qed
qed

lemma parse_env_content:
  assumes "contents p w = Some (envFileContent opt e i r)" and "parseEnvFile p w = ((m, None), w')"
    and "list_all plain_value [optStateDir opt, e, i, r, optToken opt]"
  shows "map_of m = foldl (\<lambda>m (k, v). m(k \<mapsto> v)) Map.empty (env_lines opt e i r)"
proof -
  let ?ls = "env_comment # map (\<lambda>(k, v). k @ ''='' @ v) (env_lines opt e i r)"
  note l = env_content_scans [OF assms(3)]
  have kv: "\<forall>(k, v)\<in>set (env_lines opt e i r). k \<in> set env_keys \<and> no_outer_space v"
    using assms(3) by (simp add: env_lines_def env_keys_def plain_value_def)
  obtain rb w1 where rd: "os_open_read p w = (rb, w1)" by force
  then have "rb = Inr (envFileContent opt e i r, None)"
    using assms(1,2) open_read_contents [of p w rb w1] by (auto simp: parseEnvFile_def split: prod.splits if_splits)
  then have "m = env_settings ?ls" using assms(2) rd l by (simp add: parseEnvFile_def)
  then show ?thesis using env_settings_lines [OF kv] by simp
qed

text \<open>
  C20. The environment file configures the agent as the installer meant.  Whenever the file holds what
  \<open>install\<close> writes, for values without outer white space and line breaks, \<open>parseEnvFile\<close> can only fail
  to open it, with no settings, or to read it, with the settings of the lines before the failure; otherwise the
  configuration \<open>Load\<close> makes of its settings has the state directory, the token
  and the three endpoints of the command line, with the queue and the certificates below that
  state directory.
\<close>

theorem env_file_configures_the_agent:
  assumes "endpointsFromServer (optServer opt) = (enrollURL, ingestURL, renewURL, caURL)"
    and "contents (optEnvFile opt) w = Some (envFileContent opt enrollURL ingestURL renewURL)"
    and "parseEnvFile (optEnvFile opt) w = ((m, err), w')"
    and "list_all plain_value [optStateDir opt, enrollURL, ingestURL, renewURL, optToken opt]"
    and "optStateDir opt \<noteq> []" and "optToken opt \<noteq> []"
  shows "(case err of Some e \<Rightarrow> (\<exists>x. e = EnvOpen x \<and> m = [])
        \<or> (\<exists>x k. e = EnvRead x
             \<and> m = env_settings (fst (lines_within maxScanTokenSize (take k (envFileContent opt enrollURL ingestURL renewURL)))))
    | None \<Rightarrow> (let c = Load (setting m) in
        StateDir c = optStateDir opt \<and> QueueDir c = join_path [optStateDir opt, ''queue'']
        \<and> CertDir c = join_path [optStateDir opt, ''certs''] \<and> EnrollToken c = optToken opt
        \<and> EnrollEndpoint c = trim_right_char slash (optServer opt) @ ''/enroll''
        \<and> IngestEndpoint c = trim_right_char slash (optServer opt) @ ''/ingest''
        \<and> RenewEndpoint c = trim_right_char slash (optServer opt) @ ''/renew''))"
proof -
  let ?b = "trim_right_char slash (optServer opt)"
  have u: "enrollURL = ?b @ ''/enroll''" "ingestURL = ?b @ ''/ingest''" "renewURL = ?b @ ''/renew''"
    using assms(1) by (auto simp: endpointsFromServer_def Let_def)
  show ?thesis
  proof (cases err)
    case None
    have "map_of m = foldl (\<lambda>m (k, v). m(k \<mapsto> v)) Map.empty (env_lines opt enrollURL ingestURL renewURL)"
      by (rule parse_env_content [OF assms(2) assms(3) [unfolded None] assms(4)])
    then have "setting m ''HOST_AGENT_STATE_DIR'' = optStateDir opt" "setting m ''INGEST_ENDPOINT'' = ?b @ ''/ingest''"
      "setting m ''AGENT_ENROLL_ENDPOINT'' = ?b @ ''/enroll''" "setting m ''AGENT_RENEW_ENDPOINT'' = ?b @ ''/renew''"
      "setting m ''AGENT_ENROLL_TOKEN'' = optToken opt"
      unfolding setting_def using u by (simp_all add: env_lines_def)
    then show ?thesis using None assms(5,6) by (simp add: Load_def Let_def)
  next
    case (Some e)
    let ?b = "envFileContent opt enrollURL ingestURL renewURL"
    obtain rb w1 where rd: "os_open_read (optEnvFile opt) w = (rb, w1)" by force
    have short: "\<not> snd (lines_within maxScanTokenSize ?b)" unfolding env_content_scans [OF assms(4)] by simp
    from open_read_contents [OF rd assms(2)]
    consider (open_failed) x where "rb = Inl x" | (whole) "rb = Inr (?b, None)" | (partly) k x where "rb = Inr (take k ?b, Some x)"
      by blast
    then show ?thesis
    proof cases
      case open_failed
      then show ?thesis using assms(3) Some rd by (auto simp: parseEnvFile_def)
    next
      case whole
      then show ?thesis using assms(3) Some rd short by (simp add: parseEnvFile_def split: prod.splits)
    next
      case partly
      have "\<not> snd (lines_within maxScanTokenSize (take k ?b))" by (rule lines_within_take [OF short])
      then have "e = EnvRead x" "m = env_settings (fst (lines_within maxScanTokenSize (take k ?b)))"
        using assms(3) Some rd partly by (simp_all add: parseEnvFile_def split: prod.splits)
      then show ?thesis using Some by auto
    qed
  qed
qed

end
