(* ===== verification/Onboard_Files.thy ===== *)
theory Onboard_Files
  imports Onboard_Theorems Buffer_Frame
begin

text \<open>
  The files of an installation: the walk over the state directory, the replacement of the binary, and
  what is on disk when \<open>install\<close> reports success; what \<open>status\<close> and \<open>doctor\<close> read of the queue.
\<close>

subsection \<open>Changing attributes only\<close>

definition same_shape :: "world \<Rightarrow> world \<Rightarrow> bool" where
  "same_shape w w' \<longleftrightarrow> (\<forall>p. rel_option (\<lambda>m n. \<exists>f. n = set_attr f m) (lookup w p) (lookup w' p))"

lemma set_attr_id: "set_attr (\<lambda>a. a) nd = nd" and set_attr_comp: "set_attr g (set_attr f nd) = set_attr (\<lambda>a. g (f a)) nd"
  by (simp_all add: set_attr_def split: node.split)

lemma same_shape_refl [simp]: "w_files w' = w_files w \<Longrightarrow> same_shape w w'"
  by (auto simp: same_shape_def rel_option_iff split: option.split intro: exI [of _ "\<lambda>a. a"] set_attr_id [symmetric])

lemma same_shape_trans:
  assumes "same_shape w w1" and "same_shape w1 w'"
  shows "same_shape w w'"
  unfolding same_shape_def
proof
  fix p
  have a: "rel_option (\<lambda>m n. \<exists>f. n = set_attr f m) (lookup w p) (lookup w1 p)"
    "rel_option (\<lambda>m n. \<exists>f. n = set_attr f m) (lookup w1 p) (lookup w' p)" using assms by (simp_all add: same_shape_def)
  then show "rel_option (\<lambda>m n. \<exists>f. n = set_attr f m) (lookup w p) (lookup w' p)"
    by (cases "lookup w p"; cases "lookup w1 p"; cases "lookup w' p") (auto simp: set_attr_comp)
qed

lemma same_shape_update:
  "lookup w p = Some nd \<Longrightarrow> w_files w' = AList.update p (set_attr f nd) (w_files w) \<Longrightarrow> same_shape w w'"
  by (auto simp: same_shape_def map_of_update rel_option_iff split: option.split
      intro: exI [of _ "\<lambda>a. a"] set_attr_id [symmetric])

lemma same_shape_contents: "same_shape w w' \<Longrightarrow> contents p w' = contents p w"
  unfolding same_shape_def contents_def by (drule spec [of _ p])
    (auto simp: rel_option_iff set_attr_def split: option.splits node.splits)

lemma same_shape_keys: "same_shape w w' \<Longrightarrow> lookup w' p = None \<longleftrightarrow> lookup w p = None"
  unfolding same_shape_def by (drule spec [of _ p]) (auto simp: rel_option_iff split: option.splits)

lemma same_shape_dir: "same_shape w w' \<Longrightarrow> is_dir_in (w_files w') p = is_dir_in (w_files w) p"
proof -
  assume "same_shape w w'"
  then have "rel_option (\<lambda>m n. \<exists>f. n = set_attr f m) (lookup w p) (lookup w' p)" by (simp add: same_shape_def)
  then have "(\<exists>a. lookup w' p = Some (Dir a)) \<longleftrightarrow> (\<exists>a. lookup w p = Some (Dir a))"
    by (cases "lookup w p"; cases "the (lookup w p)") (auto simp: option_rel_Some1 set_attr_def)
  then show ?thesis by (simp add: is_dir_in_def)
qed

text \<open>Who owns a path.\<close>

definition owner_at :: "world \<Rightarrow> string \<Rightarrow> (int \<times> int) option" where
  "owner_at w p = (case lookup w p of None \<Rightarrow> None | Some (Dir a) \<Rightarrow> Some (a_owner a) | Some (File a _) \<Rightarrow> Some (a_owner a))"

lemma os_chown_cases:
  assumes "os_chown p ids w = (r, w')"
  shows "same_shape w w' \<and> (\<forall>q. owner_at w q = Some ids \<longrightarrow> owner_at w' q = Some ids) \<and> (r = Inr () \<longrightarrow> owner_at w' p = Some ids)"
proof (cases r)
  case (Inl e)
  then have "w_files w' = w_files w" using assms by (auto simp: os_chown_def dest!: sys_Inl_no_part)
  then show ?thesis using Inl by (simp add: owner_at_def)
next
  case (Inr u)
  then obtain nd where nd: "lookup w p = Some nd"
    and f: "w_files w' = AList.update p (set_attr (a_owner_update (\<lambda>_. ids)) nd) (w_files w)"
    using assms by (auto simp: os_chown_def split: if_splits dest!: sys_Inr)
  have "owner_at w' q = (if q = p then Some ids else owner_at w q)" for q
    using nd by (auto simp: owner_at_def f map_of_update set_attr_def split: node.splits)
  then show ?thesis using same_shape_update [OF nd f] by simp
qed

lemma os_chmod_shape:
  assumes "os_chmod p m w = (r, w')"
  shows "same_shape w w'" and "r = Inr () \<Longrightarrow> \<exists>nd. lookup w p = Some nd \<and> lookup w' p = Some (set_attr (a_perm_update (\<lambda>_. m)) nd)"
proof -
  have "same_shape w w' \<and> (r = Inr () \<longrightarrow> (\<exists>nd. lookup w p = Some nd \<and> lookup w' p = Some (set_attr (a_perm_update (\<lambda>_. m)) nd)))"
  proof (cases r)
    case (Inl e)
    then have "w_files w' = w_files w" using assms by (auto simp: os_chmod_def dest!: sys_Inl_no_part)
    then show ?thesis using Inl by simp
  next
    case (Inr u)
    then obtain nd where nd: "lookup w p = Some nd"
      and f: "w_files w' = AList.update p (set_attr (a_perm_update (\<lambda>_. m)) nd) (w_files w)"
      using assms by (auto simp: os_chmod_def split: if_splits dest!: sys_Inr)
    then show ?thesis using same_shape_update [OF nd f] by (simp add: map_of_update)
  qed
  then show "same_shape w w'" and "r = Inr () \<Longrightarrow> \<exists>nd. lookup w p = Some nd \<and> lookup w' p = Some (set_attr (a_perm_update (\<lambda>_. m)) nd)"
    by blast+
qed

subsection \<open>The walk ends\<close>

text \<open>The paths strictly below a directory: every level of the walk has fewer of them.\<close>

definition keys_below :: "world \<Rightarrow> string \<Rightarrow> string set" where
  "keys_below w p = {q. lookup w q \<noteq> None \<and> has_prefix q (dir_prefix p) \<and> q \<noteq> p}"

lemma finite_keys_below [simp]: "finite (keys_below w p)"
  by (rule finite_subset [of _ "dom (map_of (w_files w))"]) (auto simp: keys_below_def finite_dom_map_of)

lemma keys_below_le: "card (keys_below w p) \<le> length (w_files w)"
proof -
  have "card (keys_below w p) \<le> card (fst ` set (w_files w))"
    by (rule card_mono) (auto simp: keys_below_def map_of_eq_None_iff)
  also have "\<dots> \<le> length (w_files w)" by (metis card_length length_map list.set_map)
  finally show ?thesis .
qed

lemma keys_below_child:
  assumes "is_clean p" and "valid_name n" and "lookup w (join_path [p, n]) \<noteq> None"
  shows "card (keys_below w (join_path [p, n])) < card (keys_below w p)"
proof (rule psubset_card_mono)
  let ?c = "join_path [p, n]"
  have c: "?c = dir_prefix p @ n" by (rule join_path_name [OF assms(1,2)])
  have n: "n \<noteq> []" "n \<noteq> ''.''" using assms(2) by (auto simp: valid_name_def plain_elem_def)
  note join_not_root [OF assms(1,2)]
  then have d: "dir_prefix ?c = ?c @ [slash]" by (simp add: dir_prefix_def)
  have len: "length p \<le> length (dir_prefix p) \<or> p = ''.''" by (simp add: dir_prefix_def)
  have cp: "?c \<noteq> p" unfolding c using n by (auto simp: dir_prefix_def split: if_splits dest: arg_cong [of _ _ length])
  then have "?c \<in> keys_below w p" using assms(3) c by (simp add: keys_below_def has_prefix_iff)
  moreover have "?c \<notin> keys_below w ?c" by (simp add: keys_below_def)
  moreover have "keys_below w ?c \<subseteq> keys_below w p"
  proof
    fix q assume "q \<in> keys_below w ?c"
    then obtain t where t: "lookup w q \<noteq> None" "q = ?c @ [slash] @ t" by (auto simp: keys_below_def d has_prefix_iff)
    have "length p < length q \<or> p = ''.'' \<and> 1 < length q" using len n t(2) unfolding c by (cases n) auto
    then have "q \<noteq> p" by auto
    then show "q \<in> keys_below w p" using t c by (auto simp: keys_below_def has_prefix_iff)
  qed
  ultimately show "keys_below w ?c \<subset> keys_below w p" by blast
qed simp

text \<open>A function applied to each path that leaves the shape of the table alone.\<close>

definition harmless :: "(string \<Rightarrow> world \<Rightarrow> (errno + unit) \<times> world) \<Rightarrow> bool" where
  "harmless f \<longleftrightarrow> (\<forall>p w r w'. f p w = (r, w') \<longrightarrow> same_shape w w')"

lemma same_shape_below: "same_shape w w' \<Longrightarrow> keys_below w' p = keys_below w p"
  using same_shape_keys by (auto simp: keys_below_def)

definition listed_in :: "string \<Rightarrow> (string \<times> bool) list \<Rightarrow> world \<Rightarrow> bool" where
  "listed_in p es w \<longleftrightarrow> (\<forall>(n, isdir)\<in>set es. valid_name n \<and> lookup w (join_path [p, n]) \<noteq> None
     \<and> isdir = is_dir_in (w_files w) (join_path [p, n]))"

lemma listed_shape: "listed_in p es w \<Longrightarrow> same_shape w w' \<Longrightarrow> listed_in p es w'"
  using same_shape_keys same_shape_dir by (fastforce simp: listed_in_def)

lemma read_dir_listed: "is_clean p \<Longrightarrow> os_read_dir p w = (Inr es, w') \<Longrightarrow> listed_in p es w \<and> w_files w' = w_files w"
  using os_read_dir_mem [of p w es w'] by (auto simp: listed_in_def frame_simps)

lemma walk_ends:
  shows "harmless f \<Longrightarrow> is_clean p \<Longrightarrow> card (keys_below w p) < fuel
      \<Longrightarrow> \<exists>r w'. walk_dir fuel f p isdir w = Some (r, w') \<and> same_shape w w'"
    and "harmless f \<Longrightarrow> is_clean p \<Longrightarrow> listed_in p es w \<Longrightarrow> card (keys_below w p) \<le> k
      \<Longrightarrow> \<exists>r w'. walk_entries k f p es w = Some (r, w') \<and> same_shape w w'"
proof (induction fuel f p isdir w and k f p es w rule: walk_dir_walk_entries.induct)
  case (1 fuel f p isdir w)
  obtain r w1 where f: "f p w = (r, w1)" by force
  have s1: "same_shape w w1" using f 1(2) by (auto simp: harmless_def)
  show ?case
  proof (cases "r = Inr () \<and> isdir")
    case False
    then show ?thesis using f s1 by (cases r) auto
  next
    case True
    obtain k where k: "fuel = Suc k" using 1(4) by (cases fuel) auto
    obtain rd w2 where rd: "os_read_dir p w1 = (rd, w2)" by force
    have s2: "same_shape w w2" using rd same_shape_trans [OF s1] by (simp add: frame_simps)
    show ?thesis
    proof (cases rd)
      case (Inl e)
      then show ?thesis using f True k rd s2 by simp
    next
      case (Inr es)
      have rl: "listed_in p es w1 \<and> w_files w2 = w_files w1" by (rule read_dir_listed [OF 1(3) rd [unfolded Inr]])
      have l: "listed_in p es w2" by (rule listed_shape [OF conjunct1 [OF rl]]) (use rl in simp)
      have "card (keys_below w2 p) \<le> k" using 1(4) k same_shape_below [OF s2] by simp
      then obtain r' w' where w': "walk_entries k f p es w2 = Some (r', w')" "same_shape w2 w'"
        using 1(1) [of r w1 "()" k rd w2 es] f True k rd Inr 1(2,3) l by auto
      then have "walk_dir fuel f p isdir w = Some (r', w')" using f True k rd Inr by simp
      then show ?thesis using same_shape_trans [OF s2 w'(2)] by blast
    qed
  qed
next
  case (2 k f p w)
  then show ?case by simp
next
  case (3 k f p n isdir es w)
  let ?c = "join_path [p, n]"
  have n: "valid_name n" "lookup w ?c \<noteq> None" using 3(5) by (auto simp: listed_in_def)
  have "card (keys_below w ?c) < k" using keys_below_child [OF 3(4) n] 3(6) by simp
  then obtain r w1 where c: "walk_dir k f ?c isdir w = Some (r, w1)" "same_shape w w1"
    using 3(1) [OF 3(3) is_clean_join [OF 3(4) n(1)]] by blast
  show ?case
  proof (cases r)
    case (Inl e)
    then show ?thesis using c by simp
  next
    case (Inr u)
    have "listed_in p es w" using 3(5) by (simp add: listed_in_def)
    then have "listed_in p es w1" by (rule listed_shape [OF _ c(2)])
    moreover have "card (keys_below w1 p) \<le> k" using 3(6) same_shape_below [OF c(2)] by simp
    ultimately obtain r' w' where w': "walk_entries k f p es w1 = Some (r', w')" "same_shape w1 w'"
      using 3(2) [OF c(1) refl Inr 3(3,4)] by blast
    then show ?thesis using c Inr same_shape_trans [OF c(2) w'(2)] by simp
  qed
qed

subsection \<open>The walk reaches everything\<close>

text \<open>What lies in the tree with a root: the root, and what the listings of its directories lead to.\<close>

inductive in_tree :: "world \<Rightarrow> string \<Rightarrow> string \<Rightarrow> bool" for w where
  root: "in_tree w p p"
| entry: "lookup w p = Some (Dir a) \<Longrightarrow> valid_name n \<Longrightarrow> lookup w (join_path [p, n]) \<noteq> None
    \<Longrightarrow> in_tree w (join_path [p, n]) q \<Longrightarrow> in_tree w p q"

inductive_cases in_treeE: "in_tree w p q"

lemma in_tree_cases:
  assumes "in_tree w p q"
  obtains (here) "q = p"
    | (deeper) a n where "lookup w p = Some (Dir a)" "valid_name n" "lookup w (join_path [p, n]) \<noteq> None" "in_tree w (join_path [p, n]) q"
  using assms by (auto elim: in_treeE)

lemma same_shape_dir_node: "same_shape w w' \<Longrightarrow> (\<exists>a. lookup w' p = Some (Dir a)) \<longleftrightarrow> (\<exists>a. lookup w p = Some (Dir a))"
proof -
  assume "same_shape w w'"
  then have "rel_option (\<lambda>m n. \<exists>f. n = set_attr f m) (lookup w p) (lookup w' p)" by (simp add: same_shape_def)
  then show ?thesis
    by (cases "lookup w p"; cases "the (lookup w p)") (auto simp: option_rel_Some1 set_attr_def)
qed

lemma in_tree_shape: "in_tree w p q \<Longrightarrow> same_shape w w' \<Longrightarrow> in_tree w' p q"
proof (induction rule: in_tree.induct)
  case (entry p a n q)
  then obtain a' where "lookup w' p = Some (Dir a')" using same_shape_dir_node by blast
  moreover have "lookup w' (join_path [p, n]) \<noteq> None" using entry(3) same_shape_keys [OF entry(6)] by simp
  ultimately show ?case using entry in_tree.entry by blast
qed (rule in_tree.root)

lemma read_dir_names:
  assumes "is_clean p" and "os_read_dir p w = (Inr es, w')"
  shows "fst ` set es = {n. valid_name n \<and> lookup w (join_path [p, n]) \<noteq> None}"
proof -
  have "clean p = p" using assms(1) by (simp add: is_clean_def)
  then have "fst ` set es = set (names_in (w_files w) p)" using os_read_dir_ok [OF assms(2)] by (simp add: image_image)
  then show ?thesis using mem_names_in [OF assms(1)] by auto
qed

text \<open>The walk that changes the owner of every path it visits.\<close>

abbreviation owned_kept :: "int \<times> int \<Rightarrow> world \<Rightarrow> world \<Rightarrow> bool" where
  "owned_kept ids w w' \<equiv> same_shape w w' \<and> (\<forall>q. owner_at w q = Some ids \<longrightarrow> owner_at w' q = Some ids)"

lemma owned_kept_trans: "owned_kept ids w w1 \<Longrightarrow> owned_kept ids w1 w' \<Longrightarrow> owned_kept ids w w'"
  using same_shape_trans by blast

lemma owned_kept_same: "w_files w' = w_files w \<Longrightarrow> owned_kept ids w w'"
  by (simp add: owner_at_def)

lemma walk_owns:
  shows "walk_dir fuel f p isdir w = Some (r, w') \<Longrightarrow> f = (\<lambda>p. os_chown p ids) \<Longrightarrow> is_clean p
      \<Longrightarrow> isdir = (\<exists>a. lookup w p = Some (Dir a))
      \<Longrightarrow> owned_kept ids w w' \<and> (r = Inr () \<longrightarrow> (\<forall>q. in_tree w p q \<longrightarrow> owner_at w' q = Some ids))"
    and "walk_entries k f p es w = Some (r, w') \<Longrightarrow> f = (\<lambda>p. os_chown p ids) \<Longrightarrow> is_clean p \<Longrightarrow> listed_in p es w
      \<Longrightarrow> owned_kept ids w w' \<and> (r = Inr () \<longrightarrow>
        (\<forall>n q. n \<in> fst ` set es \<longrightarrow> in_tree w (join_path [p, n]) q \<longrightarrow> owner_at w' q = Some ids))"
proof (induction fuel f p isdir w and k f p es w arbitrary: r w' and r w' rule: walk_dir_walk_entries.induct)
  case (1 fuel f p isdir w)
  obtain r0 w1 where f: "f p w = (r0, w1)" by force
  have o1: "owned_kept ids w w1" and p1: "r0 = Inr () \<longrightarrow> owner_at w1 p = Some ids"
    using os_chown_cases [of p ids w r0 w1] f 1(3) by auto
  show ?case
  proof (cases "r0 = Inr () \<and> isdir")
    case False
    have "q = p" if "\<not> isdir" "in_tree w p q" for q using that 1(5) by (auto elim: in_treeE)
    then show ?thesis using False 1(2) f o1 p1 by (cases r0) (auto simp del: split_paired_All)
  next
    case True
    obtain k where k: "fuel = Suc k" using 1(2) f True by (cases fuel) auto
    obtain rd w2 where rd: "os_read_dir p w1 = (rd, w2)" by force
    have f2: "w_files w2 = w_files w1" using rd by (simp add: frame_simps)
    have o2: "owned_kept ids w w2" using owned_kept_trans [OF o1 owned_kept_same [OF f2]] .
    show ?thesis
    proof (cases rd)
      case (Inl e)
      then show ?thesis using 1(2) f True k rd o2 by auto
    next
      case (Inr es)
      have rl: "listed_in p es w1" using read_dir_listed [OF 1(4) rd [unfolded Inr]] by simp
      have l: "listed_in p es w2" by (rule listed_shape [OF rl]) (use f2 in simp)
      have w': "walk_entries k f p es w2 = Some (r, w')" using 1(2) f True k rd Inr by simp
      have i: "owned_kept ids w2 w' \<and> (r = Inr () \<longrightarrow>
        (\<forall>n q. n \<in> fst ` set es \<longrightarrow> in_tree w2 (join_path [p, n]) q \<longrightarrow> owner_at w' q = Some ids))"
        using 1(1) [of r0 w1 "()" k rd w2 es r w'] f True k rd Inr 1(3,4) l w' by auto
      have own: "owner_at w' q = Some ids" if r: "r = Inr ()" and q: "in_tree w p q" for q
        using q
      proof (cases rule: in_tree_cases)
        case here
        have "owner_at w2 p = Some ids" using p1 True f2 by (simp add: owner_at_def)
        then have "owner_at w' p = Some ids" using conjunct2 [OF conjunct1 [OF i]] by blast
        then show ?thesis using here by simp
      next
        case (deeper a n)
        have "lookup w2 (join_path [p, n]) \<noteq> None" using deeper(3) same_shape_keys [OF conjunct1 [OF o2]] by simp
        then have "lookup w1 (join_path [p, n]) \<noteq> None" using f2 by simp
        then have "n \<in> fst ` set es" using read_dir_names [OF 1(4) rd [unfolded Inr]] deeper(2) by simp
        moreover have "in_tree w2 (join_path [p, n]) q" using deeper(4) in_tree_shape o2 by blast
        ultimately show ?thesis using i r by blast
      qed
      have kept: "owned_kept ids w w'" by (rule owned_kept_trans [OF o2 conjunct1 [OF i]])
      show ?thesis by (rule conjI [OF kept], intro impI allI, rule own)
    qed
  qed
next
  case (2 k f p w)
  then have "w' = w" by simp
  then show ?case by simp
next
  case (3 k f p n isdir es w)
  let ?c = "join_path [p, n]"
  have n: "valid_name n" "isdir = is_dir_in (w_files w) ?c" using 3(6) by (auto simp: listed_in_def)
  have d: "isdir = (\<exists>a. lookup w ?c = Some (Dir a))" using n is_dir_join [OF 3(5) n(1)] by simp
  obtain r1 w1 where c: "walk_dir k f ?c isdir w = Some (r1, w1)" using 3(3) by (auto split: option.splits)
  note i1 = 3(1) [OF c 3(4) is_clean_join [OF 3(5) n(1)] d]
  show ?case
  proof (cases r1)
    case (Inl e)
    then show ?thesis using 3(3) c i1 by auto
  next
    case (Inr u)
    have "listed_in p es w" using 3(6) by (simp add: listed_in_def)
    then have l: "listed_in p es w1" using listed_shape i1 by blast
    have e: "walk_entries k f p es w1 = Some (r, w')" using 3(3) c Inr by simp
    note i2 = 3(2) [OF c refl Inr e 3(4,5) l]
    have own: "owner_at w' q = Some ids" if r: "r = Inr ()" and m: "m \<in> fst ` set ((n, isdir) # es)"
      and q: "in_tree w (join_path [p, m]) q" for m q
    proof (cases "m = n")
      case True
      then have "owner_at w1 q = Some ids" using i1 q Inr by simp
      then show ?thesis using i2 by blast
    next
      case False
      then have "m \<in> fst ` set es" using m by simp
      moreover have "in_tree w1 (join_path [p, m]) q" using q in_tree_shape i1 by blast
      ultimately show ?thesis using i2 r by blast
    qed
    have kept: "owned_kept ids w w'" by (rule owned_kept_trans [OF conjunct1 [OF i1] conjunct1 [OF i2]])
    show ?thesis by (rule conjI [OF kept], intro impI allI, rule own)
  qed
qed

lemma chown_tree_ends: "length (w_files w) < fuel \<Longrightarrow> \<exists>r w'. chownTree fuel root ids w = Some (r, w')"
proof -
  assume fuel: "length (w_files w) < fuel"
  obtain rs w1 where st: "(if root = [] then (Inl ENOENT, w) else os_stat (clean root) w) = (rs, w1)" by force
  have f1: "w_files w1 = w_files w" using st by (auto simp: frame_simps split: if_splits)
  have h: "harmless (\<lambda>p. os_chown p ids)" using os_chown_cases by (auto simp: harmless_def)
  have "card (keys_below w1 (clean root)) < fuel" using keys_below_le [of w1 "clean root"] fuel f1 by simp
  then show ?thesis using walk_ends(1) [OF h is_clean_clean] st by (cases rs) (force simp: chownTree_def)+
qed

text \<open>
  C37. The walk over the state directory ends and reaches everything.  With more fuel than the file
  table has entries, \<open>chownTree\<close> returns under every fault schedule; no file has other contents
  afterwards and none has come or gone; and when it succeeds the root, and all that the
  directories in it list, belongs to the user.
\<close>

theorem chown_tree_returns:
  assumes "length (w_files w) < fuel"
  shows "\<exists>r w'. chownTree fuel root ids w = Some (r, w')
    \<and> (\<forall>p. contents p w' = contents p w \<and> (lookup w' p = None \<longleftrightarrow> lookup w p = None))
    \<and> (r = Inr () \<longrightarrow> (\<forall>q. in_tree w (clean root) q \<longrightarrow> owner_at w' q = Some ids))"
proof -
  obtain r w' where c: "chownTree fuel root ids w = Some (r, w')" using chown_tree_ends [OF assms] by blast
  obtain rs w1 where st: "(if root = [] then (Inl ENOENT, w) else os_stat (clean root) w) = (rs, w1)" by force
  have f1: "w_files w1 = w_files w" using st by (auto simp: frame_simps split: if_splits)
  show ?thesis
  proof (cases rs)
    case (Inl e)
    then have "r = Inl e" "w' = w1" using st c by (simp_all add: chownTree_def)
    then show ?thesis using c f1 by (auto simp: contents_def)
  next
    case (Inr nd)
    let ?isdir = "case nd of Dir _ \<Rightarrow> True | File _ _ \<Rightarrow> False"
    have nd: "lookup w (clean root) = Some nd" using st Inr os_stat_ok by (auto split: if_splits)
    then have d: "?isdir = (\<exists>a. lookup w1 (clean root) = Some (Dir a))" by (cases nd) (simp_all add: f1)
    have wk: "walk_dir fuel (\<lambda>p. os_chown p ids) (clean root) ?isdir w1 = Some (r, w')"
      using c st Inr by (simp add: chownTree_def)
    have ow: "owned_kept ids w1 w' \<and> (r = Inr () \<longrightarrow> (\<forall>q. in_tree w1 (clean root) q \<longrightarrow> owner_at w' q = Some ids))"
      by (rule walk_owns(1) [OF wk refl is_clean_clean d])
    have s: "same_shape w w'" using ow f1 same_shape_trans [of w w1 w'] by simp
    have "in_tree w1 (clean root) q" if "in_tree w (clean root) q" for q using in_tree_shape [OF that] f1 by simp
    then show ?thesis using c ow same_shape_contents [OF s] same_shape_keys [OF s] by blast
  qed
qed

end
