(* ===== verification/Onboard_Install.thy ===== *)
theory Onboard_Install
  imports Onboard_Files Buffer_Theorems
begin

text \<open>
  What \<open>install\<close> leaves behind: the binary is replaced as a whole, and a reported success means that
  every file of the installation was in place before the service was started.  \<open>queueDepth\<close>, which \<open>status\<close> and
  \<open>doctor\<close> print, is compared with the queue of the running agent.
\<close>

subsection \<open>The binary\<close>

lemma chmod_contents: "os_chmod p m w = (r, w') \<Longrightarrow> contents q w' = contents q w"
  using os_chmod_shape(1) same_shape_contents by blast

lemma rename_other_contents:
  assumes "os_rename q p w = (r, w')" and "x \<noteq> p" and "x \<noteq> q"
  shows "contents x w' = contents x w"
proof (cases r)
  case (Inl e)
  then show ?thesis using assms(1) rename_failed_contents by blast
next
  case (Inr u)
  then show ?thesis using os_rename_ok [of q p w u w'] assms by (auto simp: contents_def map_of_update map_of_delete)
qed

text \<open>
  C19. The installed binary is replaced as a whole.  Whatever fails, and wherever the process dies,
  \<open>copyExecutable\<close> leaves the complete old program at the destination or the complete new one, the
  new one exactly when it reports success; no third file is touched.
\<close>

theorem binary_is_replaced_atomically:
  assumes "copyExecutable src dst w = (r, w')"
  shows "contents dst w' = (if r = Inr () then contents src w else contents dst w)
    \<and> (r = Inr () \<longrightarrow> contents src w \<noteq> None)
    \<and> (\<forall>p. p \<noteq> dst \<and> p \<noteq> dst @ ''.tmp'' \<longrightarrow> contents p w' = contents p w)"
proof -
  let ?tmp = "dst @ ''.tmp''" and ?m = "7 * 8 * 8 + 5 * 8 + 5"
  obtain rd w1 where rd: "os_read_file src w = (rd, w1)" by force
  have c1: "contents p w1 = contents p w" for p using rd by (intro contents_same) (simp add: frame_simps)
  show ?thesis
  proof (cases rd)
    case (Inl e)
    then show ?thesis using assms rd c1 by (auto simp: copyExecutable_def)
  next
    case (Inr data)
    have src: "contents src w = Some data" using rd Inr read_contents by blast
    obtain rw w2 where wt: "os_write_file ?tmp data ?m w1 = (rw, w2)" by force
    have c2: "contents p w2 = contents p w" if "p \<noteq> ?tmp" for p using write_other_file [OF wt that] c1 by simp
    show ?thesis
    proof (cases rw)
      case (Inl e)
      then show ?thesis using assms rd Inr wt c2 by (auto simp: copyExecutable_def \<open>rd = Inr data\<close>)
    next
      case (Inr u)
      then have t2: "contents ?tmp w2 = Some data"
        using os_write_file_ok [of ?tmp data ?m w1 u w2] wt by (auto simp: contents_def map_of_update)
      obtain rc w3 where ch: "os_chmod ?tmp ?m w2 = (rc, w3)" by force
      note c3 = chmod_contents [OF ch]
      obtain rn w4 where mv: "os_rename ?tmp dst w3 = (rn, w4)" by force
      show ?thesis
      proof (cases "rc = Inr () \<and> rn = Inr ()")
        case True
        then obtain a b where "lookup w3 ?tmp = Some (File a b)" "w_files w4 = AList.update dst (File a b) (AList.delete ?tmp (w_files w3))"
          using os_rename_ok [of ?tmp dst w3 "()" w4] mv by auto
        moreover from this have "b = data" using t2 c3 [of ?tmp] by (simp add: contents_def)
        ultimately have "contents dst w4 = Some data" by (simp add: contents_def map_of_update)
        then show ?thesis using assms rd wt ch mv True src c2 c3 rename_other_contents [OF mv]
          by (auto simp: copyExecutable_def \<open>rd = Inr data\<close> Inr)
      next
        case False
        have "contents dst w4 = contents dst w3" if "rn \<noteq> Inr ()"
          using mv that rename_failed_contents [of ?tmp dst w3 _ w4 dst] by (cases rn) auto
        then show ?thesis using assms rd wt ch mv False c2 c3 rename_other_contents [OF mv]
          by (cases rc; cases rn) (auto simp: copyExecutable_def \<open>rd = Inr data\<close> Inr)
      qed
    qed
  qed
qed

subsection \<open>Regular files with their permissions\<close>

definition regular :: "world \<Rightarrow> string \<Rightarrow> (perm \<times> bytes) option" where
  "regular w p = (case lookup w p of Some (File a b) \<Rightarrow> Some (a_perm a, b) | _ \<Rightarrow> None)"

lemma regular_same: "w_files w' = w_files w \<Longrightarrow> regular w' = regular w"
  by (simp add: regular_def fun_eq_iff)

lemma regular_contents: "regular w p = Some (m, b) \<Longrightarrow> contents p w = Some b"
  by (auto simp: regular_def contents_def split: option.splits node.splits)

lemma chmod_lookup: "os_chmod p m w = (r, w') \<Longrightarrow> q \<noteq> p \<Longrightarrow> lookup w' q = lookup w q"
  by (cases r) (auto simp: os_chmod_def map_of_update dest!: sys_Inl_no_part sys_Inr)

lemma mkdir_regular: "os_mkdir_all p m w = (Inr u, w') \<Longrightarrow> regular w q = Some v \<Longrightarrow> regular w' q = Some v"
proof -
  assume mk: "os_mkdir_all p m w = (Inr u, w')" and "regular w q = Some v"
  then obtain a b where "lookup w q = Some (File a b)" "v = (a_perm a, b)"
    by (auto simp: regular_def split: option.splits node.splits)
  moreover from this(1) have "lookup w' q = Some (File a b)" using mkdir_all_ok(1) [OF mk] by (simp add: same_regular_def)
  ultimately show ?thesis by (simp add: regular_def)
qed

lemma chown_regular: "os_chown p ids w = (r, w') \<Longrightarrow> regular w' = regular w"
  by (cases r) (auto simp: os_chown_def fun_eq_iff regular_def map_of_update set_attr_def
      split: option.splits node.splits if_splits dest!: sys_Inl_no_part sys_Inr)

text \<open>What every visit of a walk keeps, the walk keeps.\<close>

lemma walk_keeps:
  assumes "\<And>w w'. w_files w' = w_files w \<Longrightarrow> g w' = g w"
  shows "walk_dir fuel f p isdir w = Some (r, w') \<Longrightarrow> (\<And>p w r w'. f p w = (r, w') \<Longrightarrow> g w' = g w) \<Longrightarrow> g w' = g w"
    and "walk_entries k f p es w = Some (r, w') \<Longrightarrow> (\<And>p w r w'. f p w = (r, w') \<Longrightarrow> g w' = g w) \<Longrightarrow> g w' = g w"
proof (induction fuel f p isdir w and k f p es w arbitrary: r w' and r w' rule: walk_dir_walk_entries.induct)
  case (1 fuel f p isdir w)
  have "g w2 = g w1" if "os_read_dir p w1 = (rd, w2)" for rd w1 w2
    using that by (intro assms) (simp add: frame_simps)
  note rd = this
  obtain r0 w1 where f: "f p w = (r0, w1)" by force
  note g1 = 1(3) [OF f]
  show ?case
  proof (cases "r0 = Inr () \<and> isdir")
    case False
    then show ?thesis using 1(2) f g1 by (cases r0) auto
  next
    case True
    then obtain k where k: "fuel = Suc k" using 1(2) f by (cases fuel) auto
    obtain r2 w2 where r2: "os_read_dir p w1 = (r2, w2)" by force
    show ?thesis
    proof (cases r2)
      case (Inl e)
      then show ?thesis using 1(2) f True k r2 g1 rd [OF r2] by simp
    next
      case (Inr es)
      then have "walk_entries k f p es w2 = Some (r, w')" using 1(2) f True k r2 by simp
      then have "g w' = g w2" using 1(1) [of r0 w1 "()" k r2 w2 es r w'] f True k r2 Inr 1(3) by auto
      then show ?thesis using g1 rd [OF r2] by simp
    qed
  qed
next
  case (2 k f p w)
  then show ?case by simp
next
  case (3 k f p n isdir es w)
  then show ?case by (auto split: option.splits sum.splits)
qed

lemma chownTree_regular: "chownTree fuel root ids w = Some (r, w') \<Longrightarrow> regular w' = regular w"
proof -
  assume c: "chownTree fuel root ids w = Some (r, w')"
  obtain rs w1 where st: "(if root = [] then (Inl ENOENT, w) else os_stat (clean root) w) = (rs, w1)" by force
  have f1: "regular w1 = regular w" using st by (intro regular_same) (auto simp: frame_simps split: if_splits)
  show ?thesis
  proof (cases rs)
    case (Inl e)
    then show ?thesis using c st f1 by (simp add: chownTree_def)
  next
    case (Inr nd)
    then have "walk_dir fuel (\<lambda>p. os_chown p ids) (clean root) (case nd of Dir _ \<Rightarrow> True | File _ _ \<Rightarrow> False) w1 = Some (r, w')"
      using c st by (simp add: chownTree_def)
    from walk_keeps(1) [where g = regular, OF regular_same this chown_regular]
    have "regular w' = regular w1" .
    then show ?thesis using f1 by simp
  qed
qed

lemma write_lookup: "os_write_file p b m w = (Inr u, w') \<Longrightarrow>
    contents p w' = Some b \<and> (\<forall>q. q \<noteq> p \<longrightarrow> regular w' q = regular w q)"
  using os_write_file_ok [of p b m w u w'] by (auto simp: contents_def regular_def map_of_update)

lemma chmod_regular:
  assumes "os_chmod p m w = (Inr u, w')" and "contents p w = Some b"
  shows "regular w' p = Some (m, b)" and "q \<noteq> p \<Longrightarrow> regular w' q = regular w q"
proof -
  obtain nd where "lookup w p = Some nd" "lookup w' p = Some (set_attr (a_perm_update (\<lambda>_. m)) nd)"
    using os_chmod_shape(2) [OF assms(1)] by auto
  then show "regular w' p = Some (m, b)"
    using assms(2) by (cases nd) (simp_all add: regular_def contents_def set_attr_def)
  show "regular w' q = regular w q" if "q \<noteq> p" using chmod_lookup [OF assms(1) that] by (simp add: regular_def)
qed

lemma writeRootFile_regular:
  assumes "writeRootFile p b m w = (Inr u, w')"
  shows "regular w' p = Some (m, b)" and "q \<noteq> p \<Longrightarrow> regular w q = Some v \<Longrightarrow> regular w' q = Some v"
proof -
  obtain u1 u2 w1 w2 where s: "os_mkdir_all (dir_name p) (7 * 8 * 8 + 5 * 8 + 5) w = (Inr u1, w1)"
    "os_write_file p b m w1 = (Inr u2, w2)" "os_chmod p m w2 = (Inr u, w')"
    using assms by (auto simp: writeRootFile_def split: prod.splits sum.splits)
  note wr = write_lookup [OF s(2)] and ch = chmod_regular [OF s(3)]
  show "regular w' p = Some (m, b)" using ch(1) wr by blast
  show "regular w' q = Some v" if "q \<noteq> p" "regular w q = Some v"
    using mkdir_regular [OF s(1) that(2)] wr ch(2) that(1) by simp
qed

subsection \<open>A successful installation\<close>

lemma copyExecutable_regular:
  assumes "copyExecutable src dst w = (Inr u, w')"
  shows "\<exists>b. contents src w = Some b \<and> regular w' dst = Some (7 * 8 * 8 + 5 * 8 + 5, b)"
proof -
  let ?tmp = "dst @ ''.tmp''" and ?m = "7 * 8 * 8 + 5 * 8 + 5"
  obtain b u2 u3 w1 w2 w3 where s: "os_read_file src w = (Inr b, w1)" "os_write_file ?tmp b ?m w1 = (Inr u2, w2)"
    "os_chmod ?tmp ?m w2 = (Inr u3, w3)" "os_rename ?tmp dst w3 = (Inr u, w')"
    using assms by (auto simp: copyExecutable_def Let_def split: prod.splits sum.splits)
  have "regular w3 ?tmp = Some (?m, b)" using chmod_regular(1) [OF s(3)] write_lookup [OF s(2)] by blast
  then have "regular w' dst = Some (?m, b)" using os_rename_ok [OF s(4)] by (auto simp: regular_def map_of_update)
  then show ?thesis using read_contents [OF s(1)] by blast
qed

lemma ca_path_elsewhere:
  "join_path [join_path [sd, ''certs''], ''ca.crt''] \<notin>
     {join_path [defaultBinDir, defaultBinName], join_path [defaultEnvDir, ''agent.env''], join_path [defaultUnitDir, defaultBinName @ ''.service'']}"
proof -
  have v: "valid_name ''certs''" "valid_name ''ca.crt''" by code_simp+
  have "is_clean (join_path [sd, ''certs''])"
    using join_path_clean [OF v(1), of sd] is_clean_join [OF is_clean_clean v(1), of sd] by simp
  then have "base_name (join_path [join_path [sd, ''certs''], ''ca.crt'']) = ''ca.crt''" by (rule base_name_join [OF _ v(2)])
  moreover have "base_name (join_path [defaultBinDir, defaultBinName]) \<noteq> ''ca.crt''"
    "base_name (join_path [defaultEnvDir, ''agent.env'']) \<noteq> ''ca.crt''"
    "base_name (join_path [defaultUnitDir, defaultBinName @ ''.service'']) \<noteq> ''ca.crt''" by code_simp+
  ultimately show ?thesis by auto
qed

lemma install_paths_differ:
  "distinct [join_path [defaultBinDir, defaultBinName], join_path [defaultEnvDir, ''agent.env''],
     join_path [defaultUnitDir, defaultBinName @ ''.service'']]"
  by code_simp

lemma obtainCA_files: "obtainCA cr h src url m = (r, i, m') \<Longrightarrow> w_files (fst m') = w_files (fst m)"
  by (auto simp: obtainCA_def frame_simps split: if_splits prod.splits sum.splits)

lemma on_files_Pair: "on_files f m = (r, m') \<longleftrightarrow> f (fst m) = (r, fst m') \<and> snd m' = snd m"
  by (cases m') (auto simp: on_files_def split: prod.splits)

lemma fileExists_there: "fileExists p w = (True, w') \<Longrightarrow> lookup w p \<noteq> None"
  by (cases "fst (os_stat p w)") (auto simp: fileExists_def split: prod.splits dest: os_stat_ok)

lemma await_enrolled:
  "await_service h svc p n m = (Inr (), m') \<Longrightarrow> lookup (fst m') p \<noteq> None"
proof (induction h svc p n m rule: await_service.induct)
  case (2 h svc p n m)
  obtain a m1 where a: "isActive h svc m = (a, m1)" by (rule prod.exhaust)
  obtain t m2 where t: "(if a then on_files (fileExists p) m1 else (False, m1)) = (t, m2)" by (rule prod.exhaust)
  show ?case
  proof (cases t)
    case True
    then have "fileExists p (fst m1) = (True, fst m2)" using t by (auto simp: on_files_Pair split: if_splits)
    then have "lookup (fst m2) p \<noteq> None" using fileExists_there by (simp add: fileExists_frame)
    then show ?thesis using 2(2) a t True by simp
  next
    case False
    then show ?thesis using 2 a t by simp
  qed
qed simp

lemma install_program_ok:
  assumes "install_program h opt self m = (Inr ids, m')"
  shows "\<exists>ma added m0. ensureUser h (optUser opt) m = (True, ma) \<and> ensureUserInGroup h (optUser opt) journalGroup ma = (added, m0)
    \<and> lookupIDs h (optUser opt) (snd m0) = Some ids
    \<and> (\<exists>b. contents self (fst m0) = Some b \<and> regular (fst m') (optBinPath opt) = Some (7 * 8 * 8 + 5 * 8 + 5, b))"
proof -
  obtain ma where u: "ensureUser h (optUser opt) m = (True, ma)"
    using assms by (auto simp: install_program_def split: prod.splits if_splits)
  obtain added m0 where g: "ensureUserInGroup h (optUser opt) journalGroup ma = (added, m0)" by (rule prod.exhaust)
  obtain u3 m3 u4 where l: "lookupIDs h (optUser opt) (snd m0) = Some ids"
    and c: "on_files (copyExecutable self (optBinPath opt)) m0 = (Inr u3, m3)"
    and d: "on_files (os_mkdir_all (join_path [optStateDir opt, ''certs'']) (7 * 8 * 8)) m3 = (Inr u4, m')"
    using assms u g by (auto simp: install_program_def split: prod.splits option.splits sum.splits)
  obtain b where b: "contents self (fst m0) = Some b" "regular (fst m3) (optBinPath opt) = Some (7 * 8 * 8 + 5 * 8 + 5, b)"
    using copyExecutable_regular c [unfolded on_files_Pair] by blast
  have "regular (fst m') (optBinPath opt) = Some (7 * 8 * 8 + 5 * 8 + 5, b)"
    using mkdir_regular [OF conjunct1 [OF d [unfolded on_files_Pair]] b(2)] .
  then show ?thesis using u g l b(1) by blast
qed

text \<open>Where the CA comes from: the answer of the platform or of the given URL, or the given file.\<close>

definition ca_given ::
  "('k, 'p, 'i, 'pool, 'n) crypto \<Rightarrow> ('pool, 'h) host \<Rightarrow> string \<Rightarrow> string \<Rightarrow> 'h machine \<Rightarrow> bytes \<Rightarrow> bool"
where
  "ca_given cr h caSrc caURL m caPEM \<longleftrightarrow>
     (if caSrc = [] \<or> has_prefix caSrc ''http://'' \<or> has_prefix caSrc ''https://''
      then pemDecode cr caPEM \<noteq> None \<and> (\<exists>body s. caPEM = read_limited (2 ^ 20) body
             \<and> hGet h (if caSrc = [] then caURL else caSrc) (snd m) = (Some (200, Some body), s))
      else contents (clean caSrc) (fst m) = Some caPEM)"

lemma obtainCA_given: "obtainCA cr h caSrc caURL m = (Inr caPEM, i, m') \<Longrightarrow> ca_given cr h caSrc caURL m caPEM"
  by (auto simp: obtainCA_def ca_given_def fetchCAInsecure_def Let_def read_contents
      split: if_splits prod.splits sum.splits option.splits)

lemma obtainCA_umask: "obtainCA cr h src url m = (r, i, m') \<Longrightarrow> w_umask (fst m') = w_umask (fst m)"
  using env_of_os(3) by (fastforce simp: obtainCA_def env_of_def split: if_splits prod.splits sum.splits)

text \<open>The attributes \<open>os.WriteFile\<close> gives: those of the file that is there, or the mode asked for less the umask.\<close>

definition written_mode :: "string \<Rightarrow> perm \<Rightarrow> world \<Rightarrow> perm" where
  "written_mode p m w = (case regular w p of Some (mode, _) \<Rightarrow> mode | None \<Rightarrow> m AND NOT (w_umask w))"

lemma write_file_regular:
  assumes "os_write_file p b m w = (Inr u, w')"
  shows "regular w' p = Some (written_mode p m w, b)"
proof -
  have "w_files w' = put_file p b m w"
    using assms by (auto simp: os_write_file_def dest!: sys_Inr)
  then show ?thesis
    by (auto simp: regular_def put_file_def map_of_update written_mode_def split: option.splits node.splits)
qed

lemma install_files_ok:
  assumes "install_files cr h opt src fuel ids m = Some (Inr caPEM, m')"
    and "opt = install_options f" and "endpointsFromServer (optServer opt) = (enrollURL, ingestURL, renewURL, caURL)"
  shows "regular (fst m') (join_path [join_path [optStateDir opt, ''certs''], ''ca.crt''])
      = Some (written_mode (join_path [join_path [optStateDir opt, ''certs''], ''ca.crt'']) (6 * 8 * 8 + 4 * 8 + 4) (fst m), caPEM)"
    and "regular (fst m') (optEnvFile opt) = Some (6 * 8 * 8, envFileContent opt enrollURL ingestURL renewURL)"
    and "regular (fst m') (optUnitPath opt) = Some (6 * 8 * 8 + 4 * 8 + 4, renderUnit opt)"
    and "regular (fst m) (optBinPath opt) = Some v \<Longrightarrow> regular (fst m') (optBinPath opt) = Some v"
    and "ca_given cr h src caURL m caPEM"
proof -
  let ?ca = "join_path [join_path [optStateDir opt, ''certs''], ''ca.crt'']"
  obtain i1 m1 u2 m2 u3 w3 u4 w4 u5 w5 where s: "obtainCA cr h src caURL m = (Inr caPEM, i1, m1)"
    "on_files (os_write_file ?ca caPEM (6 * 8 * 8 + 4 * 8 + 4)) m1 = (Inr u2, m2)"
    "chownTree fuel (optStateDir opt) ids (fst m2) = Some (Inr u3, w3)"
    "writeRootFile (optEnvFile opt) (envFileContent opt enrollURL ingestURL renewURL) (6 * 8 * 8) w3 = (Inr u4, w4)"
    "writeRootFile (optUnitPath opt) (renderUnit opt) (6 * 8 * 8 + 4 * 8 + 4) w4 = (Inr u5, w5)" "m' = (w5, snd m2)"
    using assms(1,3) by (auto simp: install_files_def split: prod.splits sum.splits option.splits)
  have d: "?ca \<noteq> optEnvFile opt" "?ca \<noteq> optUnitPath opt" "optBinPath opt \<noteq> ?ca"
    "optBinPath opt \<noteq> optEnvFile opt" "optBinPath opt \<noteq> optUnitPath opt" "optEnvFile opt \<noteq> optUnitPath opt"
    using ca_path_elsewhere [of "optStateDir opt"] install_paths_differ by (auto simp: assms(2) install_options_def)
  have f1: "regular (fst m1) = regular (fst m)" using s(1) by (intro regular_same obtainCA_files)
  note w2 = write_lookup [OF conjunct1 [OF s(2) [unfolded on_files_Pair]]]
  have f3: "regular w3 = regular (fst m2)" by (rule chownTree_regular [OF s(3)])
  let ?mode = "written_mode ?ca (6 * 8 * 8 + 4 * 8 + 4) (fst m)"
  have "regular (fst m2) ?ca = Some (written_mode ?ca (6 * 8 * 8 + 4 * 8 + 4) (fst m1), caPEM)"
    using write_file_regular conjunct1 [OF s(2) [unfolded on_files_Pair]] by blast
  moreover have "written_mode ?ca (6 * 8 * 8 + 4 * 8 + 4) (fst m1) = ?mode"
    using f1 obtainCA_umask [OF s(1)] by (simp add: written_mode_def split: option.split)
  ultimately have "regular w3 ?ca = Some (?mode, caPEM)" by (simp add: f3)
  from writeRootFile_regular(2) [OF s(5) d(2) writeRootFile_regular(2) [OF s(4) d(1) this]]
  show "regular (fst m') ?ca = Some (?mode, caPEM)" using s(6) by simp
  show "ca_given cr h src caURL m caPEM" by (rule obtainCA_given [OF s(1)])
  show "regular (fst m') (optEnvFile opt) = Some (6 * 8 * 8, envFileContent opt enrollURL ingestURL renewURL)"
    using writeRootFile_regular(2) [OF s(5) d(6) writeRootFile_regular(1) [OF s(4)]] s(6) by simp
  show "regular (fst m') (optUnitPath opt) = Some (6 * 8 * 8 + 4 * 8 + 4, renderUnit opt)"
    using writeRootFile_regular(1) [OF s(5)] s(6) by simp
  show "regular (fst m') (optBinPath opt) = Some v" if "regular (fst m) (optBinPath opt) = Some v"
  proof -
    have "regular w3 (optBinPath opt) = Some v" using that f1 f3 w2 d(3) by simp
    from writeRootFile_regular(2) [OF s(5) d(5) writeRootFile_regular(2) [OF s(4) d(4) this]] show ?thesis using s(6) by simp
  qed
qed

lemma start_service_enrolled:
  assumes "start_service cr h opt caPEM rounds m = (Inr (), m')"
  shows "lookup (fst m') (join_path [optStateDir opt, ''certs'', ''client.crt'']) \<noteq> None"
proof -
  obtain ingestURL m2 where v: "verifyInstall cr h opt ingestURL caPEM rounds m2 = (Inr (), m')"
    using assms by (auto simp: start_service_def split: prod.splits sum.splits if_splits)
  then show ?thesis by (auto simp: verifyInstall_def split: prod.splits sum.splits dest: await_enrolled)
qed

text \<open>
  C12. A reported success means a complete installation.  When \<open>install\<close> ends without an error there is a moment,
  after the service user was set up and before \<open>systemctl\<close> was first called, at which the binary is a
  copy of the running program with mode 0755, the environment file holds the given settings with mode 0600, the unit
  is the rendered one with mode 0644, and \<open>ca.crt\<close> holds the CA: the contents of the file given with \<open>--ca\<close>, or what
  the URL given with it or the platform answered (\<open>ca_given\<close>).  Nothing sets the mode of \<open>ca.crt\<close>: it is 0644 less the umask
  for a new file and that of the file that was there otherwise.  The platform was then verified against
  this CA, and at the end the client certificate the service enrolled for is there.
\<close>

theorem successful_install_is_complete:
  assumes "runInstall cr h f fuel rounds m = Some (Inr Installed, m')"
    and "opt = install_options f" and "endpointsFromServer (optServer opt) = (enrollURL, ingestURL, renewURL, caURL)"
    and "ca = join_path [join_path [optStateDir opt, ''certs''], ''ca.crt'']"
  shows "\<exists>exe self ma added m0 ids mp m1 program caPEM.
      hExecutable h = Some exe \<and> self = (case hEvalSymlinks h exe of Some p \<Rightarrow> p | None \<Rightarrow> exe)
    \<and> ensureUser h (optUser opt) m = (True, ma)
    \<and> ensureUserInGroup h (optUser opt) journalGroup ma = (added, m0)
    \<and> install_program h opt self m = (Inr ids, mp)
    \<and> contents self (fst m0) = Some program
    \<and> regular (fst m1) (optBinPath opt) = Some (7 * 8 * 8 + 5 * 8 + 5, program)
    \<and> regular (fst m1) (optEnvFile opt) = Some (6 * 8 * 8, envFileContent opt enrollURL ingestURL renewURL)
    \<and> regular (fst m1) (optUnitPath opt) = Some (6 * 8 * 8 + 4 * 8 + 4, renderUnit opt)
    \<and> ca_given cr h (flCA f) caURL mp caPEM
    \<and> regular (fst m1) ca = Some (case regular (fst mp) ca of Some (mode, _) \<Rightarrow> mode
          | None \<Rightarrow> (6 * 8 * 8 + 4 * 8 + 4) AND NOT (w_umask (fst mp)), caPEM)
    \<and> start_service cr h opt caPEM rounds m1 = (Inr (), m')
    \<and> lookup (fst m') (join_path [optStateDir opt, ''certs'', ''client.crt'']) \<noteq> None"
proof -
  obtain exe self ids ma' caPEM m1 where exe: "hExecutable h = Some exe"
    and self: "self = (case hEvalSymlinks h exe of Some p \<Rightarrow> p | None \<Rightarrow> exe)"
    and p: "install_program h opt self m = (Inr ids, ma')"
    and i: "install_files cr h opt (flCA f) fuel ids ma' = Some (Inr caPEM, m1)"
    and st: "start_service cr h opt caPEM rounds m1 = (Inr (), m')"
    using assms(1) unfolding assms(2)
    by (auto simp: runInstall_def Let_def split: if_splits option.splits prod.splits sum.splits)
  obtain ma added m0 b where u: "ensureUser h (optUser opt) m = (True, ma)" "ensureUserInGroup h (optUser opt) journalGroup ma = (added, m0)"
    "contents self (fst m0) = Some b"
    "regular (fst ma') (optBinPath opt) = Some (7 * 8 * 8 + 5 * 8 + 5, b)"
    using install_program_ok [OF p] by blast
  note f = install_files_ok [OF i assms(2,3)]
  show ?thesis
    using exe self u(1,2) p u(3) f(4) [OF u(4)] f(2,3,5) f(1) [folded assms(4), unfolded written_mode_def] st
      start_service_enrolled [OF st]
    by (intro exI conjI)
qed

text \<open>The fuel of the walk is no restriction: with enough of it \<open>install\<close> returns, whatever fails.\<close>

lemma install_files_returns: "\<exists>n. \<forall>fuel\<ge>n. install_files cr h opt src fuel ids m \<noteq> None"
proof -
  obtain e i r c where ep: "endpointsFromServer (optServer opt) = (e, i, r, c)" by (metis prod_cases4)
  obtain ca how m1 where o: "obtainCA cr h src c m = (ca, how, m1)" by (metis prod_cases3)
  show ?thesis
  proof (cases ca)
    case (Inl x)
    then show ?thesis using ep o by (simp add: install_files_def)
  next
    case (Inr caPEM)
    let ?wca = "on_files (os_write_file (join_path [join_path [optStateDir opt, ''certs''], ''ca.crt'']) caPEM (6 * 8 * 8 + 4 * 8 + 4)) m1"
    obtain rw m2 where wr: "?wca = (rw, m2)" by (rule prod.exhaust)
    have "install_files cr h opt src fuel ids m \<noteq> None" if "Suc (length (w_files (fst m2))) \<le> fuel" for fuel
    proof -
      obtain r w' where "chownTree fuel (optStateDir opt) ids (fst m2) = Some (r, w')"
        using chown_tree_ends [of "fst m2" fuel "optStateDir opt" ids] \<open>_ \<le> fuel\<close> by auto
      then show ?thesis using ep o Inr wr by (simp add: install_files_def split: prod.splits sum.splits)
    qed
    then show ?thesis by blast
  qed
qed

lemma install_returns: "\<exists>n. \<forall>fuel\<ge>n. runInstall cr h f fuel rounds m \<noteq> None"
proof (cases "hExecutable h")
  case None
  then show ?thesis by (simp add: runInstall_def)
next
  case (Some exe)
  let ?self = "case hEvalSymlinks h exe of Some p \<Rightarrow> p | None \<Rightarrow> exe" and ?opt = "install_options f"
  obtain r m1 where p: "install_program h ?opt ?self m = (r, m1)" by (rule prod.exhaust)
  obtain n where "\<forall>fuel\<ge>n. \<forall>ids. r = Inr ids \<longrightarrow> install_files cr h ?opt (flCA f) fuel ids m1 \<noteq> None"
  proof (cases r)
    case (Inr ids)
    then show thesis using install_files_returns [of cr h ?opt "flCA f" ids m1] that by blast
  qed (use that in blast)
  then have "\<forall>fuel\<ge>n. runInstall cr h f fuel rounds m \<noteq> None"
    using Some p by (auto simp: runInstall_def Let_def split: prod.splits sum.splits option.splits)
  then show ?thesis by blast
qed

subsection \<open>The number of buffered events\<close>

lemma queueDepth_lists:
  "qDir q = join_path [d, ''queue''] \<Longrightarrow>
   queueDepth d w = (case sortedPendingLocked q w of (r, w1) \<Rightarrow> (case r of Inl e \<Rightarrow> (0, w1) | Inr ns \<Rightarrow> (int (length ns), w1)))"
  by (simp add: queueDepth_def sortedPendingLocked_def fileSuffix_def split: prod.splits sum.splits)

lemma is_clean_queue: "is_clean (join_path [d, ''queue''])"
proof -
  have v: "valid_name ''queue''" by code_simp
  then show ?thesis using join_path_clean [OF v, of d] is_clean_join [OF is_clean_clean v, of d] by simp
qed

text \<open>
  A queue on a disk that does not fail: \<open>Open\<close>, then writes of events whose file is not there yet, and batches read
  and settled, each with the result the code gives.
\<close>

inductive calm_run :: "string \<Rightarrow> limits \<Rightarrow> queue \<times> world \<Rightarrow> bool" for d lim where
  calm_open: "quiet w \<Longrightarrow> Open d lim w = (Inr q, w') \<Longrightarrow> calm_run d lim (q, w')"
| calm_write: "calm_run d lim (q, w) \<Longrightarrow> slash \<notin> set (ID ev) \<Longrightarrow> live q w (fileName ev) = None
    \<Longrightarrow> Write ev q w = (r, q', w') \<Longrightarrow> calm_run d lim (q', w')"
| calm_read: "calm_run d lim (q, w) \<Longrightarrow> ReadBatch maxN maxB q w = (r, q', w') \<Longrightarrow> calm_run d lim (q', w')"
| calm_ack: "calm_run d lim (q, w) \<Longrightarrow> file_names q w ns \<Longrightarrow> bFiles b = paths_of q ns
    \<Longrightarrow> Ack b q w = (r, q', w') \<Longrightarrow> calm_run d lim (q', w')"
| calm_dead: "calm_run d lim (q, w) \<Longrightarrow> file_names q w ns \<Longrightarrow> bFiles b = paths_of q ns
    \<Longrightarrow> DeadLetter b q w = (r, q', w') \<Longrightarrow> calm_run d lim (q', w')"

lemma calm_settled:
  assumes "buf_reach d lim (q, w) \<and> quiet w \<and> exact q w" and "is_clean d"
    and "buf_step (q, w) (q', w')" and "settled D N q w q' w'"
  shows "buf_reach d lim (q', w') \<and> quiet w' \<and> exact q' w'"
  using assms settled_exact [OF _ _ assms(4)] reach_dirs buf_reach.step by (auto simp: settled_def)

lemma calm_run_exact: "calm_run d lim s \<Longrightarrow> is_clean d \<Longrightarrow> buf_reach d lim s \<and> quiet (snd s) \<and> exact (fst s) (snd s)"
proof (induction rule: calm_run.induct)
  case (calm_open w q w')
  then show ?case using Open_spec(4,6) opened by auto
next
  case (calm_write q w ev r q' w')
  then have h: "buf_reach d lim (q, w)" "quiet w" "exact q w" by simp_all
  have "queue_ok q" using reach_dirs [OF h(1) calm_write.prems] by simp
  from Write_exact [OF this h(3,2) calm_write.hyps(2,4,3)]
  show ?case using buf_reach.step [OF h(1) step_write [OF calm_write.hyps(2,4)]] by simp
next
  case (calm_read q w maxN maxB r q' w')
  then have h: "buf_reach d lim (q, w) \<and> quiet w \<and> exact q w" by simp
  then have "queue_ok q" using reach_dirs calm_read.prems by blast
  then obtain D where "settled D D q w q' w'" using ReadBatch_spec [OF _ calm_read.hyps(2)] by blast
  from calm_settled [OF h calm_read.prems step_read [OF calm_read.hyps(2)] this] show ?case by simp
next
  case (calm_ack q w ns b r q' w')
  then have h: "buf_reach d lim (q, w) \<and> quiet w \<and> exact q w" by simp
  then have "queue_ok q" using reach_dirs calm_ack.prems by blast
  then obtain N where "settled {} N q w q' w'" using Ack_spec [OF _ calm_ack.hyps(2-4)] by blast
  from calm_settled [OF h calm_ack.prems step_ack [OF calm_ack.hyps(2-4)] this] show ?case by simp
next
  case (calm_dead q w ns b r q' w')
  then have h: "buf_reach d lim (q, w) \<and> quiet w \<and> exact q w" by simp
  then have "queue_ok q" using reach_dirs calm_dead.prems by blast
  then obtain N where "settled N N q w q' w'" using DeadLetter_spec [OF _ calm_dead.hyps(2-4)] by blast
  from calm_settled [OF h calm_dead.prems step_dead [OF calm_dead.hyps(2-4)] this] show ?case by simp
qed

text \<open>
  C38. \<open>status\<close> and \<open>doctor\<close> print the number of events that are buffered.  For every state the queue
  can reach, under every fault schedule, \<open>queueDepth\<close> is the number of pending events on disk, or zero when the directory
  cannot be listed, and never more than the agent itself counts.  When nothing fails it is
  the number of pending events, and in any run of the queue on such a disk, from \<open>Open\<close> on and with new IDs (\<open>calm_run\<close>), it is
  the agent's own \<open>Len\<close>.
\<close>

theorem queue_depth_counts_pending:
  assumes "buf_reach (join_path [stateDir, ''queue'']) lim (q, w)" and "queueDepth stateDir w = (n, w')"
  shows "n = (case fst (os_read_dir (join_path [stateDir, ''queue'']) w) of Inl _ \<Rightarrow> 0 | Inr _ \<Rightarrow> int (card (dom (live q w))))
    \<and> n \<le> queue_len q
    \<and> (quiet w \<longrightarrow> n = int (card (dom (live q w))))
    \<and> (calm_run (join_path [stateDir, ''queue'']) lim (q, w) \<longrightarrow> n = queue_len q)"
proof -
  let ?d = "join_path [stateDir, ''queue'']"
  have q: "qDir q = ?d" "queue_ok q" using reach_dirs [OF assms(1) is_clean_queue] by simp_all
  have dir: "is_dir_in (w_files w) ?d"
    using reach_dirs [OF assms(1) is_clean_queue] dir_chain_child [OF is_clean_queue valid_dead] by (auto simp: is_dir_in_def)
  have cov: "int (card (dom (live q w))) \<le> qCount q" using reach_covered [OF assms(1) is_clean_queue] by (simp add: covered_def)
  obtain r w1 where sp: "sortedPendingLocked q w = (r, w1)" by force
  have n: "n = (case r of Inl e \<Rightarrow> 0 | Inr ns \<Rightarrow> int (length ns))"
    using assms(2) queueDepth_lists [OF q(1), of w] sp by (auto split: sum.splits)
  have ok: "int (length ns) = int (card (dom (live q w)))" if "r = Inr ns" for ns
    using sortedPending_ok [of q w ns w1] length_pending [of "qDir q" "w_files w"] sp that q is_clean_queue by simp
  have listed: "is_ok r = is_ok (fst (os_read_dir ?d w))"
    using sp q(1) by (auto simp: sortedPendingLocked_def split: prod.splits sum.splits)
  have depth: "n = (case fst (os_read_dir ?d w) of Inl _ \<Rightarrow> 0 | Inr _ \<Rightarrow> int (card (dom (live q w))))"
    using n ok listed by (cases r; cases "fst (os_read_dir ?d w)") simp_all
  have quiet: "\<exists>ns. r = Inr ns" if "quiet w"
    using that sp q dir by (auto simp: sortedPendingLocked_def os_read_dir_def sys_quiet queue_ok_def
        is_clean_def split: prod.splits sum.splits if_splits)
  have calm: "n = queue_len q" if "calm_run ?d lim (q, w)"
    using calm_run_exact [OF that is_clean_queue] quiet n ok by (auto simp: exact_def queue_len_def)
  show ?thesis
    using depth n ok cov quiet calm by (cases r) (auto simp: queue_len_def)
qed

end
