(* ===== verification/Onboard_Doctor.thy ===== *)
theory Onboard_Doctor
  imports Onboard_Install
begin

text \<open>
  \<open>doctor\<close> on an installed host: its verdict is the conjunction of what the installation promised, read
  through the environment file that \<open>install\<close> wrote.
\<close>

subsection \<open>Looking without changing anything\<close>

text \<open>On a disk that does not fail, a call that only reads takes one step of the clock.\<close>

definition tick :: "world \<Rightarrow> world" where
  "tick w = w\<lparr>w_tick := Suc (w_tick w)\<rparr>"

lemma tick_simps [simp]:
  "w_files (tick w) = w_files w" "quiet (tick w) = quiet w" "contents p (tick w) = contents p w" "w_clock (tick w) = w_clock w"
  by (simp_all add: tick_def quiet_def contents_def)

lemma ticks_simps [simp]:
  "w_files ((tick ^^ n) w) = w_files w" "quiet ((tick ^^ n) w) = quiet w" "contents p ((tick ^^ n) w) = contents p w"
  "w_clock ((tick ^^ n) w) = w_clock w"
  by (induction n) simp_all

lemma quiet_fileExists: "quiet w \<Longrightarrow> fileExists p w = (lookup w p \<noteq> None, tick w)"
  by (cases "lookup w p") (simp_all add: fileExists_def os_stat_def sys_quiet tick_def)

lemma quiet_read_tick:
  assumes "quiet w"
  obtains r where "os_read_file p w = (r, tick w)" and "\<And>b. r = Inr b \<longleftrightarrow> contents p w = Some b"
proof (cases "lookup w p")
  case None
  then show thesis using assms that [of "Inl ENOENT"] by (simp add: os_read_file_def sys_quiet tick_def contents_def)
next
  case (Some nd)
  then show thesis
    using assms that [of "Inl EISDIR"] that [of "case nd of File _ b \<Rightarrow> Inr b | Dir _ \<Rightarrow> Inl EISDIR"]
    by (cases nd) (auto simp: os_read_file_def sys_quiet tick_def contents_def)
qed

definition cert_until :: "('k, 'p, 'i, 'pool, 'n) crypto \<Rightarrow> bytes \<Rightarrow> time option" where
  "cert_until cr b = Option.bind (pemDecode cr b) (\<lambda>der. map_option NotAfter (cryParseCert cr der))"

lemma quiet_certNotAfter:
  assumes "quiet w"
  obtains r where "certNotAfter cr p w = (r, tick w)"
    and "\<And>t. r = Inr t \<longleftrightarrow> Option.bind (contents p w) (cert_until cr) = Some t"
proof -
  obtain rd where rd: "os_read_file p w = (rd, tick w)" "\<And>b. rd = Inr b \<longleftrightarrow> contents p w = Some b"
    using quiet_read_tick [OF assms, of p] by blast
  have fst: "certNotAfter cr p w = (fst (certNotAfter cr p w), tick w)"
    using rd(1) by (simp add: certNotAfter_def split: sum.split option.split)
  have "fst (certNotAfter cr p w) = Inr t \<longleftrightarrow> Option.bind (contents p w) (cert_until cr) = Some t" for t
  proof (cases rd)
    case (Inl e)
    then have "contents p w = None" using rd(2) by (cases "contents p w") auto
    then show ?thesis using rd(1) Inl by (simp add: certNotAfter_def)
  next
    case (Inr b)
    then have "contents p w = Some b" using rd(2) by blast
    then show ?thesis using rd(1) Inr by (auto simp: certNotAfter_def cert_until_def split: option.splits)
  qed
  with fst show thesis using that by blast
qed

lemma cert_check_ticks:
  obtains l n where "cert_check r w = (l, (tick ^^ n) w)"
    and "\<not> check_fails l \<longleftrightarrow> (\<exists>t. r = Inr t \<and> w_clock w (w_tick w) < t)"
proof (cases r)
  case (Inl e)
  then show thesis using that [of "Check CertPresent False" 0] by (simp add: cert_check_def check_fails_def)
next
  case (Inr t)
  have c: "clamp64 d \<le> 0 \<longleftrightarrow> d \<le> 0" for d by (auto simp: clamp64_def)
  have now: "time_now w = (w_clock w (w_tick w), tick w)" for w by (simp add: time_now_def tick_def)
  show thesis
  proof (cases "t \<le> w_clock w (w_tick w)")
    case True
    then show thesis using that [of "Check CertNotExpired False" 1] Inr by (simp add: cert_check_def check_fails_def now c)
  next
    case False
    then show thesis
      using that [of "fst (cert_check r w)" 2] Inr
      by (auto simp: cert_check_def check_fails_def now c numeral_2_eq_2)
  qed
qed

lemma quiet_parseEnv:
  assumes "quiet w" and "contents p w = Some (envFileContent opt e i r)"
    and "list_all plain_value [optStateDir opt, e, i, r, optToken opt]"
  obtains m where "parseEnvFile p w = ((m, None), tick w)"
    and "setting m ''HOST_AGENT_STATE_DIR'' = optStateDir opt" and "setting m ''INGEST_ENDPOINT'' = i"
proof -
  obtain rd where rd: "os_read_file p w = (rd, tick w)" "\<And>b. rd = Inr b \<longleftrightarrow> contents p w = Some b"
    using quiet_read_tick [OF assms(1), of p] by blast
  then have b: "rd = Inr (envFileContent opt e i r)" using assms(2) by blast
  obtain m where m: "parseEnvFile p w = ((m, None), tick w)"
    using rd(1) b env_content_scans [OF assms(3)] by (simp add: parseEnvFile_def os_open_read_def)
  have "map_of m = foldl (\<lambda>m (k, v). m(k \<mapsto> v)) Map.empty (env_lines opt e i r)"
    by (rule parse_env_content [OF assms(2) m assms(3)])
  then have "setting m ''HOST_AGENT_STATE_DIR'' = optStateDir opt" "setting m ''INGEST_ENDPOINT'' = i"
    unfolding setting_def by (simp_all add: env_lines_def)
  then show thesis using that m by blast
qed

lemma on_files_at: "on_files f (w, s) = (case f w of (r, w') \<Rightarrow> (r, (w', s)))"
  by (simp add: on_files_def)

subsection \<open>The verdict\<close>

lemma certs_path: "join_path [d, ''certs'', ''ca.crt''] = join_path [join_path [d, ''certs''], ''ca.crt'']"
proof -
  have v: "valid_name ''ca.crt''" by code_simp
  show ?thesis
  proof (cases "d = []")
    case True
    have "join_path [''certs'', ''ca.crt''] = join_path [join_path [''certs''], ''ca.crt'']" by code_simp
    then show ?thesis using True by (simp add: join_path.simps(2) [of "[]"])
  next
    case False
    then have "join_path [join_path [d, ''certs''], ''ca.crt''] = join_path [clean (join_with [slash] [d, ''certs'']), ''ca.crt'']"
      by (simp add: join_path.simps(2) [of d])
    also have "\<dots> = join_path [join_with [slash] [d, ''certs''], ''ca.crt'']" by (rule join_path_clean [OF v])
    also have "\<dots> = join_path [d, ''certs'', ''ca.crt'']" using False by (simp add: join_path.simps(2))
    finally show ?thesis by simp
  qed
qed

lemma quiet_doctor_platform:
  assumes "quiet w" and "ingest \<noteq> []" and "contents (join_path [join_path [d, ''certs''], ''ca.crt'']) w = Some caPEM"
  shows "doctor_platform cr h ingest d (w, s) =
    (Check PlatformReachable (is_ok (fst (probeTLS cr h ingest caPEM s))), (tick w, snd (probeTLS cr h ingest caPEM s)))"
proof -
  obtain r where r: "os_read_file (join_path [d, ''certs'', ''ca.crt'']) w = (r, tick w)"
    "\<And>b. r = Inr b \<longleftrightarrow> contents (join_path [d, ''certs'', ''ca.crt'']) w = Some b"
    using quiet_read_tick [OF assms(1)] by blast
  then have "r = Inr caPEM" using assms(3) certs_path by simp
  then show ?thesis using r(1) assms(2) by (simp add: doctor_platform_def on_files_def split: prod.split)
qed

text \<open>
  C40. What \<open>doctor\<close> says after \<open>install\<close>.  On a host with the environment file and the CA that \<open>install\<close> wrote,
  and a disk that does not fail, \<open>doctor\<close> ends without an error exactly when the binary is there, the default user
  exists and may read the journal, the client certificate in the given state directory can be
  parsed and has not expired, the platform at the given address is reached under that CA, and, where there is a
  \<open>systemctl\<close>, the service is active.
\<close>

theorem doctor_confirms_the_installation:
  assumes "endpointsFromServer (optServer opt) = (enrollURL, ingestURL, renewURL, caURL)" and "quiet w"
    and "contents agent_env_file w = Some (envFileContent opt enrollURL ingestURL renewURL)"
    and "list_all plain_value [optStateDir opt, enrollURL, ingestURL, renewURL, optToken opt]" and "optStateDir opt \<noteq> []"
    and "contents (join_path [join_path [optStateDir opt, ''certs''], ''ca.crt'']) w = Some caPEM"
    and "runDoctor cr h (w, s) = ((ls, depth, failed), m')"
  shows "\<exists>w1. w_files w1 = w_files w \<and>
    (\<not> failed \<longleftrightarrow> lookup w (join_path [defaultBinDir, defaultBinName]) \<noteq> None
      \<and> userExists h defaultUser s \<and> userInGroup h defaultUser journalGroup s
      \<and> (\<exists>t>w_clock w (w_tick w + 3). Option.bind (contents (join_path [optStateDir opt, ''certs'', ''client.crt'']) w) (cert_until cr) = Some t)
      \<and> is_ok (fst (probeTLS cr h ingestURL caPEM s))
      \<and> (hLookPath h ''systemctl'' \<longrightarrow> fst (isActive h defaultBinName (w1, snd (probeTLS cr h ingestURL caPEM s)))))"
proof -
  let ?sd = "optStateDir opt" and ?bin = "join_path [defaultBinDir, defaultBinName]"
  let ?crt = "join_path [?sd, ''certs'', ''client.crt'']" and ?probe = "probeTLS cr h ingestURL caPEM s"
  have ing: "ingestURL \<noteq> []" using assms(1) by (auto simp: endpointsFromServer_def Let_def)
  obtain env where env: "parseEnvFile agent_env_file (tick w) = ((env, None), tick (tick w))"
    "setting env ''HOST_AGENT_STATE_DIR'' = ?sd" "setting env ''INGEST_ENDPOINT'' = ingestURL"
    using quiet_parseEnv [OF _ _ assms(4), of "tick w" agent_env_file] assms(2,3) by auto
  have sd: "envOr env ''HOST_AGENT_STATE_DIR'' installStateDir = ?sd" using env(2) assms(5) by (simp add: envOr_def)
  let ?w3 = "tick (tick (tick w))"
  obtain cert where cert: "certNotAfter cr ?crt (tick (tick w)) = (cert, ?w3)"
    "\<And>t. cert = Inr t \<longleftrightarrow> Option.bind (contents ?crt w) (cert_until cr) = Some t"
    using quiet_certNotAfter [of "tick (tick w)" cr ?crt] assms(2) by auto
  obtain l n where l: "cert_check cert ?w3 = (l, (tick ^^ n) ?w3)"
    "\<not> check_fails l \<longleftrightarrow> (\<exists>t. cert = Inr t \<and> w_clock w (w_tick ?w3) < t)"
    using cert_check_ticks [of cert ?w3] by auto
  let ?w4 = "(tick ^^ n) ?w3"
  have pl: "doctor_platform cr h ingestURL ?sd (?w4, s) = (Check PlatformReachable (is_ok (fst ?probe)), (tick ?w4, snd ?probe))"
    by (rule quiet_doctor_platform) (use assms(2,6) ing in simp_all)
  obtain a m6 where act: "isActive h defaultBinName (tick ?w4, snd ?probe) = (a, m6)" by (rule prod.exhaust)
  let ?service = "if hLookPath h ''systemctl'' then Check ServiceActive a else WarnNoSystemctl"
    and ?m6 = "if hLookPath h ''systemctl'' then m6 else (tick ?w4, snd ?probe)"
  have sv: "(if hLookPath h ''systemctl'' then (case isActive h defaultBinName (tick ?w4, snd ?probe) of (ok, m) \<Rightarrow> (Check ServiceActive ok, m))
      else (WarnNoSystemctl, (tick ?w4, snd ?probe))) = (?service, ?m6)"
    using act by simp
  obtain d m7 where q: "on_files (queueDepth ?sd) ?m6 = (d, m7)" by (rule prod.exhaust)
  let ?ls = "Check BinaryInstalled (lookup w ?bin \<noteq> None) # doctor_user h s
        @ [Check ConfigPresent True, l, Check PlatformReachable (is_ok (fst ?probe)), ?service]"
  have "runDoctor cr h (w, s) = ((?ls, d, list_ex check_fails ?ls), m7)"
    unfolding runDoctor_def on_files_at quiet_fileExists [OF assms(2)] env prod.case Let_def sd fst_conv snd_conv cert(1) l(1) pl sv q
    by simp
  then have "failed = list_ex check_fails ?ls" using assms(7) by simp
  then have "\<not> failed \<longleftrightarrow> lookup w ?bin \<noteq> None \<and> userExists h defaultUser s \<and> userInGroup h defaultUser journalGroup s
      \<and> \<not> check_fails l \<and> is_ok (fst ?probe) \<and> (hLookPath h ''systemctl'' \<longrightarrow> a)"
    by (auto simp: doctor_user_def check_fails_def)
  moreover have "\<not> check_fails l \<longleftrightarrow> (\<exists>t>w_clock w (w_tick ?w3). Option.bind (contents ?crt w) (cert_until cr) = Some t)"
    unfolding l(2) cert(2) by blast
  moreover have "w_tick ?w3 = w_tick w + 3" by (simp add: tick_def)
  ultimately show ?thesis by (intro exI [of _ "tick ?w4"]) (auto simp: act)
qed

end
