(* ===== verification/Onboard_Runs.thy ===== *)
theory Onboard_Runs
  imports Onboard_Doctor Pki_Theorems
begin

text \<open>
  \<open>uninstall --purge\<close>, and one concrete host on which each of the properties of the onboarding
  commands is applied.
\<close>

subsection \<open>Removing\<close>

text \<open>The paths \<open>uninstall --purge\<close> is there to remove.\<close>

definition program_files :: "string set" where
  "program_files = {join_path [defaultBinDir, defaultBinName], join_path [defaultUnitDir, defaultBinName @ ''.service'']}"

definition purge_targets :: "string \<Rightarrow> string set" where
  "purge_targets stateDir = program_files \<union> {p. under defaultEnvDir p} \<union> {p. under (clean stateDir) p}"

text \<open>A path in \<open>T\<close> is as before or gone, one outside \<open>T\<close> and \<open>C\<close> is as before.\<close>

definition tidy :: "string set \<Rightarrow> string set \<Rightarrow> world \<Rightarrow> world \<Rightarrow> bool" where
  "tidy T C w w' \<longleftrightarrow> (quiet w \<longrightarrow> quiet w')
     \<and> (\<forall>p\<in>T. lookup w' p = None \<or> lookup w' p = lookup w p) \<and> (\<forall>p. p \<notin> T \<union> C \<longrightarrow> lookup w' p = lookup w p)"

lemma tidy_trans [trans]: "tidy T C w w1 \<Longrightarrow> tidy T C w1 w' \<Longrightarrow> tidy T C w w'"
  unfolding tidy_def by metis

lemma tidy_gone: "tidy T C w w' \<Longrightarrow> p \<in> T \<Longrightarrow> lookup w p = None \<Longrightarrow> lookup w' p = None"
  unfolding tidy_def by metis

lemma tidy_removed:
  "(\<And>p. lookup w' p = (if p \<in> S then None else lookup w p)) \<Longrightarrow> (quiet w \<Longrightarrow> quiet w') \<Longrightarrow> S \<subseteq> T \<Longrightarrow> tidy T C w w'"
  by (auto simp: tidy_def)

lemma removed_quiet:
  assumes "removed p m = (b, m')" and "quiet (fst m)" and "\<nexists>a. lookup (fst m) p = Some (Dir a)" and "p \<in> T"
  shows "tidy T C (fst m) (fst m')" and "lookup (fst m') p = None"
proof -
  obtain r where r: "os_remove p (fst m) = (r, fst m')" "b = is_ok r"
    using assms(1) by (auto simp: removed_def on_files_Pair split: prod.splits)
  have q: "quiet (fst m')" using quiet_os(4) [OF r(1) assms(2)] .
  have m': "fst m' = snd (os_remove p (fst m))" using r(1) by simp
  have l: "lookup (fst m') x = (if x \<in> {p} then None else lookup (fst m) x)" for x
    unfolding m' using assms(2,3)
    by (cases "lookup (fst m) p") (auto simp: os_remove_def sys_quiet map_of_delete split: node.splits)
  show "lookup (fst m') p = None" by (simp add: l)
  show "tidy T C (fst m) (fst m')" by (rule tidy_removed [OF l]) (use q assms(4) in auto)
qed

lemma map_of_kept: "map_of (filter (\<lambda>(k, _). P k) xs) p = (if P p then map_of xs p else None)"
  by (induction xs) auto

lemma remove_all_quiet:
  assumes "os_remove_all d w = (r, w')" and "quiet w"
  shows "{p. under d p} \<subseteq> T \<Longrightarrow> tidy T C w w'" and "under d p \<Longrightarrow> lookup w' p = None"
proof -
  have f: "w_files w' = filter (\<lambda>(p, _). \<not> under d p) (w_files w)" and q: "quiet w'"
    using assms by (auto simp: os_remove_all_def sys_quiet quiet_def)
  have l: "lookup w' x = (if x \<in> {p. under d p} then None else lookup w x)" for x
    using f by (simp add: map_of_kept [where P = "\<lambda>p. \<not> under d p"])
  show "tidy T C w w'" if "{p. under d p} \<subseteq> T" by (rule tidy_removed [OF l q that])
  show "lookup w' p = None" if "under d p" using that by (simp add: l)
qed

lemma purge_dir_quiet:
  assumes "purge_dir d w = (r, w')" and "quiet w" and "d \<noteq> []" and "d \<noteq> ''.''" and "\<not> has_suffix d ''/.''"
  shows "{p. under (clean d) p} \<subseteq> T \<Longrightarrow> tidy T C w w'" and "under (clean d) p \<Longrightarrow> lookup w' p = None"
  using assms remove_all_quiet [of "clean d" w _ w']
  by (auto simp: purge_dir_def split: if_splits prod.splits)

text \<open>
  What the commands do to the files: they may change those in \<open>C\<close> and remove any of \<open>T\<close>, and create none of \<open>T\<close>.
  Stopping the service may write below the directories of the agent, which empties its channel on the way
  out, but not the program and the unit.
\<close>

definition stop_command :: "string list" where
  "stop_command = [''systemctl'', ''disable'', ''--now'', defaultBinName]"

definition tidy_commands :: "('pool, 'h) host \<Rightarrow> string set \<Rightarrow> string set \<Rightarrow> bool" where
  "tidy_commands h T C \<longleftrightarrow>
     (\<forall>args m. (if args = stop_command then tidy program_files (T \<union> C) else tidy T C) (fst m) (fst (snd (hExec h args m))))"

lemma tidy_command:
  assumes "tidy_commands h T C" and "run_command h args m = (ok, m')"
  shows "args = stop_command \<Longrightarrow> tidy program_files (T \<union> C) (fst m) (fst m')"
    and "args \<noteq> stop_command \<Longrightarrow> tidy T C (fst m) (fst m')"
proof -
  have "m' = snd (hExec h args m)" using assms(2) by (auto simp: run_command_def split: prod.splits)
  moreover have "(if args = stop_command then tidy program_files (T \<union> C) else tidy T C) (fst m) (fst (snd (hExec h args m)))"
    using assms(1) unfolding tidy_commands_def by blast
  ultimately show "args = stop_command \<Longrightarrow> tidy program_files (T \<union> C) (fst m) (fst m')"
    "args \<noteq> stop_command \<Longrightarrow> tidy T C (fst m) (fst m')"
    by simp_all
qed

text \<open>
  C39. \<open>uninstall --purge\<close> removes the agent and nothing else.  On a disk that does not fail, nothing is
  left afterwards of the binary, the unit, the directory with the environment file and its
  token, and the state directory with the key, the certificate and the queue, what the stopping service
  still wrote there included; and every path outside these is as it was before, files and directories
  alike, but for those in \<open>C\<close> that the commands \<open>systemctl\<close> and \<open>userdel\<close> themselves change.
\<close>

theorem purge_leaves_nothing:
  assumes "runUninstall h True userName stateDir m = (Inr res, m')" and "quiet (fst m)"
    and "tidy_commands h (purge_targets stateDir) C"
    and "\<forall>p\<in>program_files. \<nexists>a. lookup (fst m) p = Some (Dir a)"
    and "stateDir \<noteq> []" and "stateDir \<noteq> ''.''" and "\<not> has_suffix stateDir ''/.''"
  shows "(\<forall>p. p \<in> program_files \<or> under defaultEnvDir p \<or> under (clean stateDir) p \<longrightarrow> lookup (fst m') p = None)
    \<and> (\<forall>p. p \<notin> program_files \<and> \<not> under defaultEnvDir p \<and> \<not> under (clean stateDir) p \<and> p \<notin> C
         \<longrightarrow> lookup (fst m') p = lookup (fst m) p)"
proof -
  let ?bin = "join_path [defaultBinDir, defaultBinName]" and ?unit = "join_path [defaultUnitDir, defaultBinName @ ''.service'']"
  let ?T = "purge_targets stateDir"
  have files: "?bin \<in> program_files" "?unit \<in> program_files" "program_files \<subseteq> ?T"
    "{p. under defaultEnvDir p} \<subseteq> ?T" "{p. under (clean stateDir) p} \<subseteq> ?T"
    by (auto simp: program_files_def purge_targets_def)
  obtain ok1 m1 where s1: "run_command h stop_command m = (ok1, m1)" by (rule prod.exhaust)
  obtain u m2 where s2: "removed ?unit m1 = (u, m2)" by (rule prod.exhaust)
  obtain ok3 m3 where s3: "run_command h [''systemctl'', ''daemon-reload''] m2 = (ok3, m3)" by (rule prod.exhaust)
  obtain b m4 where s4: "removed ?bin m3 = (b, m4)" by (rule prod.exhaust)
  obtain r5 m5 where s5: "on_files (purge_dir stateDir) m4 = (r5, m5)" by (rule prod.exhaust)
  obtain r6 m6 where s6: "on_files (os_remove_all defaultEnvDir) m5 = (r6, m6)" by (rule prod.exhaust)
  have last: "m' = m6 \<or> (\<exists>ok. run_command h [''userdel'', userName] m6 = (ok, m'))"
    using assms(1) s1 s2 s3 s4 s5 s6 by (auto simp: runUninstall_def stop_command_def split: if_splits prod.splits)
  note cmd = tidy_command [OF assms(3)]
  note t1 = cmd(1) [OF s1 refl]
  then have q1: "quiet (fst m1)" and d1: "\<nexists>a. lookup (fst m1) ?unit = Some (Dir a)" "\<nexists>a. lookup (fst m1) ?bin = Some (Dir a)"
    using assms(2,4) files unfolding tidy_def by (blast, metis option.distinct(1), metis option.distinct(1))
  note t2 = removed_quiet [OF s2 q1 d1(1), where T = ?T]
  have t3: "tidy ?T C (fst m2) (fst m3)" using cmd(2) [OF s3] by (simp add: stop_command_def)
  have t13: "tidy ?T C (fst m1) (fst m3)" using tidy_trans [OF t2(1) t3] files by blast
  then have q3: "quiet (fst m3)" and d3: "\<nexists>a. lookup (fst m3) ?bin = Some (Dir a)"
    using q1 d1(2) files unfolding tidy_def by (blast, metis option.distinct(1) subsetD)
  note t4 = removed_quiet [OF s4 q3 d3, where T = ?T]
  then have q4: "quiet (fst m4)" using q3 files by (auto simp: tidy_def)
  note p5 = purge_dir_quiet [OF conjunct1 [OF s5 [unfolded on_files_Pair]] q4 assms(5-7)]
  have t5: "tidy ?T C (fst m4) (fst m5)" by (rule p5(1) [OF files(5)])
  then have q5: "quiet (fst m5)" using q4 by (simp add: tidy_def)
  note p6 = remove_all_quiet [OF conjunct1 [OF s6 [unfolded on_files_Pair]] q5]
  have t6: "tidy ?T C (fst m5) (fst m6)" by (rule p6(1) [OF files(4)])
  have t7: "tidy ?T C (fst m6) (fst m')"
  proof (cases "m' = m6")
    case True
    then show ?thesis by (simp add: tidy_def)
  next
    case False
    then obtain ok where "run_command h [''userdel'', userName] m6 = (ok, m')" using last by blast
    from cmd(2) [OF this] show ?thesis by (simp add: stop_command_def)
  qed
  note t57 = tidy_trans [OF t6 t7]
  note t47 = tidy_trans [OF t5 t57]
  have t37: "tidy ?T C (fst m3) (fst m')" using tidy_trans [OF t4(1) t47] files by blast
  have "lookup (fst m') ?unit = None"
    using tidy_gone [OF tidy_trans [OF t3 t37] _ t2(2)] files by blast
  moreover have "lookup (fst m') ?bin = None" using tidy_gone [OF t47 _ t4(2)] files by blast
  moreover have "lookup (fst m') p = None" if "under (clean stateDir) p" for p
    using tidy_gone [OF t57 _ p5(2) [OF that]] that files(5) by blast
  moreover have "lookup (fst m') p = None" if "under defaultEnvDir p" for p
    using tidy_gone [OF t7 _ p6(2) [OF that]] that files(4) by blast
  moreover have "lookup (fst m') p = lookup (fst m) p" if "p \<notin> ?T" "p \<notin> C" for p
  proof -
    have "lookup (fst m') p = lookup (fst m1) p" using tidy_trans [OF t13 t37] that by (simp add: tidy_def)
    also have "\<dots> = lookup (fst m) p" using t1 that files(3) by (auto simp: tidy_def)
    finally show ?thesis .
  qed
  ultimately show ?thesis by (auto simp: purge_targets_def program_files_def)
qed

subsection \<open>A concrete host\<close>

text \<open>A fresh machine, and commands that succeed: enabling the service makes it store its certificate.\<close>

definition host_dir :: node where
  "host_dir = Dir \<lparr>a_perm = 7 * 8 * 8 + 5 * 8 + 5, a_owner = (0, 0)\<rparr>"

definition host_world :: world where
  "host_world = \<lparr>w_files = [(''/dl'', host_dir), (''/dl/agent'', File \<lparr>a_perm = 7 * 8 * 8, a_owner = (0, 0)\<rparr> ''program''),
       (''/usr'', host_dir), (''/usr/local'', host_dir), (''/usr/local/bin'', host_dir), (''/var'', host_dir)],
     w_umask = 2 * 8 + 2, w_ids = (0, 0), w_tick = 0, w_fault = \<lambda>_. Go, w_crashed = False, w_clock = \<lambda>n. int n\<rparr>"

definition host_client_cert :: string where
  "host_client_cert = ''/var/lib/shadowtwin-agent/certs/client.crt''"

definition host_exec :: "string list \<Rightarrow> unit machine \<Rightarrow> (bool \<times> bytes) \<times> unit machine" where
  "host_exec args m =
     (if args = [''systemctl'', ''enable'', ''--now'', defaultBinName]
      then ((True, []), (snd (os_write_file host_client_cert ''cert'' (6 * 8 * 8) (fst m)), snd m))
      else if take 2 args = [''systemctl'', ''is-active''] then ((True, ''active'' @ [newline]), m)
      else ((True, []), m))"

definition host_demo :: "(bytes, unit) host" where
  "host_demo = \<lparr>hEuid = 0, hExecutable = Some ''/dl/agent'', hEvalSymlinks = \<lambda>p. None, hLookPath = \<lambda>_. True, hExec = host_exec,
     hUser = \<lambda>n _. (if n = defaultUser then Some (''998'', ''997'') else None), hGroup = \<lambda>_ _. Some ''101'',
     hGroupIds = \<lambda>_ _. Some [''997'', ''101''], hGet = \<lambda>_ s. (Some (200, Some (desk_pem ''CERTIFICATE'' ''ca'')), s),
     hParseURL = \<lambda>_. Some (''platform:8443'', ''platform''), hDial = \<lambda>_ _ _ s. (True, s), hSleep = \<lambda>m. m\<rparr>"

definition host_flags :: install_flags where
  "host_flags = \<lparr>flServer = ''https://platform:8443/'', flToken = ''token-1'', flCA = [], flUser = defaultUser,
     flStateDir = installStateDir, flDryRun = False\<rparr>"

definition host_installed :: "unit machine" where
  "host_installed = snd (the (runInstall desk_crypto host_demo host_flags 20 1 (host_world, ())))"

text \<open>The two documents are not looked into by the evaluation.\<close>

declare renderUnit_def [code del] envFileContent_def [code del]

lemma host_install: "runInstall desk_crypto host_demo host_flags 20 1 (host_world, ()) = Some (Inr Installed, host_installed)"
proof -
  have "map_option fst (runInstall desk_crypto host_demo host_flags 20 1 (host_world, ())) = Some (Inr Installed)" by code_simp
  then show ?thesis by (auto simp: host_installed_def)
qed

declare renderUnit_def [code] envFileContent_def [code]

lemma host_endpoints:
  "endpointsFromServer (optServer (install_options host_flags)) = (''https://platform:8443/enroll'', ''https://platform:8443/ingest'',
     ''https://platform:8443/renew'', ''https://platform:8443/ca'')"
  by code_simp

lemma host_quiet: "quiet host_world"
  by (simp add: host_world_def quiet_def)

theorem successful_install_is_complete_witness:
  "\<exists>m1 caPEM mp ids. regular (fst m1) ''/etc/shadowtwin-agent/agent.env'' =
       Some (6 * 8 * 8, envFileContent (install_options host_flags) ''https://platform:8443/enroll'' ''https://platform:8443/ingest''
         ''https://platform:8443/renew'')
     \<and> install_program host_demo (install_options host_flags) ''/dl/agent'' (host_world, ()) = (Inr ids, mp)
     \<and> contents ''/var/lib/shadowtwin-agent/certs/ca.crt'' (fst m1) = Some caPEM
     \<and> ca_given desk_crypto host_demo [] ''https://platform:8443/ca'' mp caPEM
     \<and> start_service desk_crypto host_demo (install_options host_flags) caPEM 1 m1 = (Inr (), host_installed)"
proof -
  have "optEnvFile (install_options host_flags) = ''/etc/shadowtwin-agent/agent.env''"
    "''/var/lib/shadowtwin-agent/certs/ca.crt'' = join_path [join_path [optStateDir (install_options host_flags), ''certs''], ''ca.crt'']"
    by code_simp+
  moreover have "hExecutable host_demo = Some ''/dl/agent''" "hEvalSymlinks host_demo ''/dl/agent'' = None" "flCA host_flags = []"
    by (simp_all add: host_demo_def host_flags_def)
  ultimately show ?thesis
    using successful_install_is_complete [OF host_install refl host_endpoints] regular_contents by (auto 0 6)
qed

theorem binary_is_replaced_atomically_witness:
  "\<exists>w'. copyExecutable ''/dl/agent'' ''/usr/local/bin/x'' host_world = (Inr (), w') \<and> contents ''/usr/local/bin/x'' w' = Some ''program''"
proof -
  obtain r w' where c: "copyExecutable ''/dl/agent'' ''/usr/local/bin/x'' host_world = (r, w')" by force
  have "is_ok (fst (copyExecutable ''/dl/agent'' ''/usr/local/bin/x'' host_world))" by code_simp
  then have "r = Inr ()" using c by (cases r) auto
  moreover have "contents ''/dl/agent'' host_world = Some ''program''" by code_simp
  ultimately show ?thesis using binary_is_replaced_atomically [OF c] c by auto
qed

lemma host_dir_entry: "n \<in> {''local'', ''bin''} \<Longrightarrow> valid_name n"
  by (elim insertE emptyE; simp; code_simp)

theorem chown_tree_returns_witness:
  "\<exists>w'. chownTree 7 ''/usr'' (998, 997) host_world = Some (Inr (), w') \<and> owner_at w' ''/usr/local/bin'' = Some (998, 997)
    \<and> contents ''/dl/agent'' w' = Some ''program''"
proof -
  have "length (w_files host_world) < 7" by code_simp
  from chown_tree_returns [OF this, of "''/usr''" "(998, 997)"]
  obtain r w' where c: "chownTree 7 ''/usr'' (998, 997) host_world = Some (r, w')" "contents ''/dl/agent'' w' = contents ''/dl/agent'' host_world"
    "r = Inr () \<longrightarrow> (\<forall>q. in_tree host_world (clean ''/usr'') q \<longrightarrow> owner_at w' q = Some (998, 997))"
    by blast
  have "map_option (\<lambda>x. is_ok (fst x)) (chownTree 7 ''/usr'' (998, 997) host_world) = Some True" by code_simp
  then have r: "r = Inr ()" using c(1) by (cases r) auto
  have p: "clean ''/usr'' = ''/usr''" "join_path [''/usr'', ''local''] = ''/usr/local''" "join_path [''/usr/local'', ''bin''] = ''/usr/local/bin''"
    by code_simp+
  have d: "\<exists>a. lookup host_world ''/usr'' = Some (Dir a)" "\<exists>a. lookup host_world ''/usr/local'' = Some (Dir a)"
    "lookup host_world ''/usr/local/bin'' \<noteq> None" by (simp_all add: host_world_def host_dir_def)
  have "in_tree host_world ''/usr/local'' ''/usr/local/bin''"
    using in_tree.entry [of host_world "''/usr/local''" _ "''bin''"] in_tree.root host_dir_entry d p by auto
  then have "in_tree host_world ''/usr'' ''/usr/local/bin''"
    using in_tree.entry [of host_world "''/usr''" _ "''local''"] host_dir_entry d p by auto
  moreover have "contents ''/dl/agent'' host_world = Some ''program''" by code_simp
  ultimately show ?thesis using c r p(1) by simp
qed

text \<open>The environment file of this installation, read back.\<close>

definition host_env_world :: world where
  "host_env_world = host_world\<lparr>w_files := [(''/etc/shadowtwin-agent/agent.env'', File \<lparr>a_perm = 6 * 8 * 8, a_owner = (0, 0)\<rparr>
     (envFileContent (install_options host_flags) ''https://platform:8443/enroll'' ''https://platform:8443/ingest''
       ''https://platform:8443/renew''))]\<rparr>"

theorem env_file_configures_the_agent_witness:
  "\<exists>m w'. parseEnvFile ''/etc/shadowtwin-agent/agent.env'' host_env_world = ((m, None), w')
    \<and> EnrollToken (Load (setting m)) = ''token-1'' \<and> IngestEndpoint (Load (setting m)) = ''https://platform:8443/ingest''"
proof -
  let ?o = "install_options host_flags"
  let ?c = "envFileContent ?o ''https://platform:8443/enroll'' ''https://platform:8443/ingest'' ''https://platform:8443/renew''"
  have p: "optEnvFile ?o = ''/etc/shadowtwin-agent/agent.env''" "optStateDir ?o \<noteq> []" "optToken ?o = ''token-1''"
    "trim_right_char slash (optServer ?o) = ''https://platform:8443''" by code_simp+
  have pl: "list_all plain_value [optStateDir ?o, ''https://platform:8443/enroll'', ''https://platform:8443/ingest'',
      ''https://platform:8443/renew'', optToken ?o]" by code_simp
  have c: "contents (optEnvFile ?o) host_env_world = Some ?c" by (simp add: p host_env_world_def contents_def)
  obtain m err w' where r: "parseEnvFile (optEnvFile ?o) host_env_world = ((m, err), w')" by (metis prod.exhaust)
  have "quiet host_env_world" using host_quiet by (simp add: host_env_world_def quiet_def)
  then obtain w1 where "os_read_file (optEnvFile ?o) host_env_world = (Inr ?c, w1)" using quiet_read [OF _ c] by blast
  then have "err = None" using r env_content_scans [OF pl] by (simp add: parseEnvFile_def os_open_read_def)
  then show ?thesis
    using env_file_configures_the_agent [OF host_endpoints c r pl] p r by (auto simp: Let_def)
qed

text \<open>One event in the queue.\<close>

definition depth_queue :: queue where
  "depth_queue = \<lparr>qDir = ''/s/queue'', qDeadDir = ''/s/queue/dead'', qLimits = demo_limits, qCount = 0, qBytes = 0, qDropped = 0\<rparr>"

definition depth_opened :: world where
  "depth_opened = snd (Open ''/s/queue'' demo_limits demo_world)"

theorem queue_depth_counts_pending_witness:
  "\<exists>q w w'. Write demo_event depth_queue depth_opened = (Inr (), q, w) \<and> queueDepth ''/s'' w = (1, w') \<and> queue_len q = 1"
proof -
  have p: "join_path [''/s'', ''queue''] = ''/s/queue''" by code_simp
  have "fst (Open ''/s/queue'' demo_limits demo_world) = Inr depth_queue" by code_simp
  then have op: "Open ''/s/queue'' demo_limits demo_world = (Inr depth_queue, depth_opened)"
    by (simp add: depth_opened_def prod_eq_iff)
  obtain r q w where wr: "Write demo_event depth_queue depth_opened = (r, q, w)" by (metis prod_cases3)
  have "is_ok (fst (Write demo_event depth_queue depth_opened))" "qCount (fst (snd (Write demo_event depth_queue depth_opened))) = 1"
    by code_simp+
  then have r: "r = Inr ()" "qCount q = 1" using wr by (cases r; simp)+
  have new: "live depth_queue depth_opened (fileName demo_event) = None" by code_simp
  have run: "calm_run ''/s/queue'' demo_limits (q, w)"
    by (rule calm_write [OF calm_open [OF demo_quiet op] demo_id_plain new wr])
  obtain n w' where n: "queueDepth ''/s'' w = (n, w')" by force
  have "buf_reach (join_path [''/s'', ''queue'']) demo_limits (q, w)"
    unfolding p using buf_reach.step [OF opened [OF op] step_write [OF demo_id_plain wr]] .
  from queue_depth_counts_pending [OF this n] run have "n = queue_len q" unfolding p by simp
  then show ?thesis using wr r n by (auto simp: queue_len_def)
qed

text \<open>
  An installation with a queued event.  The stopping service queues another one, and \<open>userdel\<close> changes the
  table of users.
\<close>

definition plain_file :: "bytes \<Rightarrow> node" where
  "plain_file b = File \<lparr>a_perm = 6 * 8 * 8, a_owner = (0, 0)\<rparr> b"

definition purge_world :: world where
  "purge_world = host_world\<lparr>w_files := (''/etc/shadowtwin-agent'', host_dir)
     # (''/var/lib/shadowtwin-agent'', host_dir) # (''/var/lib/shadowtwin-agent/queue'', host_dir)
     # map (\<lambda>p. (p, plain_file ''x''))
         [''/usr/local/bin/shadowtwin-agent'', ''/etc/systemd/system/shadowtwin-agent.service'', ''/etc/shadowtwin-agent/agent.env'',
          ''/var/lib/shadowtwin-agent/queue/1.json'', ''/etc/hosts'', ''/etc/passwd'']\<rparr>"

definition purge_exec :: "string list \<Rightarrow> unit machine \<Rightarrow> (bool \<times> bytes) \<times> unit machine" where
  "purge_exec args m =
     (let put = (\<lambda>p. (fst m)\<lparr>w_files := AList.update p (plain_file ''y'') (w_files (fst m))\<rparr>)
      in ((True, []),
          (if args = stop_command then put ''/var/lib/shadowtwin-agent/queue/2.json''
           else if args = [''userdel'', defaultUser] then put ''/etc/passwd''
           else fst m, snd m)))"

definition purge_host :: "(bytes, unit) host" where
  "purge_host = host_demo\<lparr>hExec := purge_exec\<rparr>"

lemma purge_tidy: "tidy_commands purge_host (purge_targets installStateDir) {''/etc/passwd''}"
proof -
  have p: "under (clean installStateDir) ''/var/lib/shadowtwin-agent/queue/2.json''"
    "''/var/lib/shadowtwin-agent/queue/2.json'' \<notin> program_files" "''/etc/passwd'' \<notin> program_files"
    "\<not> under defaultEnvDir ''/etc/passwd''" "\<not> under (clean installStateDir) ''/etc/passwd''"
    unfolding program_files_def by code_simp+
  then have t: "''/etc/passwd'' \<notin> purge_targets installStateDir"
    "''/var/lib/shadowtwin-agent/queue/2.json'' \<in> purge_targets installStateDir"
    by (simp_all add: purge_targets_def)
  have stop: "fst (snd (hExec purge_host stop_command m))
      = (fst m)\<lparr>w_files := AList.update ''/var/lib/shadowtwin-agent/queue/2.json'' (plain_file ''y'') (w_files (fst m))\<rparr>" for m
    by (simp add: purge_host_def purge_exec_def Let_def)
  have other: "fst (snd (hExec purge_host args m)) \<in> {fst m, (fst m)\<lparr>w_files := AList.update ''/etc/passwd'' (plain_file ''y'') (w_files (fst m))\<rparr>}"
    if "args \<noteq> stop_command" for args m
    using that by (auto simp: purge_host_def purge_exec_def Let_def)
  have put: "tidy T C w (w\<lparr>w_files := AList.update x nd (w_files w)\<rparr>)" if "x \<notin> T" "x \<in> C" for T C x nd w
    using that by (auto simp: tidy_def map_of_update quiet_def)
  have same: "tidy T C w w" for T C w by (simp add: tidy_def)
  show ?thesis
    unfolding tidy_commands_def
  proof (intro allI)
    fix args m
    show "(if args = stop_command then tidy program_files (purge_targets installStateDir \<union> {''/etc/passwd''})
        else tidy (purge_targets installStateDir) {''/etc/passwd''}) (fst m) (fst (snd (hExec purge_host args m)))"
    proof (cases "args = stop_command")
      case True
      have "tidy program_files (purge_targets installStateDir \<union> {''/etc/passwd''}) (fst m) (fst (snd (hExec purge_host stop_command m)))"
        unfolding stop by (rule put [OF p(2)]) (use t(2) in blast)
      then show ?thesis by (simp only: True simp_thms if_True)
    next
      case False
      have "tidy (purge_targets installStateDir) {''/etc/passwd''} (fst m) (fst (snd (hExec purge_host args m)))"
        using other [OF False, of m] put [OF t(1)] same by auto
      then show ?thesis by (simp only: False if_False)
    qed
  qed
qed

lemma uninstall_returns: "hEuid h = 0 \<Longrightarrow> \<exists>res m'. runUninstall h purge userName stateDir m = (Inr res, m')"
  by (cases "runUninstall h purge userName stateDir m") (auto simp: runUninstall_def split: prod.splits if_splits)

theorem purge_leaves_nothing_witness:
  "\<exists>res m'. runUninstall purge_host True defaultUser installStateDir (purge_world, ()) = (Inr res, m')
     \<and> lookup (fst m') ''/etc/shadowtwin-agent/agent.env'' = None \<and> lookup (fst m') ''/var/lib/shadowtwin-agent/queue/1.json'' = None
     \<and> lookup (fst m') ''/etc/hosts'' = Some (plain_file ''x'')"
proof -
  obtain res m' where u: "runUninstall purge_host True defaultUser installStateDir (purge_world, ()) = (Inr res, m')"
    using uninstall_returns [of purge_host True defaultUser installStateDir "(purge_world, ())"]
    by (auto simp: purge_host_def host_demo_def)
  have q: "quiet (fst (purge_world, ()))" using host_quiet by (simp add: purge_world_def quiet_def)
  have names: "join_path [defaultBinDir, defaultBinName] = ''/usr/local/bin/shadowtwin-agent''"
    "join_path [defaultUnitDir, defaultBinName @ ''.service''] = ''/etc/systemd/system/shadowtwin-agent.service''" by code_simp+
  have files: "\<forall>p\<in>program_files. \<nexists>a. lookup (fst (purge_world, ())) p = Some (Dir a)"
    unfolding program_files_def names by (simp add: purge_world_def plain_file_def)
  have d: "installStateDir \<noteq> []" "installStateDir \<noteq> ''.''" "\<not> has_suffix installStateDir ''/.''" by code_simp+
  have "under defaultEnvDir ''/etc/shadowtwin-agent/agent.env''" "under (clean installStateDir) ''/var/lib/shadowtwin-agent/queue/1.json''"
    "\<not> under defaultEnvDir ''/etc/hosts''" "\<not> under (clean installStateDir) ''/etc/hosts''" by code_simp+
  moreover have "''/etc/hosts'' \<notin> program_files" unfolding program_files_def names by simp
  moreover have "lookup purge_world ''/etc/hosts'' = Some (plain_file ''x'')" by (simp add: purge_world_def)
  ultimately show ?thesis
    using purge_leaves_nothing [OF u q purge_tidy files d] u by (intro exI [of _ res] exI [of _ m']) auto
qed

text \<open>The same host with a client certificate: \<open>doctor\<close> has nothing to complain about.\<close>

definition doctor_world :: world where
  "doctor_world = host_world\<lparr>w_clock := \<lambda>_. 1750000000 * ns_per_s, w_files := map (\<lambda>(p, b). (p, File \<lparr>a_perm = 6 * 8 * 8, a_owner = (0, 0)\<rparr> b))
     [(''/usr/local/bin/shadowtwin-agent'', ''program''),
      (''/etc/shadowtwin-agent/agent.env'', envFileContent (install_options host_flags) ''https://platform:8443/enroll''
         ''https://platform:8443/ingest'' ''https://platform:8443/renew''),
      (''/var/lib/shadowtwin-agent/certs/ca.crt'', desk_pem ''CERTIFICATE'' ''ca''),
      (''/var/lib/shadowtwin-agent/certs/client.crt'', desk_pem pemTypeCert (put_nums [0, 9, 0, 1800000000, 42] ''web-1''))]\<rparr>"

theorem doctor_confirms_the_installation_witness:
  "\<exists>ls depth m'. runDoctor desk_crypto host_demo (doctor_world, ()) = ((ls, depth, False), m')"
proof -
  let ?o = "install_options host_flags"
  let ?c = "envFileContent ?o ''https://platform:8443/enroll'' ''https://platform:8443/ingest'' ''https://platform:8443/renew''"
  have p: "optStateDir ?o = ''/var/lib/shadowtwin-agent''" "agent_env_file = ''/etc/shadowtwin-agent/agent.env''"
    "join_path [defaultBinDir, defaultBinName] = ''/usr/local/bin/shadowtwin-agent''"
    "join_path [join_path [''/var/lib/shadowtwin-agent'', ''certs''], ''ca.crt''] = ''/var/lib/shadowtwin-agent/certs/ca.crt''"
    "join_path [''/var/lib/shadowtwin-agent'', ''certs'', ''client.crt''] = ''/var/lib/shadowtwin-agent/certs/client.crt''" by code_simp+
  have q: "quiet doctor_world" using host_quiet by (simp add: doctor_world_def quiet_def)
  have f: "contents agent_env_file doctor_world = Some ?c" by (simp add: p doctor_world_def contents_def)
  have pl: "list_all plain_value [optStateDir ?o, ''https://platform:8443/enroll'', ''https://platform:8443/ingest'',
      ''https://platform:8443/renew'', optToken ?o]" by code_simp
  have ca: "contents (join_path [join_path [optStateDir ?o, ''certs''], ''ca.crt'']) doctor_world = Some (desk_pem ''CERTIFICATE'' ''ca'')"
    unfolding p by (simp add: doctor_world_def contents_def)
  have crt: "Option.bind (contents (join_path [optStateDir ?o, ''certs'', ''client.crt'']) doctor_world) (cert_until desk_crypto)
      = Some (1800000000 * ns_per_s)"
  proof -
    have "contents (join_path [optStateDir ?o, ''certs'', ''client.crt'']) doctor_world
      = Some (desk_pem pemTypeCert (put_nums [0, 9, 0, 1800000000, 42] ''web-1''))"
      unfolding p by (simp add: doctor_world_def contents_def)
    moreover have "cert_until desk_crypto (desk_pem pemTypeCert (put_nums [0, 9, 0, 1800000000, 42] ''web-1'')) = Some (1800000000 * ns_per_s)"
      by code_simp
    ultimately show ?thesis by simp
  qed
  have host: "userExists host_demo defaultUser ()" "userInGroup host_demo defaultUser journalGroup ()"
    "is_ok (fst (probeTLS desk_crypto host_demo ''https://platform:8443/ingest'' (desk_pem ''CERTIFICATE'' ''ca'') ()))" by code_simp+
  have active: "fst (isActive host_demo defaultBinName m)" for m
  proof -
    have "trim_space (''active'' @ [newline]) = ''active''" by code_simp
    then show ?thesis by (simp add: isActive_def host_demo_def host_exec_def)
  qed
  have bin: "lookup doctor_world (join_path [defaultBinDir, defaultBinName]) \<noteq> None" unfolding p by (simp add: doctor_world_def)
  have ne: "optStateDir ?o \<noteq> []" by (simp add: p)
  have late: "w_clock doctor_world k < 1800000000 * ns_per_s" for k by (simp add: doctor_world_def ns_per_s_def)
  obtain ls depth failed m' where d: "runDoctor desk_crypto host_demo (doctor_world, ()) = ((ls, depth, failed), m')"
    by (metis prod_cases3 prod.exhaust)
  from doctor_confirms_the_installation [OF host_endpoints q f pl ne ca d] bin host crt active late have "failed = False" by auto
  with d show ?thesis by blast
qed

end
