(* ===== verification/Spec2Isabelle.thy ===== *)
theory Spec2Isabelle
  imports Buffer_Simulation Platform_Identity Pipeline_Runs Onboard_Runs
begin

text \<open>
  A verification library for the ShadowTwin host agent (\<open>src/go-agent-v0\<close>, in Go) and the platform it is
  developed against.  Paths below are relative to \<open>src/go-agent-v0\<close>.

  THE PROGRAM.  The agent (\<open>cmd/agent\<close>) tails the systemd journal for authentication records, stores
  each as an event file in a queue directory and ships the files in batches over mutual TLS.  The
  collector (\<open>internal/collectors/auth\<close>) turns lines of \<open>journalctl -o json\<close> into events
  (\<open>internal/collectors\<close>) and keeps a resume cursor in a file; a producer goroutine writes the events to
  the durable queue (\<open>internal/buffer\<close>); a consumer reads batches, sends them (\<open>internal/transport\<close>) and,
  by the outcome, acknowledges them, moves them to a dead-letter directory, backs off, or halts.  The
  client certificate comes from a one-time token (\<open>internal/enroll\<close>) and is renewed over the running
  connection.  \<open>internal/pki\<close> is the certificate authority, \<open>cmd/mock-platform\<close> the server side of the
  three routes the agent uses, and of one that revokes an agent.

  WHAT EACH THEORY MODELS.
  \<^item> \<open>Go_Prelude\<close>, \<open>Go_Strings\<close>, \<open>Go_Path\<close>, \<open>Go_Utf8\<close>, \<open>Go_Time\<close>, \<open>Go_Json\<close>, \<open>Go_World\<close>: what the source uses of
    Go and its standard library.  Strings and byte slices are character lists, one character per byte;
    \<open>time.Duration\<close> is a \<open>64 word\<close>; a \<open>time.Time\<close> is the nanoseconds since 1970; \<open>encoding/json\<close> is a
    printer and a recursive descent parser on bytes with Go's treatment of invalid UTF-8 and of key
    case; the operating system is \<open>world\<close>, a table from clean paths to files and directories together
    with a fault schedule.  Every system call looks its number up in the schedule: it goes through,
    fails, fails after writing a prefix of its data, or is the one at which the process dies.
  \<^item> \<open>Collectors\<close>: \<open>Event\<close>, its JSON form, \<open>NewEvent\<close>, \<open>newUUID\<close> (\<open>event.go\<close>, \<open>uuid.go\<close>).
  \<^item> \<open>Buffer\<close>: \<open>internal/buffer/buffer.go\<close>, every operation; \<open>Buffer_Spool\<close>, \<open>Buffer_Ops\<close>, \<open>Buffer_Open\<close>,
    \<open>Buffer_Fifo\<close>, \<open>Buffer_Props\<close>, \<open>Buffer_Refine\<close>, \<open>Buffer_Theorems\<close>: its lemmas.  \<open>Settlement\<close> is the locale of a
    two-place store (pending, dead) that an operation only empties, interpreted on the queue in \<open>Buffer_Props\<close>.
    \<open>Refinement\<close> has the locales of a state that a simpler one predicts (\<open>data_refinement\<close>) and of a state that only
    grows (\<open>growing\<close>); \<open>Buffer_Simulation\<close> interprets the first on all operations of the queue, restarts included,
    \<open>Mock_Theorems\<close> the second on the requests to the platform, \<open>Enroll_Theorems\<close> on the rounds of the renewal loop.
  \<^item> \<open>Transport\<close>: \<open>internal/transport/transport.go\<close>; the HTTP client and \<open>gzip\<close> are the record \<open>net\<close>.
  \<^item> \<open>Config\<close>: \<open>internal/config/config.go\<close>.
  \<^item> \<open>Auth_Collector\<close>, \<open>Auth_Theorems\<close>: \<open>auth.go\<close>, \<open>parse.go\<close>; \<open>journalctl\<close> is the byte stream it writes.
    \<open>Atomic_File\<close> is the locale of a file that is replaced as a whole, interpreted on \<open>writeCursor\<close> and, in
    \<open>Enroll_Theorems\<close>, on \<open>writeFileAtomic\<close>.
  \<^item> \<open>Sink\<close>, \<open>Sink_Drain\<close>: \<open>buildSink\<close>, \<open>runSink\<close>, \<open>finalFlush\<close> of \<open>cmd/agent/main.go\<close>.
  \<^item> \<open>Pipeline\<close>, \<open>Pipeline_Theorems\<close>, \<open>Pipeline_Runs\<close>: \<open>runAgent\<close> of \<open>cmd/agent/main.go\<close>, from the start of the
    agent to its final flush: collector, producer and consumer as a step relation whose steps are the operations of
    the theories above.  \<open>Buffer_Frame\<close> shows which files the queue touches.
  \<^item> \<open>Pki\<close>, \<open>Pki_Theorems\<close>: \<open>internal/pki/pki.go\<close> over a record \<open>crypto\<close> of primitives (ECDSA, X.509, PEM,
    TLS); \<open>crypto_ok\<close> states their documented behaviour and \<open>Pki_Instance\<close> has a concrete instance of it.
  \<^item> \<open>Enroll\<close>, \<open>Enroll_Theorems\<close>, \<open>Enroll_Runs\<close>: \<open>internal/enroll/enroll.go\<close> and \<open>renewalLoop\<close>.
  \<^item> \<open>Mock_Platform\<close>, \<open>Mock_Theorems\<close>: \<open>cmd/mock-platform/main.go\<close>; \<open>Platform\<close> joins it with the
    agent: the mock platform is put in the place of the network of \<open>Send\<close>; \<open>Platform_Identity\<close> puts it in the
    place of the network of \<open>EnsureIdentity\<close> and \<open>Renew\<close>.
  \<^item> \<open>Onboard\<close>: \<open>cmd/agent/onboard.go\<close> (\<open>install\<close>, \<open>uninstall\<close>, \<open>status\<close>, \<open>doctor\<close>) and the dispatch of \<open>main\<close>, over the
    same file table; the commands they run, the user database and the network probes are the record \<open>host\<close>.
    \<open>Onboard_Theorems\<close> has the environment file, \<open>Onboard_Files\<close> the walk over the state directory, \<open>Onboard_Install\<close>
    what an installation leaves on disk, \<open>Onboard_Doctor\<close> what \<open>doctor\<close> makes of it, \<open>Onboard_Runs\<close> \<open>uninstall --purge\<close> and a concrete host for the examples.

  WHAT THE LEMMAS SHOW.  Buffer: an invariant of the in-memory counters against the directory
  (\<open>covered\<close>, \<open>within_limits\<close>) kept by every operation under every fault schedule, refinement of a drop-oldest
  list over any run on a working disk, ordering by file name, recovery by \<open>Open\<close>.  Sink: nothing leaves the queue unless it was
  acknowledged, dead-lettered or found corrupt; on a working disk the loop ends and delivers in order, and the answer
  of the platform decides between delivered, kept and dead-lettered.  Collector: what an
  accepted line becomes, an atomic cursor that follows the emitted entries, and how scanning ends.  Enrolment: the identity in memory is the
  one on disk, over any renewals, and does not expire while the platform answers (\<open>platform_renews\<close> says what of it is
  assumed, \<open>host_works\<close> what of the host).  Platform: revocation is final, certificates only for the
  authenticated, what is acknowledged has arrived; the agent and the platform
  together: the token decides the first start, the deny list a renewal.  Agent: over all interleavings no stored
  event is lost, every event taken is given to \<open>Write\<close> in order, the queue is bounded, and the cursor can
  overtake an event that is not stored yet.  Onboarding: a reported installation is complete, the environment file
  reads back as it was meant, the binary is replaced as a whole, the walk over the state directory ends and reaches all of
  it, \<open>doctor\<close> confirms exactly what is in order, and purging removes the agent and nothing else but what the commands it
  runs change themselves.

  FUEL AND BOUNDS.  \<open>drain_pass\<close> and \<open>finalFlush\<close> take fuel and return \<open>None\<close> without it, since the loops of
  the code need not end when the disk fails; \<open>drain_pass_returns\<close> proves that one more than the number
  of pending events is enough on a working disk, and the safety theorems hold for any fuel.  The other
  loops are structural or have a measure.  \<open>walk_dir\<close> (\<open>filepath.WalkDir\<close>) takes fuel for its depth; \<open>chown_tree_returns\<close>
  shows that one more than the number of entries of the file table is enough.  \<open>await_service\<close> takes the number of times its
  clock is found before the deadline, at most 25 in the program, where each round sleeps for a second.

  NOT MODELLED.  Interleaving inside an operation of the queue or of the identity (each holds its
  mutex throughout, so operations are atomic steps here); logging; flag parsing; signal delivery; the
  HTTPS listener and TLS records; the nesting limit of 10000 of the JSON decoder; the exact text
  of error messages; of \<open>install --dry-run\<close> the lines of the plan before the two documents.  Files are read in one call; where the program
  keeps what it read before an error, the environment file, \<open>os_open_read\<close> gives that part.  The Python programs beside the agent (\<open>forwarder\<close>, \<open>ingestor\<close>, \<open>demo\<close>) are separate services
  around HTTP, MQTT and a database.
\<close>

end
